(* ===== verification/Rsp_Prelude.thy ===== *)
theory Rsp_Prelude
  imports Main "HOL-Library.Word" "HOL-Library.State_Monad"
begin

text \<open>
  The shared layer of the development: names for the machine integers the program uses,
  the collections of rewrite rules the component theories fill, generic lemmas on masks,
  shifts and updates, and the interface of a byte store (something with cells that can be
  read and written one byte at a time), from which every copying loop of the program
  gets its specification.
\<close>

unbundle bit_operations_syntax

type_synonym u8 = "8 word"
type_synonym u16 = "16 word"
type_synonym u32 = "32 word"
type_synonym u64 = "64 word"

named_theorems mask_simps \<open>masks with contiguous low bits as remainders\<close>
named_theorems byte_simps \<open>reading a byte after writing one\<close>
named_theorems wf_intros \<open>every operation keeps the state well formed\<close>

subsection \<open>Masks and shifts\<close>

lemma and_0xfff_eq [mask_simps]: "(a :: 'a::len word) AND 0xfff = take_bit 12 a"
  by (simp add: take_bit_eq_mask mask_eq_exp_minus_1)

lemma and_0x1fff_eq [mask_simps]: "(a :: 'a::len word) AND 0x1fff = take_bit 13 a"
  by (simp add: take_bit_eq_mask mask_eq_exp_minus_1)

lemma and_0xffffff_eq [mask_simps]: "(a :: 'a::len word) AND 0xffffff = take_bit 24 a"
  by (simp add: take_bit_eq_mask mask_eq_exp_minus_1)

lemma and_0xffff_eq [mask_simps]: "(a :: 'a::len word) AND 0xffff = take_bit 16 a"
  by (simp add: take_bit_eq_mask mask_eq_exp_minus_1)

lemma and_31_eq [mask_simps]: "(a :: 'a::len word) AND 31 = take_bit 5 a"
  by (simp add: take_bit_eq_mask mask_eq_exp_minus_1)

lemma and_15_eq [mask_simps]: "(a :: 'a::len word) AND 15 = take_bit 4 a"
  by (simp add: take_bit_eq_mask mask_eq_exp_minus_1)

lemma unat_take_bit: "unat (take_bit n (a :: 'a::len word)) = unat a mod 2 ^ n"
  by (simp add: unsigned_take_bit_eq flip: take_bit_eq_mod)

lemma unat_and_0xfff: "unat ((a :: u32) AND 0xfff) = unat a mod 4096"
  by (simp add: mask_simps unat_take_bit)

lemma unat_and_0xfff_less [simp]: "unat ((a :: u32) AND 0xfff) < 4096"
  by (simp add: unat_and_0xfff)

lemma unat_and_31_less [simp]: "unat ((a :: u32) AND 31) < 32"
  by (simp add: mask_simps unat_take_bit)

lemma unat_and_15_less [simp]: "unat ((a :: u32) AND 15) < 16"
  by (simp add: mask_simps unat_take_bit)

lemma nat_and_15: "(i :: nat) AND 15 = i mod 16"
proof -
  have "i AND 15 = take_bit 4 i" by (simp add: take_bit_eq_mask mask_eq_exp_minus_1)
  then show ?thesis by (simp add: take_bit_eq_mod)
qed

lemma nat_and_7: "(i :: nat) AND 7 = i mod 8"
proof -
  have "i AND 7 = take_bit 3 i" by (simp add: take_bit_eq_mask mask_eq_exp_minus_1)
  then show ?thesis by (simp add: take_bit_eq_mod)
qed

subsection \<open>Copying loops over byte stores\<close>

text \<open>
  \<open>copy_loop put src f g xs s\<close> is the loop \<open>for i in xs: put(f(i), src(g(i)))\<close>.
\<close>

definition copy_loop ::
    "('s \<Rightarrow> 'i \<Rightarrow> 'b \<Rightarrow> 's) \<Rightarrow> ('s \<Rightarrow> 'j \<Rightarrow> 'b) \<Rightarrow> ('n \<Rightarrow> 'i) \<Rightarrow> ('n \<Rightarrow> 'j) \<Rightarrow> 'n list \<Rightarrow> 's \<Rightarrow> 's" where
  "copy_loop put src f g xs s = fold (\<lambda>x t. put t (f x) (src t (g x))) xs s"

lemma copy_loop_Nil [simp]: "copy_loop put src f g [] s = s"
  by (simp add: copy_loop_def)

lemma copy_loop_Cons:
  "copy_loop put src f g (x # xs) s = copy_loop put src f g xs (put s (f x) (src s (g x)))"
  by (simp add: copy_loop_def)

lemma copy_loop_inv:
  assumes "P s" and "\<And>t x. P t \<Longrightarrow> P (put t (f x) (src t (g x)))"
  shows "P (copy_loop put src f g xs s)"
  using assms(1) by (induction xs arbitrary: s) (auto simp: copy_loop_Cons intro: assms(2))

text \<open>
  A byte store: what a read returns after a write.  Two indices name the same cell when
  \<open>cell\<close> maps them to the same key, which is how the wrap-around of an address is stated.
\<close>

locale byte_cells =
  fixes get :: "'s \<Rightarrow> 'i \<Rightarrow> 'b"
    and put :: "'s \<Rightarrow> 'i \<Rightarrow> 'b \<Rightarrow> 's"
    and cell :: "'i \<Rightarrow> 'k"
  assumes get_put: "get (put s i b) j = (if cell i = cell j then b else get s j)"
begin

lemma get_put_same: "cell i = cell j \<Longrightarrow> get (put s i b) j = b"
  by (simp add: get_put)

lemma get_put_other: "cell i \<noteq> cell j \<Longrightarrow> get (put s i b) j = get s j"
  by (simp add: get_put)

end

text \<open>
  A copy between two different stores held in one state: writing the destination leaves
  the source alone, so the whole loop can be read off the initial state.
\<close>

locale byte_copy = byte_cells get put cell
  for get :: "'s \<Rightarrow> 'i \<Rightarrow> 'b" and put :: "'s \<Rightarrow> 'i \<Rightarrow> 'b \<Rightarrow> 's" and cell :: "'i \<Rightarrow> 'k" +
  fixes src :: "'s \<Rightarrow> 'j \<Rightarrow> 'b"
  assumes src_put: "src (put s i b) j = src s j"
begin

lemma src_copy: "src (copy_loop put src f g xs s) j = src s j"
  by (induction xs arbitrary: s) (simp_all add: copy_loop_Cons src_put)

lemma get_copy_untouched:
  "\<forall>x \<in> set xs. cell (f x) \<noteq> cell j \<Longrightarrow> get (copy_loop put src f g xs s) j = get s j"
  by (induction xs arbitrary: s) (simp_all add: copy_loop_Cons get_put)

lemma get_copy_written:
  assumes "distinct (map (cell \<circ> f) xs)" and "x \<in> set xs" and "cell (f x) = cell j"
  shows "get (copy_loop put src f g xs s) j = src s (g x)"
  using assms
proof (induction xs arbitrary: s)
  case Nil
  then show ?case by simp
next
  case (Cons y xs)
  show ?case
  proof (cases "x = y")
    case True
    have "\<forall>z \<in> set xs. cell (f z) \<noteq> cell j"
      using Cons.prems(1,3) True by (auto simp: image_iff)
    then show ?thesis
      using Cons.prems(3) True by (simp add: copy_loop_Cons get_copy_untouched get_put)
  next
    case False
    with Cons.prems(1,2,3) have "get (copy_loop put src f g xs (put s (f y) (src s (g y)))) j
        = src (put s (f y) (src s (g y))) (g x)"
      by (intro Cons.IH) auto
    then show ?thesis by (simp add: copy_loop_Cons src_put)
  qed
qed

end

end
