(* ===== verification/Llvm_Ir.thy ===== *)
theory Llvm_Ir
  imports Rsp_Prelude
begin

text \<open>
  The LLVM instructions the translator emits.  LLVM is not part of this repository, so the
  meaning of its instructions is a parameter: a record \<open>llvm\<close> with one operation per
  instruction and width the translator uses.  \<open>llvm_doc\<close> is what the translator relies on, the
  documented meaning of each instruction (LLVM Language Reference), with nothing promised
  where the reference says the result is poison, and the byte order of a little-endian host,
  which \<open>rspFunc.cc\<close> assumes in \<open>toBytes\<close>, \<open>loadMem\<close> and \<open>storeMem\<close>.

  An \<open>i1\<close> is a \<open>bool\<close>; a vector is a function from lane numbers; an instruction on vectors
  works lane by lane.
\<close>

subsection \<open>Instructions\<close>

datatype binop = Add | Sub | Mul | Shl | LShr | AShr | And | Or | Xor | SMax | SMin

datatype icmp = EQ | NE | SLT | SLE | SGT | SGE | ULT | ULE | UGE

record llvm =
  bin1 :: "binop \<Rightarrow> bool \<Rightarrow> bool \<Rightarrow> bool"
  bin16 :: "binop \<Rightarrow> u16 \<Rightarrow> u16 \<Rightarrow> u16"
  bin32 :: "binop \<Rightarrow> u32 \<Rightarrow> u32 \<Rightarrow> u32"
  bin64 :: "binop \<Rightarrow> u64 \<Rightarrow> u64 \<Rightarrow> u64"
  cmp8 :: "icmp \<Rightarrow> u8 \<Rightarrow> u8 \<Rightarrow> bool"
  cmp16 :: "icmp \<Rightarrow> u16 \<Rightarrow> u16 \<Rightarrow> bool"
  cmp32 :: "icmp \<Rightarrow> u32 \<Rightarrow> u32 \<Rightarrow> bool"
  cmp64 :: "icmp \<Rightarrow> u64 \<Rightarrow> u64 \<Rightarrow> bool"
  zext1_32 :: "bool \<Rightarrow> u32"
  zext1_64 :: "bool \<Rightarrow> u64"
  zext8_32 :: "u8 \<Rightarrow> u32"
  zext16_32 :: "u16 \<Rightarrow> u32"
  zext16_64 :: "u16 \<Rightarrow> u64"
  sext8_32 :: "u8 \<Rightarrow> u32"
  sext16_32 :: "u16 \<Rightarrow> u32"
  sext16_64 :: "u16 \<Rightarrow> u64"
  trunc32_8 :: "u32 \<Rightarrow> u8"
  trunc32_16 :: "u32 \<Rightarrow> u16"
  trunc64_16 :: "u64 \<Rightarrow> u16"
  bswap16 :: "u16 \<Rightarrow> u16"
  bswap32 :: "u32 \<Rightarrow> u32"
  sel1 :: "bool \<Rightarrow> bool \<Rightarrow> bool \<Rightarrow> bool"
  sel8 :: "bool \<Rightarrow> u8 \<Rightarrow> u8 \<Rightarrow> u8"
  sel16 :: "bool \<Rightarrow> u16 \<Rightarrow> u16 \<Rightarrow> u16"
  shuffle16 :: "(nat \<Rightarrow> u16) \<Rightarrow> int list \<Rightarrow> nat \<Rightarrow> u16"          \<comment> \<open>one vector of 8 and an index mask (-1 for no lane)\<close>
  shuffle8 :: "nat \<Rightarrow> (nat \<Rightarrow> u8) \<Rightarrow> (nat \<Rightarrow> u8) \<Rightarrow> int list \<Rightarrow> nat \<Rightarrow> u8" \<comment> \<open>two vectors of n and a mask\<close>
  bytes16 :: "u16 \<Rightarrow> nat \<Rightarrow> u8"                          \<comment> \<open>byte k of the value in memory\<close>
  bytes32 :: "u32 \<Rightarrow> nat \<Rightarrow> u8"
  load16 :: "(nat \<Rightarrow> u8) \<Rightarrow> u16"                          \<comment> \<open>the value of bytes 0, 1\<close>
  load32 :: "(nat \<Rightarrow> u8) \<Rightarrow> u32"                          \<comment> \<open>the value of bytes 0 to 3\<close>

subsection \<open>Their documented meaning\<close>

text \<open>\<open>None\<close> is poison: a shift by the width of its type or more.\<close>

definition doc_bin :: "binop \<Rightarrow> 'a::len word \<Rightarrow> 'a word \<Rightarrow> 'a word option" where
  "doc_bin op a b =
    (case op of
       Add \<Rightarrow> Some (a + b)
     | Sub \<Rightarrow> Some (a - b)
     | Mul \<Rightarrow> Some (a * b)
     | Shl \<Rightarrow> if unat b < LENGTH('a) then Some (push_bit (unat b) a) else None
     | LShr \<Rightarrow> if unat b < LENGTH('a) then Some (drop_bit (unat b) a) else None
     | AShr \<Rightarrow> if unat b < LENGTH('a) then Some (signed_drop_bit (unat b) a) else None
     | And \<Rightarrow> Some (a AND b)
     | Or \<Rightarrow> Some (a OR b)
     | Xor \<Rightarrow> Some (a XOR b)
     | SMax \<Rightarrow> Some (if a <s b then b else a)
     | SMin \<Rightarrow> Some (if a <s b then a else b))"

definition doc_bin1 :: "binop \<Rightarrow> bool \<Rightarrow> bool \<Rightarrow> bool option" where
  "doc_bin1 op a b =
    (case op of And \<Rightarrow> Some (a \<and> b) | Or \<Rightarrow> Some (a \<or> b) | Xor \<Rightarrow> Some (a \<noteq> b) | _ \<Rightarrow> None)"

definition doc_cmp :: "icmp \<Rightarrow> 'a::len word \<Rightarrow> 'a word \<Rightarrow> bool" where
  "doc_cmp p a b =
    (case p of
       EQ \<Rightarrow> a = b | NE \<Rightarrow> a \<noteq> b | SLT \<Rightarrow> a <s b | SLE \<Rightarrow> a <=s b | SGT \<Rightarrow> b <s a | SGE \<Rightarrow> b <=s a
     | ULT \<Rightarrow> a < b | ULE \<Rightarrow> a \<le> b | UGE \<Rightarrow> b \<le> a)"

text \<open>An operation that gives the documented result wherever there is one.\<close>

definition gives :: "('o \<Rightarrow> 'a \<Rightarrow> 'a \<Rightarrow> 'a) \<Rightarrow> ('o \<Rightarrow> 'a \<Rightarrow> 'a \<Rightarrow> 'a option) \<Rightarrow> bool" where
  "gives f doc \<longleftrightarrow> (\<forall>op a b c. doc op a b = Some c \<longrightarrow> f op a b = c)"

text \<open>Byte \<open>k\<close> of a value, counting from the least significant, and a value from its bytes.\<close>

definition byte_of :: "nat \<Rightarrow> 'a::len word \<Rightarrow> u8" where
  "byte_of k x = ucast (drop_bit (8 * k) x)"

definition le16 :: "u8 \<Rightarrow> u8 \<Rightarrow> u16" where
  "le16 b0 b1 = push_bit 8 (ucast b1) OR ucast b0"

definition le32 :: "u8 \<Rightarrow> u8 \<Rightarrow> u8 \<Rightarrow> u8 \<Rightarrow> u32" where
  "le32 b0 b1 b2 b3 = push_bit 24 (ucast b3) OR push_bit 16 (ucast b2) OR push_bit 8 (ucast b1) OR ucast b0"

definition llvm_doc :: "llvm \<Rightarrow> bool" where
  "llvm_doc L \<longleftrightarrow>
    gives (bin1 L) doc_bin1 \<and> gives (bin16 L) doc_bin \<and> gives (bin32 L) doc_bin \<and> gives (bin64 L) doc_bin \<and>
    cmp8 L = doc_cmp \<and> cmp16 L = doc_cmp \<and> cmp32 L = doc_cmp \<and> cmp64 L = doc_cmp \<and>
    zext1_32 L = of_bool \<and> zext1_64 L = of_bool \<and>
    zext8_32 L = ucast \<and> zext16_32 L = ucast \<and> zext16_64 L = ucast \<and>
    sext8_32 L = scast \<and> sext16_32 L = scast \<and> sext16_64 L = scast \<and>
    trunc32_8 L = ucast \<and> trunc32_16 L = ucast \<and> trunc64_16 L = ucast \<and>
    (\<forall>x k. k < 2 \<longrightarrow> byte_of k (bswap16 L x) = byte_of (1 - k) x) \<and>
    (\<forall>x k. k < 4 \<longrightarrow> byte_of k (bswap32 L x) = byte_of (3 - k) x) \<and>
    sel1 L = If \<and> sel8 L = If \<and> sel16 L = If \<and>
    (\<forall>v m i. i < length m \<and> 0 \<le> m ! i \<and> m ! i < 8 \<longrightarrow> shuffle16 L v m i = v (nat (m ! i))) \<and>
    (\<forall>n v w m i. i < length m \<and> 0 \<le> m ! i \<and> m ! i < 2 * int n \<longrightarrow>
       shuffle8 L n v w m i = (if m ! i < int n then v (nat (m ! i)) else w (nat (m ! i) - n))) \<and>
    (\<forall>x k. k < 2 \<longrightarrow> bytes16 L x k = byte_of k x) \<and>
    (\<forall>x k. k < 4 \<longrightarrow> bytes32 L x k = byte_of k x) \<and>
    (\<forall>b. load16 L b = le16 (b 0) (b 1)) \<and> (\<forall>b. load32 L b = le32 (b 0) (b 1) (b 2) (b 3))"

lemma bit_u8_less: "bit (b :: u8) n \<Longrightarrow> n < 8"
  using bit_imp_le_length [of b n] by simp

lemma byte_of_le [simp]:
  "byte_of 0 (le16 b0 b1) = b0" "byte_of (Suc 0) (le16 b0 b1) = b1"
  "byte_of 0 (le32 b0 b1 b2 b3) = b0" "byte_of (Suc 0) (le32 b0 b1 b2 b3) = b1"
  "byte_of 2 (le32 b0 b1 b2 b3) = b2" "byte_of 3 (le32 b0 b1 b2 b3) = b3"
  unfolding byte_of_def le16_def le32_def
  by (rule bit_word_eqI; auto simp: bit_simps dest: bit_u8_less)+

lemma byte_of_le_Suc:
  "byte_of (Suc (Suc 0)) (le32 b0 b1 b2 b3) = b2" "byte_of (Suc (Suc (Suc 0))) (le32 b0 b1 b2 b3) = b3"
  using byte_of_le(5) [of b0 b1 b2 b3] byte_of_le(6) [of b0 b1 b2 b3]
  by (simp_all only: numeral_2_eq_2 numeral_3_eq_3)

lemma le_byte_of:
  "le16 (byte_of 0 x) (byte_of (Suc 0) x) = x"
  "le32 (byte_of 0 y) (byte_of (Suc 0) y) (byte_of 2 y) (byte_of 3 y) = y"
proof -
  show "le16 (byte_of 0 x) (byte_of (Suc 0) x) = x"
    unfolding byte_of_def le16_def by (rule bit_word_eqI) (auto simp: bit_simps not_less)
  show "le32 (byte_of 0 y) (byte_of (Suc 0) y) (byte_of 2 y) (byte_of 3 y) = y"
  proof (rule bit_word_eqI)
    fix n :: nat
    assume "n < LENGTH(32)"
    then consider "n < 8" | "8 \<le> n" "n < 16" | "16 \<le> n" "n < 24" | "24 \<le> n" "n < 32"
      by force
    then show "bit (le32 (byte_of 0 y) (byte_of (Suc 0) y) (byte_of 2 y) (byte_of 3 y)) n = bit y n"
      unfolding byte_of_def le32_def by cases (auto simp: bit_simps)
  qed
qed

text \<open>The reference machine: poison is zero.\<close>

definition or_zero :: "('o \<Rightarrow> 'a \<Rightarrow> 'a \<Rightarrow> 'a option) \<Rightarrow> 'a \<Rightarrow> 'o \<Rightarrow> 'a \<Rightarrow> 'a \<Rightarrow> 'a" where
  "or_zero doc z op a b = (case doc op a b of Some c \<Rightarrow> c | None \<Rightarrow> z)"

definition llvm_ref :: llvm where
  "llvm_ref = \<lparr>bin1 = or_zero doc_bin1 False, bin16 = or_zero doc_bin 0, bin32 = or_zero doc_bin 0,
     bin64 = or_zero doc_bin 0, cmp8 = doc_cmp, cmp16 = doc_cmp, cmp32 = doc_cmp, cmp64 = doc_cmp,
     zext1_32 = of_bool, zext1_64 = of_bool, zext8_32 = ucast, zext16_32 = ucast, zext16_64 = ucast,
     sext8_32 = scast, sext16_32 = scast, sext16_64 = scast,
     trunc32_8 = ucast, trunc32_16 = ucast, trunc64_16 = ucast,
     bswap16 = (\<lambda>x. le16 (byte_of 1 x) (byte_of 0 x)),
     bswap32 = (\<lambda>x. le32 (byte_of 3 x) (byte_of 2 x) (byte_of 1 x) (byte_of 0 x)),
     sel1 = If, sel8 = If, sel16 = If,
     shuffle16 = (\<lambda>v m i. v (nat (m ! i))),
     shuffle8 = (\<lambda>n v w m i. if m ! i < int n then v (nat (m ! i)) else w (nat (m ! i) - n)),
     bytes16 = (\<lambda>x k. byte_of k x), bytes32 = (\<lambda>x k. byte_of k x),
     load16 = (\<lambda>b. le16 (b 0) (b 1)), load32 = (\<lambda>b. le32 (b 0) (b 1) (b 2) (b 3))\<rparr>"

lemma llvm_ref_doc: "llvm_doc llvm_ref"
  by (auto simp: llvm_doc_def llvm_ref_def gives_def or_zero_def less_Suc_eq eval_nat_numeral byte_of_le_Suc)

subsection \<open>The laws as rewrite rules\<close>

lemma llvm_bin:
  assumes "llvm_doc L"
  shows "doc_bin1 op p q = Some r \<Longrightarrow> bin1 L op p q = r"
    "doc_bin op a b = Some c \<Longrightarrow> bin16 L op a b = c"
    "doc_bin op a' b' = Some c' \<Longrightarrow> bin32 L op a' b' = c'"
    "doc_bin op a'' b'' = Some c'' \<Longrightarrow> bin64 L op a'' b'' = c''"
  using assms by (simp_all add: llvm_doc_def gives_def)

lemma llvm_laws:
  assumes "llvm_doc L"
  shows "bin1 L And p q = (p \<and> q)" "bin1 L Or p q = (p \<or> q)" "bin1 L Xor p q = (p \<noteq> q)"
    "bin16 L And a b = a AND b" "bin16 L Xor a b = a XOR b" "bin16 L Sub a b = a - b"
    "bin32 L Add x y = x + y" "bin32 L Sub x y = x - y" "bin32 L And x y = x AND y" "bin32 L Or x y = x OR y"
    "bin32 L Xor x y = x XOR y"
    "unat y < 32 \<Longrightarrow> bin32 L Shl x y = push_bit (unat y) x"
    "unat y < 32 \<Longrightarrow> bin32 L LShr x y = drop_bit (unat y) x"
    "unat y < 32 \<Longrightarrow> bin32 L AShr x y = signed_drop_bit (unat y) x"
    "bin64 L Add u v = u + v" "bin64 L Sub u v = u - v" "bin64 L Mul u v = u * v" "bin64 L And u v = u AND v"
    "bin64 L Or u v = u OR v"
    "bin64 L SMax u v = (if u <s v then v else u)" "bin64 L SMin u v = (if u <s v then u else v)"
    "unat v < 64 \<Longrightarrow> bin64 L Shl u v = push_bit (unat v) u"
    "unat v < 64 \<Longrightarrow> bin64 L LShr u v = drop_bit (unat v) u"
    "unat v < 64 \<Longrightarrow> bin64 L AShr u v = signed_drop_bit (unat v) u"
  by (rule llvm_bin [OF assms]; simp add: doc_bin_def doc_bin1_def)+

lemma llvm_cmp:
  assumes "llvm_doc L"
  shows "cmp8 L ULT c d = (c < d)" "cmp8 L UGE c d = (d \<le> c)"
    "cmp16 L EQ a b = (a = b)" "cmp16 L SGT a b = (b <s a)" "cmp16 L UGE a b = (b \<le> a)"
    "cmp32 L EQ x y = (x = y)" "cmp32 L NE x y = (x \<noteq> y)" "cmp32 L SLT x y = (x <s y)" "cmp32 L SLE x y = (x <=s y)"
    "cmp32 L SGT x y = (y <s x)" "cmp32 L SGE x y = (y <=s x)" "cmp32 L ULT x y = (x < y)"
    "cmp32 L ULE x y = (x \<le> y)" "cmp32 L UGE x y = (y \<le> x)"
    "cmp64 L NE u v = (u \<noteq> v)" "cmp64 L SLT u v = (u <s v)" "cmp64 L SGT u v = (v <s u)"
  using assms by (simp_all add: llvm_doc_def doc_cmp_def)

lemma llvm_casts:
  assumes "llvm_doc L"
  shows "zext1_32 L p = of_bool p" "zext1_64 L p = of_bool p" "zext8_32 L b = ucast b" "zext16_32 L h = ucast h"
    "zext16_64 L h = ucast h" "sext8_32 L b = scast b" "sext16_32 L h = scast h" "sext16_64 L h = scast h"
    "trunc32_8 L w = ucast w" "trunc32_16 L w = ucast w" "trunc64_16 L d = ucast d"
    "sel1 L p q r = (if p then q else r)" "sel8 L p b c = (if p then b else c)" "sel16 L p h k = (if p then h else k)"
  using assms by (simp_all add: llvm_doc_def)

lemma llvm_bytes:
  assumes "llvm_doc L"
  shows "k < 2 \<Longrightarrow> bytes16 L h k = byte_of k h" "k < 4 \<Longrightarrow> bytes32 L w k = byte_of k w"
    "load16 L m = le16 (m 0) (m 1)" "load32 L m = le32 (m 0) (m 1) (m 2) (m 3)"
    "bswap16 L h = le16 (byte_of 1 h) (byte_of 0 h)"
    "bswap32 L w = le32 (byte_of 3 w) (byte_of 2 w) (byte_of 1 w) (byte_of 0 w)"
proof -
  show "k < 2 \<Longrightarrow> bytes16 L h k = byte_of k h" "k < 4 \<Longrightarrow> bytes32 L w k = byte_of k w"
    "load16 L m = le16 (m 0) (m 1)" "load32 L m = le32 (m 0) (m 1) (m 2) (m 3)"
    using assms by (simp_all add: llvm_doc_def)
  have b16: "byte_of k (bswap16 L h) = byte_of (1 - k) h" if "k < 2" for k
    using assms that by (simp add: llvm_doc_def)
  have b32: "byte_of k (bswap32 L w) = byte_of (3 - k) w" if "k < 4" for k
    using assms that by (simp add: llvm_doc_def)
  show "bswap16 L h = le16 (byte_of 1 h) (byte_of 0 h)"
    using b16 [of 0] b16 [of 1] le_byte_of(1) [of "bswap16 L h"] by simp
  show "bswap32 L w = le32 (byte_of 3 w) (byte_of 2 w) (byte_of 1 w) (byte_of 0 w)"
    using b32 [of 0] b32 [of 1] b32 [of 2] b32 [of 3] le_byte_of(2) [of "bswap32 L w"] by simp
qed

lemma llvm_shuffles:
  assumes "llvm_doc L"
  shows "i < length m \<Longrightarrow> 0 \<le> m ! i \<Longrightarrow> m ! i < 8 \<Longrightarrow> shuffle16 L v m i = v (nat (m ! i))"
    "i < length m \<Longrightarrow> 0 \<le> m ! i \<Longrightarrow> m ! i < 2 * int n \<Longrightarrow>
      shuffle8 L n u w m i = (if m ! i < int n then u (nat (m ! i)) else w (nat (m ! i) - n))"
  using assms by (simp_all add: llvm_doc_def)

subsection \<open>Vectors\<close>

text \<open>An instruction on vectors works lane by lane; a constant vector repeats its element.\<close>

definition lanes1 :: "('a \<Rightarrow> 'b) \<Rightarrow> (nat \<Rightarrow> 'a) \<Rightarrow> nat \<Rightarrow> 'b" where
  "lanes1 f u = (\<lambda>i. f (u i))"

definition lanes2 :: "('a \<Rightarrow> 'b \<Rightarrow> 'c) \<Rightarrow> (nat \<Rightarrow> 'a) \<Rightarrow> (nat \<Rightarrow> 'b) \<Rightarrow> nat \<Rightarrow> 'c" where
  "lanes2 f u v = (\<lambda>i. f (u i) (v i))"

definition lanes3 :: "('a \<Rightarrow> 'b \<Rightarrow> 'c \<Rightarrow> 'd) \<Rightarrow> (nat \<Rightarrow> 'a) \<Rightarrow> (nat \<Rightarrow> 'b) \<Rightarrow> (nat \<Rightarrow> 'c) \<Rightarrow> nat \<Rightarrow> 'd" where
  "lanes3 f u v w = (\<lambda>i. f (u i) (v i) (w i))"

definition splat :: "'a \<Rightarrow> nat \<Rightarrow> 'a" where
  "splat x = (\<lambda>_. x)"

lemmas lane_defs = lanes1_def lanes2_def lanes3_def splat_def

end
