(* ===== verification/Rsp_State.thy ===== *)
theory Rsp_State
  imports Rsp_Prelude
begin

text \<open>
  The machine state \<open>rsp_t\<close> of \<open>rsp.hh\<close>, the ways the model stops (every \<open>RSP_DIE\<close> of
  \<open>rsp.cc\<close>), and the instruction fields both the interpreter and the translator decode.

  Arrays are functions on \<open>nat\<close>; the program indexes them with masked values, and the
  theories below prove that no index leaves its array.  The integers keep their widths.
\<close>

subsection \<open>The machine state\<close>

record rsp_t =
  rsp_r :: "nat \<Rightarrow> u32"                 \<comment> \<open>r[32]\<close>
  rsp_pc :: u32
  rsp_mem :: "nat \<Rightarrow> u8"                \<comment> \<open>mem[0x2000]: DMEM 0x000-0xfff, IMEM 0x1000-0x1fff\<close>
  rsp_v :: "nat \<Rightarrow> nat \<Rightarrow> u16"          \<comment> \<open>v[32][8]\<close>
  rsp_acc :: "nat \<Rightarrow> u64"               \<comment> \<open>acc[8], 48 bits kept sign-extended\<close>
  vco_l :: "nat \<Rightarrow> bool"
  vco_h :: "nat \<Rightarrow> bool"
  vcc_l :: "nat \<Rightarrow> bool"
  vcc_h :: "nat \<Rightarrow> bool"
  vce :: "nat \<Rightarrow> bool"
  sp_mem_addr :: u32
  sp_dram_addr :: u32
  sp_status :: u32
  imem_gen :: u64
  halted :: bool
  rdram :: "nat \<Rightarrow> u8"                  \<comment> \<open>the host buffer at guest physical 0\<close>
  n_insns :: u64

text \<open>The member initialisers; \<open>ram\<close> is the host buffer the caller hangs on \<open>rdram\<close>.\<close>

definition rsp_init :: "(nat \<Rightarrow> u8) \<Rightarrow> rsp_t" where
  "rsp_init ram = \<lparr>rsp_r = (\<lambda>_. 0), rsp_pc = 0, rsp_mem = (\<lambda>_. 0), rsp_v = (\<lambda>_ _. 0),
     rsp_acc = (\<lambda>_. 0), vco_l = (\<lambda>_. False), vco_h = (\<lambda>_. False), vcc_l = (\<lambda>_. False),
     vcc_h = (\<lambda>_. False), vce = (\<lambda>_. False), sp_mem_addr = 0, sp_dram_addr = 0, sp_status = 0,
     imem_gen = 0, halted = True, rdram = ram, n_insns = 0\<rparr>"

text \<open>\<open>RSP_DIE\<close> prints its reason with the current pc and exits the process.\<close>

datatype rsp_reason =
    Die_mfc0 nat | Die_mtc0 nat
  | Die_cop2_move u32 | Die_vec_op u32 u32
  | Die_ltv nat | Die_vec_load nat | Die_vec_store nat
  | Die_special u32 | Die_cop0 u32 | Die_opcode u32 u32 | Die_runaway

datatype rsp_err = Rsp_die (die_reason: rsp_reason) (die_pc: u32)

definition rsp_die :: "rsp_t \<Rightarrow> rsp_reason \<Rightarrow> rsp_err + 'a" where
  "rsp_die s why = Inl (Rsp_die why (rsp_pc s))"

subsection \<open>Instruction fields\<close>

definition f_op :: "u32 \<Rightarrow> u32" where
  "f_op insn = drop_bit 26 insn"

definition f_fn :: "u32 \<Rightarrow> u32" where
  "f_fn insn = insn AND 63"

definition f_rs :: "u32 \<Rightarrow> nat" where
  "f_rs insn = unat (drop_bit 21 insn AND 31)"

definition f_rt :: "u32 \<Rightarrow> nat" where
  "f_rt insn = unat (drop_bit 16 insn AND 31)"

definition f_rd :: "u32 \<Rightarrow> nat" where
  "f_rd insn = unat (drop_bit 11 insn AND 31)"

definition f_sa :: "u32 \<Rightarrow> nat" where
  "f_sa insn = unat (drop_bit 6 insn AND 31)"

text \<open>\<open>simm = static_cast<int16_t>(insn)\<close>, used as a 32-bit value; \<open>uimm = insn & 0xffff\<close>.\<close>

definition f_simm :: "u32 \<Rightarrow> u32" where
  "f_simm insn = scast (ucast insn :: u16)"

definition f_uimm :: "u32 \<Rightarrow> u32" where
  "f_uimm insn = insn AND 0xffff"

lemma f_rs_less [simp]: "f_rs insn < 32" by (simp add: f_rs_def)
lemma f_rt_less [simp]: "f_rt insn < 32" by (simp add: f_rt_def)
lemma f_rd_less [simp]: "f_rd insn < 32" by (simp add: f_rd_def)
lemma f_sa_less [simp]: "f_sa insn < 32" by (simp add: f_sa_def)

end
