(* ===== verification/Rsp_Mem.thy ===== *)
theory Rsp_Mem
  imports Rsp_State
begin

text \<open>
  Data memory (\<open>rsp.cc\<close>, lines 9 to 30): every access wraps inside the 4 KB of DMEM byte by
  byte and may be unaligned.  Bytes are big-endian.
\<close>

subsection \<open>The accessors of the source\<close>

text \<open>\<open>mem[a & 0xfff]\<close> as an expression and as the target of an assignment.\<close>

definition rd8 :: "rsp_t \<Rightarrow> u32 \<Rightarrow> u8" where
  "rd8 s a = rsp_mem s (unat (a AND 0xfff))"

definition wr8 :: "rsp_t \<Rightarrow> u32 \<Rightarrow> u8 \<Rightarrow> rsp_t" where
  "wr8 s a b = s\<lparr>rsp_mem := (rsp_mem s)(unat (a AND 0xfff) := b)\<rparr>"

definition rd32 :: "rsp_t \<Rightarrow> u32 \<Rightarrow> u32" where
  "rd32 s a =
     push_bit 24 (ucast (rd8 s a)) OR push_bit 16 (ucast (rd8 s (a + 1))) OR
     push_bit 8 (ucast (rd8 s (a + 2))) OR ucast (rd8 s (a + 3))"

definition rd16 :: "rsp_t \<Rightarrow> u32 \<Rightarrow> u16" where
  "rd16 s a = push_bit 8 (ucast (rd8 s a)) OR ucast (rd8 s (a + 1))"

definition wr32 :: "rsp_t \<Rightarrow> u32 \<Rightarrow> u32 \<Rightarrow> rsp_t" where
  "wr32 s a x =
    (let s = wr8 s a (ucast (drop_bit 24 x));
         s = wr8 s (a + 1) (ucast (drop_bit 16 x));
         s = wr8 s (a + 2) (ucast (drop_bit 8 x))
     in wr8 s (a + 3) (ucast x))"

definition wr16 :: "rsp_t \<Rightarrow> u32 \<Rightarrow> u16 \<Rightarrow> rsp_t" where
  "wr16 s a x =
    (let s = wr8 s a (ucast (drop_bit 8 x))
     in wr8 s (a + 1) (ucast x))"

subsection \<open>DMEM as a byte store\<close>

definition dmem_cell :: "u32 \<Rightarrow> nat" where
  "dmem_cell a = unat a mod 4096"

lemma unat_mod_add: "unat ((a :: u32) + b) mod 4096 = (unat a + unat b) mod 4096"
  by (simp add: unat_word_ariths mod_mod_cancel)

lemma dmem_cell_add: "dmem_cell (a + b) = (dmem_cell a + unat b) mod 4096"
  by (simp add: dmem_cell_def unat_mod_add mod_add_left_eq)

lemma dmem_cell_less [simp]: "dmem_cell a < 4096"
  by (simp add: dmem_cell_def)

lemma add_mod_cancel:
  fixes k :: nat
  assumes "i < n" and "j < n"
  shows "(k + i) mod n = (k + j) mod n \<longleftrightarrow> i = j"
proof
  assume "(k + i) mod n = (k + j) mod n"
  then have "(int k + int i) mod int n = (int k + int j) mod int n"
    by (metis of_nat_add of_nat_mod)
  then have "int n dvd (int i - int j)"
    by (simp add: mod_eq_dvd_iff)
  then show "i = j"
    using assms dvd_imp_le_int [of "int i - int j" "int n"] by linarith
qed simp

lemma dmem_cell_add_eq:
  assumes "unat i < 4096" and "unat j < 4096"
  shows "dmem_cell (a + i) = dmem_cell (a + j) \<longleftrightarrow> i = j"
  using assms by (simp add: dmem_cell_add add_mod_cancel word_unat_eq_iff)

interpretation dmem: byte_cells rd8 wr8 dmem_cell
  by unfold_locales (simp add: rd8_def wr8_def dmem_cell_def unat_and_0xfff)

lemma rd8_wr8 [byte_simps]:
  "rd8 (wr8 s a b) c = (if dmem_cell a = dmem_cell c then b else rd8 s c)"
  by (rule dmem.get_put)

lemma dmem_offsets:
  "dmem_cell a \<noteq> dmem_cell (a + 1)" "dmem_cell a \<noteq> dmem_cell (a + 2)"
  "dmem_cell a \<noteq> dmem_cell (a + 3)" "dmem_cell (a + 1) \<noteq> dmem_cell (a + 2)"
  "dmem_cell (a + 1) \<noteq> dmem_cell (a + 3)" "dmem_cell (a + 2) \<noteq> dmem_cell (a + 3)"
  using dmem_cell_add_eq [of 0 1 a] dmem_cell_add_eq [of 0 2 a] dmem_cell_add_eq [of 0 3 a]
    dmem_cell_add_eq [of 1 2 a] dmem_cell_add_eq [of 1 3 a] dmem_cell_add_eq [of 2 3 a]
  by simp_all

lemma bytes_of_u32:
  "push_bit 24 (ucast (ucast (drop_bit 24 x) :: u8)) OR push_bit 16 (ucast (ucast (drop_bit 16 x) :: u8)) OR
     push_bit 8 (ucast (ucast (drop_bit 8 x) :: u8)) OR ucast (ucast x :: u8) = (x :: u32)"
proof (rule bit_word_eqI)
  fix n :: nat
  assume "n < LENGTH(32)"
  then consider "n < 8" | "8 \<le> n" "n < 16" | "16 \<le> n" "n < 24" | "24 \<le> n" "n < 32"
    by force
  then show "bit (push_bit 24 (ucast (ucast (drop_bit 24 x) :: u8)) OR
      push_bit 16 (ucast (ucast (drop_bit 16 x) :: u8)) OR
      push_bit 8 (ucast (ucast (drop_bit 8 x) :: u8)) OR ucast (ucast x :: u8) :: u32) n = bit x n"
    by cases (auto simp: bit_simps)
qed

lemma bytes_of_u16:
  "push_bit 8 (ucast (ucast (drop_bit 8 x) :: u8)) OR ucast (ucast x :: u8) = (x :: u16)"
  by (rule bit_word_eqI) (auto simp: bit_simps not_less)

subsection \<open>Round trips and frames\<close>

lemma rd8_wr32:
  "rd8 (wr32 s a x) c =
    (if dmem_cell c = dmem_cell a then ucast (drop_bit 24 x)
     else if dmem_cell c = dmem_cell (a + 1) then ucast (drop_bit 16 x)
     else if dmem_cell c = dmem_cell (a + 2) then ucast (drop_bit 8 x)
     else if dmem_cell c = dmem_cell (a + 3) then ucast x
     else rd8 s c)"
  using dmem_offsets [of a] by (auto simp: wr32_def Let_def byte_simps)

lemma rd8_wr16:
  "rd8 (wr16 s a x) c =
    (if dmem_cell c = dmem_cell a then ucast (drop_bit 8 x)
     else if dmem_cell c = dmem_cell (a + 1) then ucast x
     else rd8 s c)"
  using dmem_offsets [of a] by (auto simp: wr16_def Let_def byte_simps)

text \<open>
  C34: A 32-bit and a 16-bit store followed by the load of the same width and address give
  back the stored value at every address, unaligned and wrapping round the end of DMEM
  included.
\<close>

theorem dmem_store_load: "rd32 (wr32 s a x) a = x \<and> rd16 (wr16 s a y) a = y"
  using dmem_offsets [of a]
  by (simp add: rd32_def rd16_def rd8_wr32 rd8_wr16 bytes_of_u32 bytes_of_u16)

lemma wr8_changes_dmem:
  "rsp_mem (wr8 s a b) i \<noteq> rsp_mem s i \<Longrightarrow> i < 4096"
  by (auto simp: wr8_def split: if_splits)

lemma dmem_store_frame:
  assumes "4096 \<le> i"
  shows "rsp_mem (wr8 s a b) i = rsp_mem s i" and "rsp_mem (wr16 s a y) i = rsp_mem s i"
    and "rsp_mem (wr32 s a x) i = rsp_mem s i"
proof -
  have wr8: "rsp_mem (wr8 t c d) i = rsp_mem t i" for t c d
    using assms wr8_changes_dmem [of t c d i] by fastforce
  then show "rsp_mem (wr8 s a b) i = rsp_mem s i" .
  show "rsp_mem (wr16 s a y) i = rsp_mem s i" by (simp add: wr16_def Let_def wr8)
  show "rsp_mem (wr32 s a x) i = rsp_mem s i" by (simp add: wr32_def Let_def wr8)
qed

end
