(* ===== verification/Rsp_Sp.thy ===== *)
theory Rsp_Sp
  imports Rsp_Mem
begin

text \<open>
  The SP registers the core reaches through COP0 (\<open>rsp.cc\<close>, lines 32 to 118): the DMA
  engine, the status register with its eight signals, and the register file itself.
\<close>

subsection \<open>DMA\<close>

text \<open>\<open>memcpy(dst + d, src + o, n)\<close> between two different buffers.\<close>

definition memcpy :: "(nat \<Rightarrow> u8) \<Rightarrow> nat \<Rightarrow> (nat \<Rightarrow> u8) \<Rightarrow> nat \<Rightarrow> nat \<Rightarrow> nat \<Rightarrow> u8" where
  "memcpy dst d src so n = (\<lambda>i. if d \<le> i \<and> i < d + n then src (so + (i - d)) else dst i)"

text \<open>
  One iteration of the row loop; \<open>off\<close> and \<open>dram\<close> are the loop's variables.  The transfer
  either fills memory from RDRAM, counting every row that lands in IMEM, or the reverse.
\<close>

definition dma_row_len :: "u32 \<Rightarrow> u32 \<Rightarrow> u32" where
  "dma_row_len len off = (if off + len > 0x1000 then 0x1000 - off else len)"

definition dma_row :: "bool \<Rightarrow> u32 \<Rightarrow> u32 \<Rightarrow> u32 \<Rightarrow> u32 \<times> u32 \<times> rsp_t \<Rightarrow> u32 \<times> u32 \<times> rsp_t" where
  "dma_row to_rsp len skip bank = (\<lambda>(off, dram, s).
    (let n = dma_row_len len off;
         s = (if to_rsp
              then (let s = s\<lparr>rsp_mem := memcpy (rsp_mem s) (unat (bank + off)) (rdram s) (unat dram) (unat n)\<rparr>
                    in if bank = 0x1000 then s\<lparr>imem_gen := imem_gen s + 1\<rparr> else s)
              else s\<lparr>rdram := memcpy (rdram s) (unat dram) (rsp_mem s) (unat (bank + off)) (unat n)\<rparr>)
     in ((off + n) AND 0xfff, (dram + n + skip) AND 0xffffff, s)))"

fun dma_rows :: "nat \<Rightarrow> bool \<Rightarrow> u32 \<Rightarrow> u32 \<Rightarrow> u32 \<Rightarrow> u32 \<times> u32 \<times> rsp_t \<Rightarrow> u32 \<times> u32 \<times> rsp_t" where
  "dma_rows 0 to_rsp len skip bank st = st"
| "dma_rows (Suc count) to_rsp len skip bank st =
     dma_rows count to_rsp len skip bank (dma_row to_rsp len skip bank st)"

text \<open>The three fields of the length register.\<close>

definition dma_len :: "u32 \<Rightarrow> u32" where
  "dma_len len_reg = ((len_reg AND 0xfff) OR 7) + 1"

definition dma_count :: "u32 \<Rightarrow> u32" where
  "dma_count len_reg = (drop_bit 12 len_reg AND 0xff) + 1"

definition dma_skip :: "u32 \<Rightarrow> u32" where
  "dma_skip len_reg = drop_bit 20 len_reg AND 0xfff"

definition dma :: "rsp_t \<Rightarrow> u32 \<Rightarrow> bool \<Rightarrow> rsp_t" where
  "dma s len_reg to_rsp =
    (let len = dma_len len_reg;
         count = dma_count len_reg;
         skip = dma_skip len_reg;
         bank = sp_mem_addr s AND 0x1000;
         off = sp_mem_addr s AND 0xff8;
         dram = sp_dram_addr s AND 0xfffff8;
         (off, dram, s) = dma_rows (unat count) to_rsp len skip bank (off, dram, s)
     in s\<lparr>sp_mem_addr := bank OR off, sp_dram_addr := dram\<rparr>)"

subsection \<open>The status register\<close>

definition status_signal :: "u32 \<Rightarrow> nat \<Rightarrow> u32 \<Rightarrow> u32" where
  "status_signal x i st =
    (let b = push_bit (7 + i) 1;
         st = (if x AND push_bit (9 + 2 * i) 1 \<noteq> 0 then st AND NOT b else st)
     in if x AND push_bit (10 + 2 * i) 1 \<noteq> 0 then st OR b else st)"

definition apply_status_write :: "rsp_t \<Rightarrow> u32 \<Rightarrow> rsp_t" where
  "apply_status_write s x = s\<lparr>sp_status := fold (status_signal x) [0..<8] (sp_status s)\<rparr>"

subsection \<open>The register file\<close>

definition mfc0 :: "rsp_t \<Rightarrow> nat \<Rightarrow> rsp_err + u32" where
  "mfc0 s rd =
    (if rd = 0 then Inr (sp_mem_addr s)
     else if rd = 1 then Inr (sp_dram_addr s)
     else if rd = 2 \<or> rd = 3 then Inr 0xff8
     else if rd = 4 then Inr (sp_status s)
     else if rd = 5 then Inr 0
     else if rd = 6 then Inr 0
     else if rd = 7 then Inr 0
     else if rd \<in> {8, 9, 10, 11, 12, 13, 14, 15} then Inr 0
     else rsp_die s (Die_mfc0 rd))"

definition mtc0 :: "rsp_t \<Rightarrow> nat \<Rightarrow> u32 \<Rightarrow> rsp_err + rsp_t" where
  "mtc0 s rd x =
    (if rd = 0 then Inr (s\<lparr>sp_mem_addr := x AND 0x1fff\<rparr>)
     else if rd = 1 then Inr (s\<lparr>sp_dram_addr := x AND 0xffffff\<rparr>)
     else if rd = 2 then Inr (dma s x True)
     else if rd = 3 then Inr (dma s x False)
     else if rd = 4 then Inr (apply_status_write s x)
     else if rd = 7 then Inr s
     else if rd \<in> {8, 9, 10, 11, 12, 13, 14, 15} then Inr s
     else rsp_die s (Die_mtc0 rd))"

subsection \<open>What a status write does, bit by bit\<close>

lemma and_bit_zero: "(x :: u32) AND 2 ^ n = 0 \<longleftrightarrow> \<not> bit x n"
  by (simp add: bit_iff_and_push_bit_not_eq_0)

lemma bit_status_signal:
  assumes "i < 8"
  shows "bit (status_signal x i st) j =
    (if j = 7 + i then bit x (10 + 2 * i) \<or> (bit st j \<and> \<not> bit x (9 + 2 * i)) else bit st j)"
  using assms
  by (cases "j = 7 + i")
     (auto simp: status_signal_def Let_def and_bit_zero bit_simps bit_exp_iff dest: bit_imp_le_length)

lemma bit_status_signals:
  assumes "n \<le> 8"
  shows "bit (fold (status_signal x) [0..<n] st) j =
    (if 7 \<le> j \<and> j < 7 + n
     then bit x (10 + 2 * (j - 7)) \<or> (bit st j \<and> \<not> bit x (9 + 2 * (j - 7)))
     else bit st j)"
  using assms
proof (induction n)
  case 0
  then show ?case by auto
next
  case (Suc n)
  then show ?case by (auto simp: bit_status_signal less_Suc_eq)
qed

text \<open>
  C30: A write to SP_STATUS sets signal i when the write has bit 10+2i, clears it when it has
  bit 9+2i and not bit 10+2i, and leaves every other bit of the register (the halt and broke
  bits among them) and the rest of the machine unchanged.
\<close>

theorem status_write_signals:
  "bit (sp_status (apply_status_write s x)) j =
      (if 7 \<le> j \<and> j < 15
       then bit x (10 + 2 * (j - 7)) \<or> (bit (sp_status s) j \<and> \<not> bit x (9 + 2 * (j - 7)))
       else bit (sp_status s) j) \<and>
    apply_status_write s x = s\<lparr>sp_status := sp_status (apply_status_write s x)\<rparr>"
  using bit_status_signals [of 8 x "sp_status s" j] by (simp add: apply_status_write_def)

subsection \<open>The fields of a transfer and the bounds of its rows\<close>

lemma dma_len_bits: "((L AND 0xfff) OR 7) = take_bit 12 ((L AND 0xfff) OR 7 :: u32)"
  by (rule bit_word_eqI) (auto simp: mask_simps bit_simps)

lemma unat_dma_len: "unat (dma_len L) = Suc (unat ((L AND 0xfff) OR 7))"
  and dma_len_bounds: "8 \<le> unat (dma_len L)" "unat (dma_len L) \<le> 4096"
proof -
  let ?w = "(L AND 0xfff) OR 7"
  have lo: "7 \<le> unat ?w"
    using le_word_or1 [of 7 "L AND 0xfff"] by (simp add: word_le_nat_alt)
  have "unat ?w = unat ?w mod 4096"
    using arg_cong [OF dma_len_bits [of L], of unat] by (simp only: unat_take_bit) simp
  then have hi: "unat ?w < 4096" by simp
  show "unat (dma_len L) = Suc (unat ?w)"
    using hi by (simp add: dma_len_def unat_word_ariths)
  with lo hi show "8 \<le> unat (dma_len L)" "unat (dma_len L) \<le> 4096" by simp_all
qed

lemma dma_count_bounds: "1 \<le> unat (dma_count L)" "unat (dma_count L) \<le> 256"
proof -
  have "unat (drop_bit 12 L AND 0xff) < 256"
  proof -
    have "drop_bit 12 L AND 0xff = take_bit 8 (drop_bit 12 L)"
      by (simp add: take_bit_eq_mask mask_eq_exp_minus_1)
    then show ?thesis by (simp add: unat_take_bit)
  qed
  then show "1 \<le> unat (dma_count L)" "unat (dma_count L) \<le> 256"
    by (simp_all add: dma_count_def unat_word_ariths)
qed

lemma dma_skip_bound: "unat (dma_skip L) < 4096"
  by (simp add: dma_skip_def)

lemma and_exp_cases: "(x :: u32) AND 2 ^ n = (if bit x n then 2 ^ n else 0)"
  by (rule bit_word_eqI) (auto simp: bit_simps bit_exp_iff)

lemma dma_start_bounds: "unat ((x :: u32) AND 0xff8) < 4096" "(x AND 0x1000) \<in> {0, 0x1000}"
proof -
  have "unat (x AND 0xff8) \<le> unat (0xff8 :: u32)"
    by (rule word_and_le1 [THEN word_le_nat_alt [THEN iffD1]])
  then show "unat (x AND 0xff8) < 4096" by simp
  show "(x AND 0x1000) \<in> {0, 0x1000}"
    using and_exp_cases [of x 12] by simp
qed

lemma dma_row_len_bounds:
  assumes "unat off < 4096" and "8 \<le> unat len" and "unat len \<le> 4096"
  shows "unat off + unat (dma_row_len len off) \<le> 4096" and "1 \<le> unat (dma_row_len len off)"
    and "unat off + unat len \<le> 4096 \<Longrightarrow> dma_row_len len off = len"
proof -
  have *: "unat (off + len) = unat off + unat len"
    using assms by (simp add: unat_word_ariths)
  have **: "unat (0x1000 - off) = 4096 - unat off"
    using assms by (subst unat_sub) (simp_all add: word_le_nat_alt)
  show "unat off + unat (dma_row_len len off) \<le> 4096" "1 \<le> unat (dma_row_len len off)"
    "unat off + unat len \<le> 4096 \<Longrightarrow> dma_row_len len off = len"
    using assms * ** by (auto simp: dma_row_len_def word_less_nat_alt)
qed
lemma unat_bank_off:
  assumes "bank \<in> {0, 0x1000 :: u32}" and "unat off < 4096"
  shows "unat (bank + off) = unat bank + unat off"
  using assms by (auto simp: unat_word_ariths)

lemma unat_off_wrap:
  assumes "unat off + unat n \<le> 4096"
  shows "unat ((off + n :: u32) AND 0xfff) = (if unat off + unat n = 4096 then 0 else unat off + unat n)"
  using assms by (auto simp: unat_and_0xfff unat_word_ariths)

subsection \<open>What a transfer leaves alone\<close>

text \<open>One row, as an update of the state with the bounds discharged.\<close>

lemma dma_row_fill:
  assumes "unat off < 4096" "8 \<le> unat len" "unat len \<le> 4096" "bank \<in> {0, 0x1000}"
    and "dma_row True len skip bank (off, dram, s) = (off', dram', s')"
  shows "unat off' < 4096" "rdram s' = rdram s"
    "\<forall>i. i < unat bank \<or> unat bank + 4096 \<le> i \<longrightarrow> rsp_mem s' i = rsp_mem s i"
    "imem_gen s' = imem_gen s + (if bank = 0x1000 then 1 else 0)"
    "\<forall>m g. s'\<lparr>rsp_mem := m, imem_gen := g\<rparr> = s\<lparr>rsp_mem := m, imem_gen := g\<rparr>"
  using assms dma_row_len_bounds [of off len] unat_bank_off [of bank off]
  by (auto simp: dma_row_def Let_def memcpy_def split: if_splits)

lemma dma_row_drain:
  assumes "unat off < 4096" "8 \<le> unat len" "unat len \<le> 4096" "bank \<in> {0, 0x1000}"
    and "dma_row False len skip bank (off, dram, s) = (off', dram', s')"
  shows "unat off' < 4096" "\<forall>m. s'\<lparr>rdram := m\<rparr> = s\<lparr>rdram := m\<rparr>"
  using assms by (auto simp: dma_row_def Let_def)

lemma dma_rows_fill_frame:
  assumes "unat off < 4096" "8 \<le> unat len" "unat len \<le> 4096" "bank \<in> {0, 0x1000}"
    and "dma_rows count True len skip bank (off, dram, s) = (off', dram', s')"
  shows "unat off' < 4096 \<and> rdram s' = rdram s \<and>
    (\<forall>i. i < unat bank \<or> unat bank + 4096 \<le> i \<longrightarrow> rsp_mem s' i = rsp_mem s i) \<and>
    imem_gen s' = imem_gen s + (if bank = 0x1000 then of_nat count else 0) \<and>
    (\<forall>m g. s'\<lparr>rsp_mem := m, imem_gen := g\<rparr> = s\<lparr>rsp_mem := m, imem_gen := g\<rparr>)"
  using assms
proof (induction count arbitrary: off dram s)
  case 0
  then show ?case by simp
next
  case (Suc count)
  obtain off1 dram1 s1 where 1: "dma_row True len skip bank (off, dram, s) = (off1, dram1, s1)"
    by (cases "dma_row True len skip bank (off, dram, s)") auto
  note row = dma_row_fill [OF Suc.prems(1-4) 1]
  from Suc.prems(5) 1 have 2: "dma_rows count True len skip bank (off1, dram1, s1) = (off', dram', s')"
    by simp
  from Suc.IH [OF row(1) Suc.prems(2-4) 2] row show ?case
    by (auto simp: ac_simps)
qed

lemma dma_rows_drain_frame:
  assumes "unat off < 4096" "8 \<le> unat len" "unat len \<le> 4096" "bank \<in> {0, 0x1000}"
    and "dma_rows count False len skip bank (off, dram, s) = (off', dram', s')"
  shows "unat off' < 4096 \<and> (\<forall>m. s'\<lparr>rdram := m\<rparr> = s\<lparr>rdram := m\<rparr>)"
  using assms
proof (induction count arbitrary: off dram s)
  case 0
  then show ?case by simp
next
  case (Suc count)
  obtain off1 dram1 s1 where 1: "dma_row False len skip bank (off, dram, s) = (off1, dram1, s1)"
    by (cases "dma_row False len skip bank (off, dram, s)") auto
  note row = dma_row_drain [OF Suc.prems(1-4) 1]
  from Suc.prems(5) 1 have 2: "dma_rows count False len skip bank (off1, dram1, s1) = (off', dram', s')"
    by simp
  from Suc.IH [OF row(1) Suc.prems(2-4) 2] row show ?case
    by auto
qed

lemma low_and_bank:
  assumes "unat (off :: u32) < 4096" and "bank \<in> {0, 0x1000}"
  shows "(bank OR off) AND 0x1000 = bank" and "unat (bank OR off) = unat bank + unat off"
proof -
  have off: "take_bit 12 off = off"
    using assms(1) by (simp add: word_unat_eq_iff unat_take_bit)
  have "\<not> bit off 12"
    by (subst off [symmetric]) (simp add: bit_simps)
  with assms(2) show "(bank OR off) AND 0x1000 = bank"
    using and_exp_cases [of "bank OR off" 12] by (auto simp: bit_simps)
  have "bank AND off = 0"
    using assms(2) and_exp_cases [of off 12] \<open>\<not> bit off 12\<close> by (auto simp: ac_simps)
  then have "bank OR off = bank + off"
    using word_plus_and_or [of bank off] by simp
  then show "unat (bank OR off) = unat bank + unat off"
    using unat_bank_off [OF assms(2,1)] by simp
qed

lemma dma_rows_dram:
  "unat dram < 2 ^ 24 \<Longrightarrow> dma_rows count to_rsp len skip bank (off, dram, s) = (off', dram', s') \<Longrightarrow>
   unat dram' < 2 ^ 24"
proof (induction count arbitrary: off dram s)
  case (Suc count)
  obtain off1 dram1 s1 where 1: "dma_row to_rsp len skip bank (off, dram, s) = (off1, dram1, s1)"
    by (cases "dma_row to_rsp len skip bank (off, dram, s)") auto
  then have "dram1 = (dram + dma_row_len len off + skip) AND 0xffffff"
    by (simp add: dma_row_def Let_def)
  then have "unat dram1 < 2 ^ 24" by (simp add: mask_simps unat_take_bit)
  with Suc 1 show ?case by simp
qed simp

lemma dma_frame:
  fixes s L to_rsp
  defines "s' \<equiv> dma s L to_rsp" and "bank \<equiv> sp_mem_addr s AND 0x1000"
  shows "sp_mem_addr s' AND 0x1000 = bank \<and> unat (sp_mem_addr s') < 0x2000 \<and>
    unat (sp_dram_addr s') < 2 ^ 24 \<and>
    (if to_rsp
     then rdram s' = rdram s \<and>
       (\<forall>i. i < unat bank \<or> unat bank + 4096 \<le> i \<longrightarrow> rsp_mem s' i = rsp_mem s i) \<and>
       imem_gen s' = imem_gen s + (if bank = 0x1000 then of_nat (unat (dma_count L)) else 0)
     else rsp_mem s' = rsp_mem s \<and> imem_gen s' = imem_gen s) \<and>
    (\<forall>m g d a b. s'\<lparr>rsp_mem := m, imem_gen := g, rdram := d, sp_mem_addr := a, sp_dram_addr := b\<rparr>
      = s\<lparr>rsp_mem := m, imem_gen := g, rdram := d, sp_mem_addr := a, sp_dram_addr := b\<rparr>)"
proof -
  let ?off = "sp_mem_addr s AND 0xff8" and ?dram = "sp_dram_addr s AND 0xfffff8"
  let ?len = "dma_len L" and ?skip = "dma_skip L" and ?n = "unat (dma_count L)"
  have bank: "bank \<in> {0, 0x1000}" and off: "unat ?off < 4096"
    using dma_start_bounds unfolding bank_def by auto
  have "unat ?dram \<le> unat (0xfffff8 :: u32)"
    by (rule word_and_le1 [THEN word_le_nat_alt [THEN iffD1]])
  then have dram: "unat ?dram < 2 ^ 24" by simp
  obtain off' dram' s1 where rows: "dma_rows ?n to_rsp ?len ?skip bank (?off, ?dram, s) = (off', dram', s1)"
    by (cases "dma_rows ?n to_rsp ?len ?skip bank (?off, ?dram, s)") auto
  then have s': "s' = s1\<lparr>sp_mem_addr := bank OR off', sp_dram_addr := dram'\<rparr>"
    by (simp add: s'_def bank_def dma_def Let_def)
  note frames = dma_rows_fill_frame [OF off dma_len_bounds [of L] bank]
    dma_rows_drain_frame [OF off dma_len_bounds [of L] bank]
  have frame: "unat off' < 4096 \<and> (if to_rsp
     then rdram s1 = rdram s \<and>
       (\<forall>i. i < unat bank \<or> unat bank + 4096 \<le> i \<longrightarrow> rsp_mem s1 i = rsp_mem s i) \<and>
       imem_gen s1 = imem_gen s + (if bank = 0x1000 then of_nat ?n else 0)
     else rsp_mem s1 = rsp_mem s \<and> imem_gen s1 = imem_gen s) \<and>
     (\<forall>m g d. s1\<lparr>rsp_mem := m, imem_gen := g, rdram := d\<rparr> = s\<lparr>rsp_mem := m, imem_gen := g, rdram := d\<rparr>)"
  proof (cases to_rsp)
    case True
    then have "dma_rows ?n True ?len ?skip bank (?off, ?dram, s) = (off', dram', s1)"
      using rows by simp
    from frames(1) [OF this] True show ?thesis
      by simp
  next
    case False
    then have "dma_rows ?n False ?len ?skip bank (?off, ?dram, s) = (off', dram', s1)"
      using rows by simp
    note drained = frames(2) [OF this]
    define m where "m = rdram s1"
    from drained have "s1\<lparr>rdram := m\<rparr> = s\<lparr>rdram := m\<rparr>" by blast
    then have "s1 = s\<lparr>rdram := m\<rparr>" by (simp add: m_def)
    with False drained show ?thesis by simp
  qed
  then have off': "unat off' < 4096" by simp
  have "unat (bank OR off') < 0x2000"
    using low_and_bank(2) [OF off' bank] off' bank by auto
  then show ?thesis
    using low_and_bank(1) [OF off' bank] frame dma_rows_dram [OF dram rows] by (simp add: s')
qed

text \<open>
  C28: A transfer never leaves the 4 KB bank its memory address names: filling changes no byte of
  the other bank and no byte of RDRAM, draining changes no byte of memory.  The generation
  counter of instruction memory moves once per row exactly when the transfer fills IMEM,
  and the address registers stay in range, in the same bank.
\<close>

theorem dma_stays_in_bank:
  "let s' = dma s L to_rsp; bank = sp_mem_addr s AND 0x1000
   in sp_mem_addr s' AND 0x1000 = bank \<and> unat (sp_mem_addr s') < 0x2000 \<and> unat (sp_dram_addr s') < 2 ^ 24 \<and>
     (if to_rsp
      then rdram s' = rdram s \<and>
        {i. rsp_mem s' i \<noteq> rsp_mem s i} \<subseteq> {unat bank..<unat bank + 4096} \<and>
        imem_gen s' = imem_gen s + (if bank = 0x1000 then of_nat (unat (dma_count L)) else 0)
      else rsp_mem s' = rsp_mem s \<and> imem_gen s' = imem_gen s)"
  using dma_frame [of s L to_rsp] by (auto simp: Let_def not_less [symmetric])

lemma dma_rows_fill_rows:
  assumes "8 \<le> unat len" "unat len \<le> 4096" "bank \<in> {0, 0x1000}"
    and "unat off < 4096"
    and "unat off + count * unat len \<le> 4096"
    and "unat dram + count * (unat len + unat skip) \<le> 2 ^ 24"
    and "dma_rows count True len skip bank (off, dram, s) = (off', dram', s')"
  shows "(\<forall>row < count. \<forall>j < unat len. rsp_mem s' (unat bank + unat off + row * unat len + j)
      = rdram s (unat dram + row * (unat len + unat skip) + j)) \<and>
    (\<forall>i. i < unat bank + unat off \<or> unat bank + unat off + count * unat len \<le> i \<longrightarrow>
      rsp_mem s' i = rsp_mem s i)"
  using assms(4-)
proof (induction count arbitrary: off dram s)
  case 0
  then show ?case by simp
next
  case (Suc count)
  let ?len = "unat len" and ?b = "unat bank + unat off" and ?step = "unat len + unat skip"
  let ?s1 = "snd (snd (dma_row True len skip bank (off, dram, s)))"
  have fits: "unat off + ?len \<le> 4096" using Suc.prems(2) by simp
  then have n: "dma_row_len len off = len"
    using dma_row_len_bounds(3) assms(1,2) Suc.prems(1) by blast
  have m1: "rsp_mem ?s1 = memcpy (rsp_mem s) ?b (rdram s) (unat dram) ?len" "rdram ?s1 = rdram s"
    using unat_bank_off [OF assms(3) Suc.prems(1)] by (auto simp: dma_row_def Let_def n)
  show ?case
  proof (cases "count = 0")
    case True
    with Suc.prems(4) m1 show ?thesis
      by (auto simp: memcpy_def)
  next
    case False
    then obtain k where k: "count = Suc k" by (cases count) auto
    have off1: "unat ((off + len) AND 0xfff) = unat off + ?len"
      using Suc.prems(2) assms(1) unat_off_wrap [of off len] by (simp add: k)
    have dram1: "unat ((dram + len + skip) AND 0xffffff) = unat dram + ?step"
      using Suc.prems(3) assms(1)
      by (simp add: k mask_simps unat_take_bit unat_word_ariths)
    have rows: "dma_rows count True len skip bank ((off + len) AND 0xfff, (dram + len + skip) AND 0xffffff, ?s1)
        = (off', dram', s')"
      using Suc.prems(4) by (simp add: dma_row_def Let_def n)
    have IH: "(\<forall>row < count. \<forall>j < ?len. rsp_mem s' (?b + ?len + row * ?len + j)
          = rdram s (unat dram + ?step + row * ?step + j)) \<and>
        (\<forall>i. i < ?b + ?len \<or> ?b + ?len + count * ?len \<le> i \<longrightarrow> rsp_mem s' i = rsp_mem ?s1 i)"
      using Suc.IH [OF _ _ _ rows] Suc.prems(2,3) fits k off1 dram1 m1(2) assms(1)
      by (simp add: algebra_simps)
    show ?thesis
    proof (intro conjI allI impI)
      fix row j
      assume "row < Suc count" "j < ?len"
      show "rsp_mem s' (?b + row * ?len + j) = rdram s (unat dram + row * ?step + j)"
      proof (cases row)
        case 0
        with IH \<open>j < ?len\<close> m1(1) show ?thesis by (simp add: memcpy_def)
      next
        case (Suc r)
        with IH \<open>row < Suc count\<close> \<open>j < ?len\<close> show ?thesis
          by (simp add: algebra_simps)
      qed
    next
      fix i
      assume "i < ?b \<or> ?b + Suc count * ?len \<le> i"
      with IH m1(1) show "rsp_mem s' i = rsp_mem s i"
        by (auto simp: memcpy_def)
    qed
  qed
qed

lemma dma_rows_drain_rows:
  assumes "8 \<le> unat len" "unat len \<le> 4096" "bank \<in> {0, 0x1000}"
    and "unat off < 4096"
    and "unat off + count * unat len \<le> 4096"
    and "unat dram + count * (unat len + unat skip) \<le> 2 ^ 24"
    and "dma_rows count False len skip bank (off, dram, s) = (off', dram', s')"
  shows "(\<forall>row < count. \<forall>j < unat len. rdram s' (unat dram + row * (unat len + unat skip) + j)
      = rsp_mem s (unat bank + unat off + row * unat len + j)) \<and>
    (\<forall>i. i < unat dram \<longrightarrow> rdram s' i = rdram s i)"
  using assms(4-)
proof (induction count arbitrary: off dram s)
  case 0
  then show ?case by simp
next
  case (Suc count)
  let ?len = "unat len" and ?b = "unat bank + unat off" and ?step = "unat len + unat skip"
  let ?s1 = "snd (snd (dma_row False len skip bank (off, dram, s)))"
  have fits: "unat off + ?len \<le> 4096" using Suc.prems(2) by simp
  then have n: "dma_row_len len off = len"
    using dma_row_len_bounds(3) assms(1,2) Suc.prems(1) by blast
  have m1: "rdram ?s1 = memcpy (rdram s) (unat dram) (rsp_mem s) ?b ?len" "rsp_mem ?s1 = rsp_mem s"
    using unat_bank_off [OF assms(3) Suc.prems(1)] by (auto simp: dma_row_def Let_def n)
  show ?case
  proof (cases "count = 0")
    case True
    with Suc.prems(4) m1 show ?thesis
      by (auto simp: memcpy_def)
  next
    case False
    then obtain k where k: "count = Suc k" by (cases count) auto
    have off1: "unat ((off + len) AND 0xfff) = unat off + ?len"
      using Suc.prems(2) assms(1) unat_off_wrap [of off len] by (simp add: k)
    have dram1: "unat ((dram + len + skip) AND 0xffffff) = unat dram + ?step"
      using Suc.prems(3) assms(1)
      by (simp add: k mask_simps unat_take_bit unat_word_ariths)
    have rows: "dma_rows count False len skip bank ((off + len) AND 0xfff, (dram + len + skip) AND 0xffffff, ?s1)
        = (off', dram', s')"
      using Suc.prems(4) by (simp add: dma_row_def Let_def n)
    have IH: "(\<forall>row < count. \<forall>j < ?len. rdram s' (unat dram + ?step + row * ?step + j)
          = rsp_mem s (?b + ?len + row * ?len + j)) \<and>
        (\<forall>i. i < unat dram + ?step \<longrightarrow> rdram s' i = rdram ?s1 i)"
      using Suc.IH [OF _ _ _ rows] Suc.prems(2,3) fits k off1 dram1 m1(2) assms(1)
      by (simp add: algebra_simps)
    show ?thesis
    proof (intro conjI allI impI)
      fix row j
      assume "row < Suc count" "j < ?len"
      show "rdram s' (unat dram + row * ?step + j) = rsp_mem s (?b + row * ?len + j)"
      proof (cases row)
        case 0
        with IH \<open>j < ?len\<close> m1(1) show ?thesis by (simp add: memcpy_def)
      next
        case (Suc r)
        with IH \<open>row < Suc count\<close> \<open>j < ?len\<close> show ?thesis
          by (simp add: algebra_simps)
      qed
    next
      fix i
      assume "i < unat dram"
      with IH m1(1) show "rdram s' i = rdram s i"
        by (auto simp: memcpy_def)
    qed
  qed
qed

text \<open>The start of a transfer as numbers.\<close>

abbreviation dma_bank :: "rsp_t \<Rightarrow> nat" where
  "dma_bank s \<equiv> unat (sp_mem_addr s AND 0x1000)"

abbreviation dma_off :: "rsp_t \<Rightarrow> nat" where
  "dma_off s \<equiv> unat (sp_mem_addr s AND 0xff8)"

abbreviation dma_dram :: "rsp_t \<Rightarrow> nat" where
  "dma_dram s \<equiv> unat (sp_dram_addr s AND 0xfffff8)"

abbreviation dma_stride :: "u32 \<Rightarrow> nat" where
  "dma_stride L \<equiv> unat (dma_len L) + unat (dma_skip L)"

lemma dma_fill_image:
  assumes "dma_off s + unat (dma_count L) * unat (dma_len L) \<le> 4096"
    and "dma_dram s + unat (dma_count L) * dma_stride L \<le> 2 ^ 24"
  shows "(\<forall>row < unat (dma_count L). \<forall>j < unat (dma_len L).
      rsp_mem (dma s L True) (dma_bank s + dma_off s + row * unat (dma_len L) + j)
        = rdram s (dma_dram s + row * dma_stride L + j)) \<and>
    (\<forall>i. i < dma_bank s + dma_off s \<or> dma_bank s + dma_off s + unat (dma_count L) * unat (dma_len L) \<le> i \<longrightarrow>
      rsp_mem (dma s L True) i = rsp_mem s i)"
proof -
  obtain off' dram' s1 where rows: "dma_rows (unat (dma_count L)) True (dma_len L) (dma_skip L)
      (sp_mem_addr s AND 0x1000) (sp_mem_addr s AND 0xff8, sp_dram_addr s AND 0xfffff8, s) = (off', dram', s1)"
    by (cases "dma_rows (unat (dma_count L)) True (dma_len L) (dma_skip L)
      (sp_mem_addr s AND 0x1000) (sp_mem_addr s AND 0xff8, sp_dram_addr s AND 0xfffff8, s)") auto
  from dma_rows_fill_rows [OF dma_len_bounds dma_start_bounds(2,1) assms rows] rows
  show ?thesis by (simp add: dma_def Let_def)
qed

lemma dma_drain_image:
  assumes "dma_off s + unat (dma_count L) * unat (dma_len L) \<le> 4096"
    and "dma_dram s + unat (dma_count L) * dma_stride L \<le> 2 ^ 24"
  shows "\<forall>row < unat (dma_count L). \<forall>j < unat (dma_len L).
      rdram (dma s L False) (dma_dram s + row * dma_stride L + j)
        = rsp_mem s (dma_bank s + dma_off s + row * unat (dma_len L) + j)"
proof -
  obtain off' dram' s1 where rows: "dma_rows (unat (dma_count L)) False (dma_len L) (dma_skip L)
      (sp_mem_addr s AND 0x1000) (sp_mem_addr s AND 0xff8, sp_dram_addr s AND 0xfffff8, s) = (off', dram', s1)"
    by (cases "dma_rows (unat (dma_count L)) False (dma_len L) (dma_skip L)
      (sp_mem_addr s AND 0x1000) (sp_mem_addr s AND 0xff8, sp_dram_addr s AND 0xfffff8, s)") auto
  from dma_rows_drain_rows [OF dma_len_bounds dma_start_bounds(2,1) assms rows] rows
  show ?thesis by (simp add: dma_def Let_def)
qed

text \<open>
  C27: A strided fill that fits its bank delivers every row, COUNT of them, each of LEN bytes:
  byte j of row k comes from RDRAM at k times (LEN + SKIP) + j past the start.
\<close>

theorem dma_fill_delivers_every_row:
  assumes "dma_off s + unat (dma_count L) * unat (dma_len L) \<le> 4096"
    and "dma_dram s + unat (dma_count L) * dma_stride L \<le> 2 ^ 24"
    and "row < unat (dma_count L)" and "j < unat (dma_len L)"
  shows "rsp_mem (dma s L True) (dma_bank s + dma_off s + row * unat (dma_len L) + j)
    = rdram s (dma_dram s + row * dma_stride L + j)"
  using dma_fill_image [OF assms(1,2)] assms(3,4) by blast

theorem dma_fill_delivers_every_row_witness:
  "\<forall>ram. rsp_mem (dma (rsp_init ram) 0x00101007 True) 15 = ram 16"
proof
  fix ram
  have L: "dma_len 0x00101007 = 8" "dma_count 0x00101007 = 2" "dma_skip 0x00101007 = 1"
    by (simp_all add: dma_len_def dma_count_def dma_skip_def)
  show "rsp_mem (dma (rsp_init ram) 0x00101007 True) 15 = ram 16"
    using dma_fill_delivers_every_row [of "rsp_init ram" "0x00101007" 1 7]
    by (simp add: L rsp_init_def)
qed



end
