(* ===== verification/Rsp_Vec.thy ===== *)
theory Rsp_Vec
  imports Rsp_Mem
begin

text \<open>
  The vector unit of the interpreter (\<open>rsp.cc\<close>, lines 126 to 384): clamping, the element
  specifier, byte access to a register, the packed flag registers, one definition for each
  vector operation, and \<open>cop2\<close>, which runs an operation over the eight lanes.

  A vector operation of the source only touches index \<open>i\<close> of the accumulator and of the
  flag arrays; the record \<open>lane\<close> holds those six values, so that an operation reads as one
  case of the source's switch with its \<open>[i]\<close> left out.
\<close>

subsection \<open>Clamping\<close>

definition sext48 :: "u64 \<Rightarrow> u64" where
  "sext48 x = signed_drop_bit 16 (push_bit 16 x)"

definition clamp_s16 :: "u64 \<Rightarrow> u16" where
  "clamp_s16 x = ucast (if x <s -32768 then -32768 else (if 32767 <s x then 32767 else x))"

definition clamp_acc_low :: "u64 \<Rightarrow> u16" where
  "clamp_acc_low a =
    (if a <s -0x80000000 then 0
     else if 0x7fffffff <s a then 0xffff
     else ucast (a AND 0xffff))"

subsection \<open>Elements and bytes of a register\<close>

definition vt_lane :: "u32 \<Rightarrow> u32 \<Rightarrow> u32" where
  "vt_lane e i =
    (if e < 2 then i
     else if e < 4 then (i AND NOT 1) OR (e AND 1)
     else if e < 8 then (i AND NOT 3) OR (e AND 3)
     else e AND 7)"

definition vbyte :: "rsp_t \<Rightarrow> nat \<Rightarrow> nat \<Rightarrow> u8" where
  "vbyte s vt i =
    (let x = rsp_v s vt (drop_bit 1 (i AND 15))
     in ucast (if i AND 1 \<noteq> 0 then x else drop_bit 8 x))"

definition set_v :: "rsp_t \<Rightarrow> nat \<Rightarrow> nat \<Rightarrow> u16 \<Rightarrow> rsp_t" where
  "set_v s vt i x = s\<lparr>rsp_v := (rsp_v s)(vt := (rsp_v s vt)(i := x))\<rparr>"

definition set_vbyte :: "rsp_t \<Rightarrow> nat \<Rightarrow> nat \<Rightarrow> u8 \<Rightarrow> rsp_t" where
  "set_vbyte s vt i b =
    (let x = rsp_v s vt (drop_bit 1 (i AND 15));
         x = (if i AND 1 \<noteq> 0 then (x AND 0xff00) OR ucast b
              else (x AND 0x00ff) OR push_bit 8 (ucast b))
     in set_v s vt (drop_bit 1 (i AND 15)) x)"

subsection \<open>The flag registers as scalars\<close>

text \<open>\<open>which\<close> selects VCO (0), VCC (1) or, for anything else, VCE.\<close>

definition flags_lo :: "nat \<Rightarrow> rsp_t \<Rightarrow> nat \<Rightarrow> bool" where
  "flags_lo which s = (if which = 0 then vco_l s else if which = 1 then vcc_l s else vce s)"

definition flags_hi :: "nat \<Rightarrow> rsp_t \<Rightarrow> nat \<Rightarrow> bool" where
  "flags_hi which s = (if which = 0 then vco_h s else vcc_h s)"

definition set_flag_lo :: "nat \<Rightarrow> nat \<Rightarrow> bool \<Rightarrow> rsp_t \<Rightarrow> rsp_t" where
  "set_flag_lo which i b s =
    (if which = 0 then s\<lparr>vco_l := (vco_l s)(i := b)\<rparr>
     else if which = 1 then s\<lparr>vcc_l := (vcc_l s)(i := b)\<rparr>
     else s\<lparr>vce := (vce s)(i := b)\<rparr>)"

definition set_flag_hi :: "nat \<Rightarrow> nat \<Rightarrow> bool \<Rightarrow> rsp_t \<Rightarrow> rsp_t" where
  "set_flag_hi which i b s =
    (if which = 0 then s\<lparr>vco_h := (vco_h s)(i := b)\<rparr> else s\<lparr>vcc_h := (vcc_h s)(i := b)\<rparr>)"

definition get_vflags :: "rsp_t \<Rightarrow> nat \<Rightarrow> u16" where
  "get_vflags s which =
    fold (\<lambda>i v. (let v = v OR (if flags_lo which s i then push_bit i 1 else 0)
                 in if which \<noteq> 2 then v OR (if flags_hi which s i then push_bit (i + 8) 1 else 0) else v))
      [0..<8] 0"

definition set_vflags :: "rsp_t \<Rightarrow> nat \<Rightarrow> u16 \<Rightarrow> rsp_t" where
  "set_vflags s which v =
    fold (\<lambda>i s. (let s = set_flag_lo which i (drop_bit i v AND 1 \<noteq> 0) s
                 in if which \<noteq> 2 then set_flag_hi which i (drop_bit (i + 8) v AND 1 \<noteq> 0) s else s))
      [0..<8] s"

subsection \<open>One lane\<close>

record lane =
  ln_acc :: u64
  ln_vco_l :: bool
  ln_vco_h :: bool
  ln_vcc_l :: bool
  ln_vcc_h :: bool
  ln_vce :: bool

definition get_lane :: "rsp_t \<Rightarrow> nat \<Rightarrow> lane" where
  "get_lane s i = \<lparr>ln_acc = rsp_acc s i, ln_vco_l = vco_l s i, ln_vco_h = vco_h s i,
     ln_vcc_l = vcc_l s i, ln_vcc_h = vcc_h s i, ln_vce = vce s i\<rparr>"

definition put_lane :: "rsp_t \<Rightarrow> nat \<Rightarrow> lane \<Rightarrow> rsp_t" where
  "put_lane s i L = s\<lparr>rsp_acc := (rsp_acc s)(i := ln_acc L),
     vco_l := (vco_l s)(i := ln_vco_l L), vco_h := (vco_h s)(i := ln_vco_h L),
     vcc_l := (vcc_l s)(i := ln_vcc_l L), vcc_h := (vcc_h s)(i := ln_vcc_h L),
     vce := (vce s)(i := ln_vce L)\<rparr>"

text \<open>\<open>acc[i] = (acc[i] & ~0xffffLL) | x\<close>, for an \<open>x\<close> of 16 bits.\<close>

definition acc_low :: "lane \<Rightarrow> u64 \<Rightarrow> lane" where
  "acc_low L x = L\<lparr>ln_acc := (ln_acc L AND NOT 0xffff) OR x\<rparr>"

subsection \<open>The multiplies\<close>

definition vmulf :: "u16 \<Rightarrow> u16 \<Rightarrow> lane \<Rightarrow> u16 \<times> lane" where
  "vmulf s t L =
    (let acc = sext48 (scast s * scast t * 2 + 0x8000)
     in (clamp_s16 (signed_drop_bit 16 acc), L\<lparr>ln_acc := acc\<rparr>))"

definition vmudl :: "u16 \<Rightarrow> u16 \<Rightarrow> lane \<Rightarrow> u16 \<times> lane" where
  "vmudl s t L =
    (let acc = signed_drop_bit 16 (ucast s * ucast t)
     in (clamp_acc_low acc, L\<lparr>ln_acc := acc\<rparr>))"

definition vmudm :: "u16 \<Rightarrow> u16 \<Rightarrow> lane \<Rightarrow> u16 \<times> lane" where
  "vmudm s t L =
    (let acc = sext48 (scast s * ucast t)
     in (clamp_s16 (signed_drop_bit 16 acc), L\<lparr>ln_acc := acc\<rparr>))"

definition vmudn :: "u16 \<Rightarrow> u16 \<Rightarrow> lane \<Rightarrow> u16 \<times> lane" where
  "vmudn s t L =
    (let acc = sext48 (ucast s * scast t)
     in (clamp_acc_low acc, L\<lparr>ln_acc := acc\<rparr>))"

definition vmudh :: "u16 \<Rightarrow> u16 \<Rightarrow> lane \<Rightarrow> u16 \<times> lane" where
  "vmudh s t L =
    (let acc = sext48 (push_bit 16 (scast s * scast t))
     in (clamp_s16 (signed_drop_bit 16 acc), L\<lparr>ln_acc := acc\<rparr>))"

definition vmacf :: "u16 \<Rightarrow> u16 \<Rightarrow> lane \<Rightarrow> u16 \<times> lane" where
  "vmacf s t L =
    (let acc = sext48 (ln_acc L + scast s * scast t * 2)
     in (clamp_s16 (signed_drop_bit 16 acc), L\<lparr>ln_acc := acc\<rparr>))"

definition vmadm :: "u16 \<Rightarrow> u16 \<Rightarrow> lane \<Rightarrow> u16 \<times> lane" where
  "vmadm s t L =
    (let acc = sext48 (ln_acc L + scast s * ucast t)
     in (clamp_s16 (signed_drop_bit 16 acc), L\<lparr>ln_acc := acc\<rparr>))"

definition vmadn :: "u16 \<Rightarrow> u16 \<Rightarrow> lane \<Rightarrow> u16 \<times> lane" where
  "vmadn s t L =
    (let acc = sext48 (ln_acc L + ucast s * scast t)
     in (clamp_acc_low acc, L\<lparr>ln_acc := acc\<rparr>))"

definition vmadh :: "u16 \<Rightarrow> u16 \<Rightarrow> lane \<Rightarrow> u16 \<times> lane" where
  "vmadh s t L =
    (let acc = sext48 (ln_acc L + push_bit 16 (scast s * scast t))
     in (clamp_s16 (signed_drop_bit 16 acc), L\<lparr>ln_acc := acc\<rparr>))"

subsection \<open>Addition and subtraction\<close>

definition vadd :: "u16 \<Rightarrow> u16 \<Rightarrow> lane \<Rightarrow> u16 \<times> lane" where
  "vadd s t L =
    (let x = scast s + scast t + (if ln_vco_l L then 1 else 0)
     in (clamp_s16 x, (acc_low L (x AND 0xffff))\<lparr>ln_vco_l := False, ln_vco_h := False\<rparr>))"

definition vsub :: "u16 \<Rightarrow> u16 \<Rightarrow> lane \<Rightarrow> u16 \<times> lane" where
  "vsub s t L =
    (let x = scast s - scast t - (if ln_vco_l L then 1 else 0)
     in (clamp_s16 x, (acc_low L (x AND 0xffff))\<lparr>ln_vco_l := False, ln_vco_h := False\<rparr>))"

definition vaddc :: "u16 \<Rightarrow> u16 \<Rightarrow> lane \<Rightarrow> u16 \<times> lane" where
  "vaddc s t L =
    (let x = (ucast s + ucast t :: u64)
     in (ucast (x AND 0xffff),
         (acc_low L (x AND 0xffff))\<lparr>ln_vco_l := (signed_drop_bit 16 x AND 1 \<noteq> 0), ln_vco_h := False\<rparr>))"

definition vabs :: "u16 \<Rightarrow> u16 \<Rightarrow> lane \<Rightarrow> u16 \<times> lane" where
  "vabs s t L =
    (let res = (if s <s 0 then - t else if s = 0 then 0 else t)
     in (res, acc_low L (ucast res)))"

definition vsubc :: "u16 \<Rightarrow> u16 \<Rightarrow> lane \<Rightarrow> u16 \<times> lane" where
  "vsubc s t L =
    (let d = (scast s - scast t :: u32); res = ucast d
     in (res, (acc_low L (ucast res))\<lparr>ln_vco_l := (d <s 0), ln_vco_h := (d \<noteq> 0)\<rparr>))"

subsection \<open>Accumulator reads, selects and logic\<close>

definition vsar :: "u32 \<Rightarrow> u16 \<Rightarrow> u16 \<Rightarrow> lane \<Rightarrow> u16 \<times> lane" where
  "vsar e s t L =
    (ucast (if e = 8 then signed_drop_bit 32 (ln_acc L)
            else if e = 9 then signed_drop_bit 16 (ln_acc L)
            else if e = 10 then ln_acc L else 0), L)"

definition vge :: "u16 \<Rightarrow> u16 \<Rightarrow> lane \<Rightarrow> u16 \<times> lane" where
  "vge s t L =
    (let ge = (t <s s \<or> (s = t \<and> \<not> (ln_vco_h L \<and> ln_vco_l L)));
         res = (if ge then s else t)
     in (res, (acc_low L (ucast res))\<lparr>ln_vcc_l := ge, ln_vcc_h := False, ln_vco_l := False, ln_vco_h := False\<rparr>))"

definition vcl :: "u16 \<Rightarrow> u16 \<Rightarrow> lane \<Rightarrow> u16 \<times> lane" where
  "vcl s t L =
    (let (res, L) =
       (if ln_vco_l L
        then (let L = (if \<not> ln_vco_h L
                       then (let sum = (ucast s + ucast t :: u64)
                             in L\<lparr>ln_vcc_l := (if ln_vce L then sum <=s 0x10000 else sum = 0)\<rparr>)
                       else L)
              in (if ln_vcc_l L then ucast (- (ucast t :: u64)) else s, L))
        else (let L = (if \<not> ln_vco_h L
                       then L\<lparr>ln_vcc_h := (0 <=s (ucast s - ucast t :: u64))\<rparr>
                       else L)
              in (if ln_vcc_h L then t else s, L)))
     in (res, (acc_low L (ucast res))\<lparr>ln_vco_l := False, ln_vco_h := False, ln_vce := False\<rparr>))"

definition vmrg :: "u16 \<Rightarrow> u16 \<Rightarrow> lane \<Rightarrow> u16 \<times> lane" where
  "vmrg s t L =
    (let res = (if ln_vcc_l L then s else t)
     in (res, acc_low L (ucast res)))"

text \<open>The six bitwise operations differ in the function of the two operands only.\<close>

definition vlogic :: "(u16 \<Rightarrow> u16 \<Rightarrow> u16) \<Rightarrow> u16 \<Rightarrow> u16 \<Rightarrow> lane \<Rightarrow> u16 \<times> lane" where
  "vlogic f s t L = (f s t, acc_low L (ucast (f s t)))"

definition vand :: "u16 \<Rightarrow> u16 \<Rightarrow> lane \<Rightarrow> u16 \<times> lane" where
  "vand = vlogic (\<lambda>s t. s AND t)"

definition vnand :: "u16 \<Rightarrow> u16 \<Rightarrow> lane \<Rightarrow> u16 \<times> lane" where
  "vnand = vlogic (\<lambda>s t. NOT (s AND t))"

definition vor :: "u16 \<Rightarrow> u16 \<Rightarrow> lane \<Rightarrow> u16 \<times> lane" where
  "vor = vlogic (\<lambda>s t. s OR t)"

definition vnor :: "u16 \<Rightarrow> u16 \<Rightarrow> lane \<Rightarrow> u16 \<times> lane" where
  "vnor = vlogic (\<lambda>s t. NOT (s OR t))"

definition vxor :: "u16 \<Rightarrow> u16 \<Rightarrow> lane \<Rightarrow> u16 \<times> lane" where
  "vxor = vlogic (\<lambda>s t. s XOR t)"

definition vnxor :: "u16 \<Rightarrow> u16 \<Rightarrow> lane \<Rightarrow> u16 \<times> lane" where
  "vnxor = vlogic (\<lambda>s t. NOT (s XOR t))"

subsection \<open>The dispatch and the loop over the lanes\<close>

definition vec_op :: "u32 \<Rightarrow> u32 \<Rightarrow> (u16 \<Rightarrow> u16 \<Rightarrow> lane \<Rightarrow> u16 \<times> lane) option" where
  "vec_op fn e =
    (if fn = 0x00 then Some vmulf
     else if fn = 0x04 then Some vmudl
     else if fn = 0x05 then Some vmudm
     else if fn = 0x06 then Some vmudn
     else if fn = 0x07 then Some vmudh
     else if fn = 0x08 then Some vmacf
     else if fn = 0x0d then Some vmadm
     else if fn = 0x0e then Some vmadn
     else if fn = 0x0f then Some vmadh
     else if fn = 0x10 then Some vadd
     else if fn = 0x11 then Some vsub
     else if fn = 0x14 then Some vaddc
     else if fn = 0x1d then Some (vsar e)
     else if fn = 0x23 then Some vge
     else if fn = 0x24 then Some vcl
     else if fn = 0x28 then Some vand
     else if fn = 0x29 then Some vnand
     else if fn = 0x2a then Some vor
     else if fn = 0x2b then Some vnor
     else if fn = 0x2d then Some vnxor
     else if fn = 0x27 then Some vmrg
     else if fn = 0x13 then Some vabs
     else if fn = 0x15 then Some vsubc
     else if fn = 0x2c then Some vxor
     else None)"

fun cop2_lanes :: "u32 \<Rightarrow> nat list \<Rightarrow> (nat \<Rightarrow> u16) \<Rightarrow> rsp_t \<Rightarrow> rsp_err + (nat \<Rightarrow> u16) \<times> rsp_t" where
  "cop2_lanes insn [] res s = Inr (res, s)"
| "cop2_lanes insn (i # is) res s =
    (let e = drop_bit 21 insn AND 15; vt = f_rt insn; vs = f_rd insn; fn = f_fn insn;
         sv = rsp_v s vs i; tv = rsp_v s vt (unat (vt_lane e (of_nat i)))
     in case vec_op fn e of
          None \<Rightarrow> rsp_die s (Die_vec_op fn insn)
        | Some f \<Rightarrow>
            (let (x, L) = f sv tv (get_lane s i)
             in cop2_lanes insn is (res(i := x)) (put_lane s i L)))"

definition set_r :: "rsp_t \<Rightarrow> nat \<Rightarrow> u32 \<Rightarrow> rsp_t" where
  "set_r s i x = s\<lparr>rsp_r := (rsp_r s)(i := x)\<rparr>"

definition f_e7 :: "u32 \<Rightarrow> nat" where
  "f_e7 insn = unat (drop_bit 7 insn AND 15)"

text \<open>The scalar moves: \<open>rt\<close> is a GPR, \<open>vd\<close> a vector or flag register, \<open>e\<close> a byte.\<close>

definition cop2_move :: "rsp_t \<Rightarrow> u32 \<Rightarrow> rsp_err + rsp_t" where
  "cop2_move s insn =
    (let rt = f_rt insn; vd = f_rd insn; e = f_e7 insn
     in if f_rs insn = 0 then
          Inr (set_r s rt (scast (push_bit 8 (ucast (vbyte s vd e)) OR ucast (vbyte s vd (e + 1)) :: u16)))
        else if f_rs insn = 4 then
          (let x = rsp_r s rt; s = set_vbyte s vd e (ucast (drop_bit 8 x))
           in Inr (if e \<noteq> 15 then set_vbyte s vd (e + 1) (ucast x) else s))
        else if f_rs insn = 2 then
          Inr (set_r s rt (scast (get_vflags s vd)))
        else if f_rs insn = 6 then
          Inr (set_vflags s vd (ucast (rsp_r s rt)))
        else rsp_die s (Die_cop2_move insn))"

definition cop2 :: "rsp_t \<Rightarrow> u32 \<Rightarrow> rsp_err + rsp_t" where
  "cop2 s insn =
    (if drop_bit 25 insn AND 1 = 0 then cop2_move s insn
     else case cop2_lanes insn [0..<8] (\<lambda>_. 0) s of
            Inl d \<Rightarrow> Inl d
          | Inr (res, s) \<Rightarrow>
              Inr (s\<lparr>rsp_v := (rsp_v s)(f_sa insn := (\<lambda>i. if i < 8 then res i else rsp_v s (f_sa insn) i))\<rparr>))"

subsection \<open>A register as a byte store\<close>

lemma u16_masks: "(0xff :: u16) = mask 8" "(0xff00 :: u16) = push_bit 8 (mask 8)"
  by (simp_all add: mask_eq_exp_minus_1)

lemma u16_set_low:
  "ucast (((x :: u16) AND 0xff00) OR ucast (b :: u8)) = b"
  "ucast (drop_bit 8 (((x :: u16) AND 0xff00) OR ucast (b :: u8))) = (ucast (drop_bit 8 x) :: u8)"
  unfolding u16_masks by (rule bit_word_eqI; auto simp: bit_simps dest: bit_imp_le_length)+

lemma u16_set_high:
  "ucast (drop_bit 8 (((x :: u16) AND 0x00ff) OR push_bit 8 (ucast (b :: u8)))) = b"
  "ucast (((x :: u16) AND 0x00ff) OR push_bit 8 (ucast (b :: u8))) = (ucast x :: u8)"
  unfolding u16_masks by (rule bit_word_eqI; auto simp: bit_simps)+

lemma byte_index: "drop_bit 1 (i AND 15) = i mod 16 div 2" "i AND 1 \<noteq> 0 \<longleftrightarrow> odd (i :: nat)"
  by (simp_all add: nat_and_15 drop_bit_eq_div and_one_eq odd_iff_mod_2_eq_one)

lemma byte_index_eq: "i mod 16 = j mod 16 \<longleftrightarrow> i mod 16 div 2 = j mod 16 div 2 \<and> odd i = odd (j :: nat)"
proof -
  have "odd x = odd (x mod 16)" for x :: nat by (simp add: dvd_mod_iff)
  moreover have "y = z \<longleftrightarrow> y div 2 = z div 2 \<and> odd y = odd z" for y z :: nat by presburger
  ultimately show ?thesis by metis
qed

lemma vbyte_eq:
  "vbyte s vt i = ucast (if odd i then rsp_v s vt (i mod 16 div 2) else drop_bit 8 (rsp_v s vt (i mod 16 div 2)))"
  by (simp only: vbyte_def byte_index Let_def)

lemma set_vbyte_eq:
  "set_vbyte s vt i b = set_v s vt (i mod 16 div 2)
    (if odd i then (rsp_v s vt (i mod 16 div 2) AND 0xff00) OR ucast b
     else (rsp_v s vt (i mod 16 div 2) AND 0x00ff) OR push_bit 8 (ucast b))"
  by (simp only: set_vbyte_def byte_index Let_def)

lemma rsp_v_set_v [simp]: "rsp_v (set_v s vt i x) vt' j = (if vt' = vt \<and> i = j then x else rsp_v s vt' j)"
  by (simp add: set_v_def)

interpretation vreg: byte_cells "\<lambda>s. vbyte s vt" "\<lambda>s. set_vbyte s vt" "\<lambda>i. i mod 16" for vt
proof unfold_locales
  fix s i b j
  show "vbyte (set_vbyte s vt i b) vt j = (if i mod 16 = j mod 16 then b else vbyte s vt j)"
    unfolding vbyte_eq set_vbyte_eq byte_index_eq rsp_v_set_v
    by (cases "i mod 16 div 2 = j mod 16 div 2"; cases "odd i"; cases "odd j")
       (simp_all only: u16_set_low u16_set_high simp_thms if_True if_False)
qed

lemma vbyte_set_vbyte [byte_simps]:
  "vbyte (set_vbyte s vt i b) vt j = (if i mod 16 = j mod 16 then b else vbyte s vt j)"
  by (rule vreg.get_put)

lemma lane_of_bytes:
  assumes "i < 8"
  shows "rsp_v s vt i = push_bit 8 (ucast (vbyte s vt (2 * i))) OR ucast (vbyte s vt (2 * i + 1))"
proof -
  have "2 * i mod 16 div 2 = i" "(2 * i + 1) mod 16 div 2 = i"
    using assms by simp_all
  then have "vbyte s vt (2 * i) = ucast (drop_bit 8 (rsp_v s vt i))"
    "vbyte s vt (2 * i + 1) = ucast (rsp_v s vt i)"
    by (simp_all add: vbyte_eq)
  then show ?thesis by (simp add: bytes_of_u16)
qed

text \<open>
  C33: A scalar moved into a vector register with \<open>mtc2\<close> comes back from \<open>mfc2\<close> at the same byte
  offset as its low half, sign-extended, at every offset that does not end the register.
\<close>

theorem mtc2_mfc2_roundtrip:
  assumes "f_rs put_insn = 4" and "f_rs get_insn = 0"
    and "f_rd get_insn = f_rd put_insn" and "f_e7 get_insn = f_e7 put_insn" and "f_e7 put_insn \<noteq> 15"
  shows "\<exists>s1 s2. cop2_move s put_insn = Inr s1 \<and> cop2_move s1 get_insn = Inr s2 \<and>
    rsp_r s2 (f_rt get_insn) = scast (ucast (rsp_r s (f_rt put_insn)) :: u16)"
proof -
  have e: "f_e7 put_insn < 15"
    using assms(5) unat_and_15_less [of "drop_bit 7 put_insn"] unfolding f_e7_def by linarith
  have "push_bit 8 (ucast (ucast (drop_bit 8 x) :: u8)) OR ucast (ucast x :: u8) = (ucast x :: u16)" for x :: u32
    by (rule bit_word_eqI) (auto simp: bit_simps not_less)
  then show ?thesis
    using assms e by (simp add: cop2_move_def Let_def byte_simps set_r_def)
qed

text \<open>\<open>mtc2 $2, $v1[3]\<close> and \<open>mfc2 $3, $v1[3]\<close>.\<close>

theorem mtc2_mfc2_roundtrip_witness:
  "\<exists>s1 s2. cop2_move ((rsp_init (\<lambda>_. 0))\<lparr>rsp_r := (\<lambda>_. 0x1234fedc)\<rparr>) 0x48820980 = Inr s1 \<and>
    cop2_move s1 0x48030980 = Inr s2 \<and> rsp_r s2 3 = - 0x124"
  using mtc2_mfc2_roundtrip [of "0x48820980" "0x48030980" "(rsp_init (\<lambda>_. 0))\<lparr>rsp_r := (\<lambda>_. 0x1234fedc)\<rparr>"]
  by (simp add: f_rs_def f_rd_def f_rt_def f_e7_def)

subsection \<open>The flag registers\<close>

lemma bit_or_flag: "bit ((v :: u16) OR (if c then push_bit k 1 else 0)) n \<longleftrightarrow> bit v n \<or> (c \<and> n = k \<and> k < 16)"
  by (auto simp: bit_or_iff bit_exp_iff)

lemma bit_get_vflags:
  "bit (get_vflags s which) n =
    (if n < 8 then flags_lo which s n else n < 16 \<and> which \<noteq> 2 \<and> flags_hi which s (n - 8))"
proof -
  define step where "step = (\<lambda>i v. (let v = v OR (if flags_lo which s i then push_bit i 1 else 0)
     in if which \<noteq> 2 then v OR (if flags_hi which s i then push_bit (i + 8) 1 else 0) else (v :: u16)))"
  have "bit (fold step [0..<m] 0) n =
      ((n < m \<and> flags_lo which s n) \<or> (8 \<le> n \<and> n < m + 8 \<and> which \<noteq> 2 \<and> flags_hi which s (n - 8)))"
    if "m \<le> 8" for m
    using that
  proof (induction m)
    case (Suc m)
    have "bit (step m v) n = (bit v n \<or> (flags_lo which s m \<and> n = m \<and> m < 16) \<or>
        (which \<noteq> 2 \<and> flags_hi which s m \<and> n = m + 8 \<and> m + 8 < 16))" for v
      by (cases "which = 2") (simp_all only: step_def Let_def bit_or_flag if_True if_False simp_thms disj_assoc)
    with Suc have *: "bit (fold step [0..<Suc m] 0) n =
        (((n < m \<and> flags_lo which s n) \<or> (8 \<le> n \<and> n < m + 8 \<and> which \<noteq> 2 \<and> flags_hi which s (n - 8))) \<or>
         (flags_lo which s m \<and> n = m \<and> m < 16) \<or> (which \<noteq> 2 \<and> flags_hi which s m \<and> n = m + 8 \<and> m + 8 < 16))"
      by simp
    have lt: "n < Suc m \<longleftrightarrow> n < m \<or> n = m" "n < Suc m + 8 \<longleftrightarrow> n < m + 8 \<or> n = m + 8" by auto
    consider "n = m" | "n = m + 8" | "n \<noteq> m" "n \<noteq> m + 8" by blast
    then show ?case
      unfolding * lt using Suc.prems by cases simp_all
  qed simp
  from this [of 8] show ?thesis
    by (cases "n < 8") (simp_all add: get_vflags_def step_def)
qed

lemma flags_set_vflags:
  "flags_lo which (set_vflags s which v) i = (if i < 8 then bit v i else flags_lo which s i)"
  "which \<noteq> 2 \<Longrightarrow> flags_hi which (set_vflags s which v) i = (if i < 8 then bit v (i + 8) else flags_hi which s i)"
proof -
  define step where "step = (\<lambda>i s. (let s = set_flag_lo which i (drop_bit i v AND 1 \<noteq> 0) s
     in if which \<noteq> 2 then set_flag_hi which i (drop_bit (i + 8) v AND 1 \<noteq> 0) s else s))"
  have bit: "drop_bit k v AND 1 \<noteq> 0 \<longleftrightarrow> bit v k" for k
    by (simp add: and_one_eq bit_iff_odd_drop_bit odd_iff_mod_2_eq_one)
  have step: "flags_lo which (step m t) i = (if i = m then bit v m else flags_lo which t i)"
    "which \<noteq> 2 \<Longrightarrow> flags_hi which (step m t) i = (if i = m then bit v (m + 8) else flags_hi which t i)" for m t
    unfolding step_def Let_def bit
    by (auto simp: set_flag_lo_def set_flag_hi_def flags_lo_def flags_hi_def)
  have "flags_lo which (fold step [0..<m] s) i = (if i < m then bit v i else flags_lo which s i)"
    "which \<noteq> 2 \<Longrightarrow> flags_hi which (fold step [0..<m] s) i = (if i < m then bit v (i + 8) else flags_hi which s i)" for m
    by (induction m) (auto simp: step less_Suc_eq)
  from this [of 8] show "flags_lo which (set_vflags s which v) i = (if i < 8 then bit v i else flags_lo which s i)"
    "which \<noteq> 2 \<Longrightarrow> flags_hi which (set_vflags s which v) i = (if i < 8 then bit v (i + 8) else flags_hi which s i)"
    by (simp_all add: set_vflags_def step_def)
qed

text \<open>
  C32: Writing a flag register and reading it back returns the sixteen bits written (the low eight
  for VCE, which has no high half), and writing back what was read changes nothing.
\<close>

theorem vflags_roundtrip:
  "get_vflags (set_vflags s which v) which = (if which = 2 then v AND 0xff else v) \<and>
   set_vflags s which (get_vflags s which) = s"
proof
  have ff: "(0xff :: u16) = mask 8" by (simp add: mask_eq_exp_minus_1)
  show "get_vflags (set_vflags s which v) which = (if which = 2 then v AND 0xff else v)"
    unfolding ff
    by (rule bit_word_eqI) (auto simp: bit_get_vflags flags_set_vflags bit_simps)
  define step where "step = (\<lambda>i t. (let t = set_flag_lo which i (flags_lo which s i) t
     in if which \<noteq> 2 then set_flag_hi which i (flags_hi which s i) t else t))"
  have bit: "drop_bit k v AND 1 \<noteq> 0 \<longleftrightarrow> bit v k" for k and v :: u16
    by (simp add: and_one_eq bit_iff_odd_drop_bit odd_iff_mod_2_eq_one)
  have id: "step i s = s" for i
    by (auto simp: step_def Let_def set_flag_lo_def set_flag_hi_def flags_lo_def flags_hi_def)
  have "set_vflags s which (get_vflags s which) = fold step [0..<8] s"
    unfolding set_vflags_def bit step_def
    by (rule fold_cong) (auto simp: bit_get_vflags fun_eq_iff Let_def)
  also have "\<dots> = s"
    by (rule fold_invariant [where Q = "\<lambda>_. True" and P = "\<lambda>t. t = s"]) (auto simp: id)
  finally show "set_vflags s which (get_vflags s which) = s" .
qed

subsection \<open>The accumulator as an integer\<close>

definition acc48 :: "u64 \<Rightarrow> bool" where
  "acc48 a \<longleftrightarrow> sext48 a = a"

lemma bit_sext48: "bit (sext48 x) n \<longleftrightarrow> n < 64 \<and> bit x (min n 47)"
proof (cases "n < 64")
  case True
  then have "min n 47 < 64" by (simp add: min_def)
  then show ?thesis
    using True by (cases "n < 47") (auto simp: sext48_def bit_simps min_def not_le)
qed (simp add: impossible_bit)

lemma sext48_idem [simp]: "acc48 (sext48 x)"
  unfolding acc48_def by (rule bit_word_eqI) (auto simp: bit_sext48 min_def)

lemma acc48I:
  assumes "\<And>n. 47 \<le> n \<Longrightarrow> n < 64 \<Longrightarrow> bit a n = bit a 47"
  shows "acc48 a"
  unfolding acc48_def
proof (rule bit_word_eqI)
  fix n
  assume "n < LENGTH(64)"
  then show "bit (sext48 a) n = bit a n"
    using assms [of n] by (cases "n < 47") (simp_all only: bit_sext48 min_def if_True if_False not_less len_num1 len_bit0, auto)
qed

lemma acc48D: "acc48 a \<Longrightarrow> 47 \<le> n \<Longrightarrow> n < 64 \<Longrightarrow> bit a n = bit a 47"
  using bit_sext48 [of a n] by (simp add: acc48_def min_absorb2)

lemma sint_sext48_of_int: "sint (sext48 (word_of_int k)) = signed_take_bit 47 k"
proof (rule bit_eqI)
  fix n
  have "bit (sint (sext48 (word_of_int k))) n = bit (sext48 (word_of_int k)) (min n 63)"
    by (cases "n < 64") (auto simp: bit_sint_iff min_def dest: bit_imp_le_length)
  also have "\<dots> = bit k (min n 47)"
    by (auto simp: bit_sext48 bit_word_of_int_iff min_def)
  also have "\<dots> = bit (signed_take_bit 47 k) n"
    by (simp add: bit_signed_take_bit_iff min.commute)
  finally show "bit (sint (sext48 (word_of_int k))) n = bit (signed_take_bit 47 k) n" .
qed

lemma word_as_int:
  "(scast (s :: u16) :: u64) = word_of_int (sint s)" "(ucast (s :: u16) :: u64) = word_of_int (uint s)"
  "(a :: u64) = word_of_int (sint a)"
  by simp_all

lemma u16_bounds: "- 32768 \<le> sint (s :: u16)" "sint s \<le> 32767" "0 \<le> uint s" "uint s \<le> 65535"
  using sint_greater_eq [of s] sint_less [of s] uint_lt2p [of s] by simp_all

subsection \<open>The multiplies over the integers\<close>

text \<open>
  What a multiply promises, over the unbounded integers: which product it forms, whether it
  adds it to the accumulator, and which slice of the 48-bit sum it returns, saturated.
\<close>

definition wrap48 :: "int \<Rightarrow> int" where
  "wrap48 k = (k + 2 ^ 47) mod 2 ^ 48 - 2 ^ 47"

definition sat_high :: "int \<Rightarrow> int" where
  "sat_high a = max (- 32768) (min 32767 (a div 2 ^ 16))"

definition sat_low :: "int \<Rightarrow> int" where
  "sat_low a = (if a < - (2 ^ 31) then 0 else if a \<ge> 2 ^ 31 then 65535 else a mod 2 ^ 16)"

text \<open>\<open>mul_spec fn = Some (accumulates, low result, product)\<close>\<close>

definition mul_spec :: "u32 \<Rightarrow> (bool \<times> bool \<times> (u16 \<Rightarrow> u16 \<Rightarrow> int)) option" where
  "mul_spec fn =
    (if fn = 0x00 then Some (False, False, \<lambda>s t. 2 * sint s * sint t + 0x8000)
     else if fn = 0x04 then Some (False, True, \<lambda>s t. uint s * uint t div 2 ^ 16)
     else if fn = 0x05 then Some (False, False, \<lambda>s t. sint s * uint t)
     else if fn = 0x06 then Some (False, True, \<lambda>s t. uint s * sint t)
     else if fn = 0x07 then Some (False, False, \<lambda>s t. sint s * sint t * 2 ^ 16)
     else if fn = 0x08 then Some (True, False, \<lambda>s t. 2 * sint s * sint t)
     else if fn = 0x0d then Some (True, False, \<lambda>s t. sint s * uint t)
     else if fn = 0x0e then Some (True, True, \<lambda>s t. uint s * sint t)
     else if fn = 0x0f then Some (True, False, \<lambda>s t. sint s * sint t * 2 ^ 16)
     else None)"

lemma wrap48_signed_take_bit: "wrap48 k = signed_take_bit 47 k"
  by (simp add: wrap48_def signed_take_bit_eq_take_bit_shift take_bit_eq_mod)

lemma wrap48_add: "wrap48 (wrap48 a + b) = wrap48 (a + b)"
proof -
  have "(wrap48 a + b + 2 ^ 47) mod 2 ^ 48 = ((a + 2 ^ 47) mod 2 ^ 48 + b) mod 2 ^ 48"
    by (simp add: wrap48_def algebra_simps)
  also have "\<dots> = (a + b + 2 ^ 47) mod 2 ^ 48"
    by (metis (no_types, opaque_lifting) add.assoc add.commute mod_add_left_eq)
  finally show ?thesis by (simp only: wrap48_def)
qed

lemma wrap48_small: "- (2 ^ 47) \<le> k \<Longrightarrow> k < 2 ^ 47 \<Longrightarrow> wrap48 k = k"
  by (simp add: wrap48_def)

lemma ucast_as_int: "(ucast (x :: u64) :: u16) = word_of_int (sint x)"
  by (rule bit_word_eqI) (auto simp: bit_simps)

lemma sint_uint_of_int16:
  "- 32768 \<le> k \<Longrightarrow> k \<le> 32767 \<Longrightarrow> sint (word_of_int k :: u16) = k"
  "uint (word_of_int k :: u16) = k mod 2 ^ 16"
  by (simp_all add: int_word_sint uint_word_of_int)

lemma clamp_s16_sat: "sint (clamp_s16 (signed_drop_bit 16 a)) = sat_high (sint a)"
proof -
  have k: "sint (signed_drop_bit 16 a) = sint a div 2 ^ 16"
    by (simp add: sint_signed_drop_bit_eq drop_bit_eq_div)
  have sc: "sint (ucast x :: u16) = sint x" if "- 32768 \<le> sint x" "sint x \<le> 32767" for x :: u64
    using that unfolding ucast_as_int by (rule sint_uint_of_int16)
  show ?thesis
    using sc [of "signed_drop_bit 16 a"]
    by (auto simp: clamp_s16_def sat_high_def word_sless_alt k)
qed

lemma clamp_acc_low_sat: "uint (clamp_acc_low a) = sat_low (sint a)"
proof -
  have "uint (ucast (a AND 0xffff) :: u16) = sint a mod 2 ^ 16"
  proof -
    have "(ucast (a AND 0xffff) :: u16) = ucast a"
      by (simp add: mask_simps) (rule bit_word_eqI, auto simp: bit_simps)
    then show ?thesis by (simp only: ucast_as_int sint_uint_of_int16)
  qed
  then show ?thesis
    by (auto simp: clamp_acc_low_def sat_low_def word_sless_alt)
qed


lemma sint_wrap48: "sint (sext48 (word_of_int k)) = wrap48 k"
  by (simp only: sint_sext48_of_int wrap48_signed_take_bit)

lemma u16_prod_bounds:
  "\<bar>sint (s :: u16) * sint (t :: u16)\<bar> \<le> 2 ^ 30" "\<bar>sint s * uint t\<bar> < 2 ^ 31"
  "\<bar>uint s * sint t\<bar> < 2 ^ 31" "0 \<le> uint s * uint t" "uint s * uint t < 2 ^ 32"
proof -
  note b = u16_bounds [of s] u16_bounds [of t]
  have m: "\<bar>a * b\<bar> \<le> c * d" if "\<bar>a\<bar> \<le> c" "\<bar>b\<bar> \<le> d" for a b c d :: int
    unfolding abs_mult using that by (intro mult_mono) auto
  have a: "\<bar>sint s\<bar> \<le> 32768" "\<bar>sint t\<bar> \<le> 32768" "\<bar>uint s\<bar> \<le> 65535" "\<bar>uint t\<bar> \<le> 65535"
    using b by linarith+
  show "\<bar>sint s * sint t\<bar> \<le> 2 ^ 30" using m [OF a(1,2)] by simp
  show "\<bar>sint s * uint t\<bar> < 2 ^ 31" using m [OF a(1,4)] by simp
  show "\<bar>uint s * sint t\<bar> < 2 ^ 31" using m [OF a(3,2)] by simp
  show "0 \<le> uint s * uint t" by simp
  show "uint s * uint t < 2 ^ 32" using m [OF a(3,4)] by simp
qed

lemma mul_words:
  "scast (s :: u16) * scast (t :: u16) = (word_of_int (sint s * sint t) :: u64)"
  "scast s * ucast t = (word_of_int (sint s * uint t) :: u64)"
  "ucast s * scast t = (word_of_int (uint s * sint t) :: u64)"
  "ucast s * ucast t = (word_of_int (uint s * uint t) :: u64)"
  by (simp_all add: wi_hom_mult)

lemma push_word_of_int: "push_bit n (word_of_int k :: u64) = word_of_int (k * 2 ^ n)"
  by (simp add: push_bit_eq_mult mult.commute flip: wi_hom_mult)

lemma acc48_of_range:
  assumes "- (2 ^ 47) \<le> sint a" "sint a < 2 ^ 47"
  shows "acc48 a"
proof -
  have "sint (sext48 a) = sint a"
    using sint_wrap48 [of "sint a"] wrap48_small [OF assms] by simp
  then show ?thesis by (simp add: acc48_def signed_word_eqI)
qed

lemma sint_small_of_int: "- (2 ^ 63) \<le> k \<Longrightarrow> k < 2 ^ 63 \<Longrightarrow> sint (word_of_int k :: u64) = k"
  by (simp add: int_word_sint)

definition acc_of_int :: "int \<Rightarrow> u64" where
  "acc_of_int k = sext48 (word_of_int k)"

lemma sint_acc_of_int: "sint (acc_of_int k) = wrap48 k" "acc48 (acc_of_int k)"
  by (simp_all only: acc_of_int_def sint_wrap48 sext48_idem)

definition mul_acc :: "bool \<Rightarrow> int \<Rightarrow> lane \<Rightarrow> int" where
  "mul_acc accumulates p L = wrap48 ((if accumulates then sint (ln_acc L) else 0) + p)"

lemma acc_of_int_intros:
  "sext48 (scast (s :: u16) * scast (t :: u16) * 2 + 0x8000) = acc_of_int (2 * sint s * sint t + 0x8000)"
  "sext48 (scast s * ucast t) = acc_of_int (sint s * uint t)"
  "sext48 (ucast s * scast t) = acc_of_int (uint s * sint t)"
  "sext48 (push_bit 16 (scast s * scast t)) = acc_of_int (sint s * sint t * 2 ^ 16)"
  "sext48 (a + scast s * scast t * 2) = acc_of_int (sint a + 2 * sint s * sint t)"
  "sext48 (a + scast s * ucast t) = acc_of_int (sint a + sint s * uint t)"
  "sext48 (a + ucast s * scast t) = acc_of_int (sint a + uint s * sint t)"
  "sext48 (a + push_bit 16 (scast s * scast t)) = acc_of_int (sint a + sint s * sint t * 2 ^ 16)"
  by (simp_all add: acc_of_int_def push_bit_eq_mult mult.commute mult.left_commute)

lemma mul_exact:
  assumes "mul_spec fn = Some (accumulates, low, p)"
  shows "\<exists>f. vec_op fn e = Some f \<and>
    (let (x, L') = f s t L; a = mul_acc accumulates (p s t) L
     in sint (ln_acc L') = a \<and> acc48 (ln_acc L') \<and> L' = L\<lparr>ln_acc := ln_acc L'\<rparr> \<and>
        (if low then uint x = sat_low a else sint x = sat_high a))"
proof -
  have div_le: "0 \<le> k \<Longrightarrow> 0 \<le> k div 2 ^ 16 \<and> k div 2 ^ 16 \<le> k" for k :: int
    by (simp; linarith)
  have b: "0 \<le> uint s * uint t div 2 ^ 16" "uint s * uint t div 2 ^ 16 < 2 ^ 32"
    using u16_prod_bounds(4,5) [of s t] div_le [of "uint s * uint t"] by linarith+
  have "sint (word_of_int (uint s * uint t) :: u64) = uint s * uint t"
    using u16_prod_bounds(4,5) [of s t] by (intro sint_small_of_int order_trans [OF _ u16_prod_bounds(4)]) simp_all
  then have "sint (signed_drop_bit 16 (ucast s * ucast t :: u64)) = uint s * uint t div 2 ^ 16"
    unfolding mul_words sint_signed_drop_bit_eq drop_bit_eq_div by (simp only:)
  with b have l: "sint (signed_drop_bit 16 (ucast s * ucast t :: u64)) = wrap48 (uint s * uint t div 2 ^ 16)"
    and l': "acc48 (signed_drop_bit 16 (ucast s * ucast t :: u64))"
    by (auto simp: wrap48_small intro: acc48_of_range)
  note defs = mul_acc_def vmulf_def vmudl_def vmudm_def vmudn_def vmudh_def vmacf_def vmadm_def vmadn_def vmadh_def
    Let_def acc_of_int_intros sint_acc_of_int clamp_s16_sat clamp_acc_low_sat l l'
  from assms consider
      "fn = 0x00" "(accumulates, low, p) = (False, False, \<lambda>s t. 2 * sint s * sint t + 0x8000)"
    | "fn = 0x04" "(accumulates, low, p) = (False, True, \<lambda>s t. uint s * uint t div 2 ^ 16)"
    | "fn = 0x05" "(accumulates, low, p) = (False, False, \<lambda>s t. sint s * uint t)"
    | "fn = 0x06" "(accumulates, low, p) = (False, True, \<lambda>s t. uint s * sint t)"
    | "fn = 0x07" "(accumulates, low, p) = (False, False, \<lambda>s t. sint s * sint t * 2 ^ 16)"
    | "fn = 0x08" "(accumulates, low, p) = (True, False, \<lambda>s t. 2 * sint s * sint t)"
    | "fn = 0x0d" "(accumulates, low, p) = (True, False, \<lambda>s t. sint s * uint t)"
    | "fn = 0x0e" "(accumulates, low, p) = (True, True, \<lambda>s t. uint s * sint t)"
    | "fn = 0x0f" "(accumulates, low, p) = (True, False, \<lambda>s t. sint s * sint t * 2 ^ 16)"
    by (auto simp: mul_spec_def split: if_split_asm)
  then show ?thesis
    by cases (simp_all add: vec_op_def defs)
qed

text \<open>
  C21: Every multiply of the vector unit computes its exact product, adds it to the 48-bit
  accumulator where it accumulates, keeps the sum modulo \<open>2 ^ 48\<close>, returns the slice of it its
  result is defined as, saturated, and leaves the flags alone.
\<close>

theorem multiplies_are_exact:
  assumes "mul_spec fn = Some (accumulates, low, p)"
  shows "\<exists>f. vec_op fn e = Some f \<and>
    (let (x, L') = f s t L; a = mul_acc accumulates (p s t) L
     in sint (ln_acc L') = a \<and> acc48 (ln_acc L') \<and> L' = L\<lparr>ln_acc := ln_acc L'\<rparr> \<and>
        (if low then uint x = sat_low a else sint x = sat_high a))"
  using assms by (rule mul_exact)

theorem multiplies_are_exact_witness:
  "mul_spec 0x08 = Some (True, False, \<lambda>s t. 2 * sint s * sint t) \<and>
   (\<exists>f. vec_op 0x08 0 = Some f \<and> (let (x, L') = f 0x7fff 0x7fff \<lparr>ln_acc = 0x7fffffff, ln_vco_l = False,
      ln_vco_h = False, ln_vcc_l = False, ln_vcc_h = False, ln_vce = False\<rparr>
     in sint (ln_acc L') = 4294836225 \<and> sint x = 32767))"
proof -
  have m: "mul_spec 0x08 = Some (True, False, \<lambda>s t. 2 * sint s * sint t)"
    by (simp add: mul_spec_def)
  from multiplies_are_exact [OF m, of 0 "0x7fff" "0x7fff" "\<lparr>ln_acc = 0x7fffffff, ln_vco_l = False,
      ln_vco_h = False, ln_vcc_l = False, ln_vcc_h = False, ln_vce = False\<rparr>"] m
  show ?thesis
    by (auto simp: mul_acc_def wrap48_def sat_high_def Let_def split: prod.splits)
qed

subsection \<open>The accumulator stays 48 bits wide\<close>

lemma acc48_low: "acc48 (ln_acc L) \<Longrightarrow> x = ucast (h :: u16) \<Longrightarrow> acc48 (ln_acc (acc_low L x))"
proof (rule acc48I)
  fix n :: nat
  assume a: "acc48 (ln_acc L)" and x: "x = ucast h" and n: "47 \<le> n" "n < 64"
  have ff: "(0xffff :: u64) = mask 16" by (simp add: mask_eq_exp_minus_1)
  have "bit (ln_acc (acc_low L x)) k = bit (ln_acc L) k" if "16 \<le> k" "k < 64" for k
    using that x bit_imp_le_length [of h k] unfolding acc_low_def ff
    by (auto simp: bit_simps)
  then show "bit (ln_acc (acc_low L x)) n = bit (ln_acc (acc_low L x)) 47"
    using n acc48D [OF a n] by simp
qed

lemma and_16_ucast: "(x :: u64) AND 0xffff = ucast (ucast x :: u16)"
  by (simp add: mask_simps) (rule bit_word_eqI, auto simp: bit_simps)

lemma vec_op_acc48:
  assumes "vec_op fn e = Some f" and "acc48 (ln_acc L)"
  shows "acc48 (ln_acc (snd (f s t L)))"
proof (cases "mul_spec fn")
  case (Some spec)
  then obtain accumulates low p where "mul_spec fn = Some (accumulates, low, p)"
    by (cases spec) auto
  from mul_exact [OF this, of e s t L] assms(1) show ?thesis
    by (auto simp: Let_def split: prod.splits)
next
  case None
  note low = acc48_low [OF assms(2)] acc48_low [where L = "L\<lparr>ln_vcc_l := b\<rparr>" for b, simplified, OF assms(2)]
    acc48_low [where L = "L\<lparr>ln_vcc_h := b\<rparr>" for b, simplified, OF assms(2)]
  from None have "fn \<notin> {0x00, 0x04, 0x05, 0x06, 0x07, 0x08, 0x0d, 0x0e, 0x0f}"
    by (auto simp: mul_spec_def)
  then have "f \<in> {vadd, vsub, vaddc, vsar e, vge, vcl, vand, vnand, vor, vnor, vnxor, vmrg, vabs, vsubc, vxor}"
    using assms(1) by (auto simp: vec_op_def split: if_split_asm)
  then show ?thesis
    using low assms(2)
    by (auto simp: vadd_def vsub_def vaddc_def vsar_def vge_def vcl_def vand_def vnand_def vor_def vnor_def
        vnxor_def vmrg_def vabs_def vsubc_def vxor_def vlogic_def Let_def and_16_ucast)
qed

subsection \<open>The whole register\<close>

lemma get_put_lane: "get_lane (put_lane s i L) j = (if i = j then L else get_lane s j)"
  by (simp add: get_lane_def put_lane_def)

lemma put_lane_frame [simp]:
  "rsp_v (put_lane s i L) = rsp_v s" "rsp_r (put_lane s i L) = rsp_r s" "rsp_mem (put_lane s i L) = rsp_mem s"
  "rsp_pc (put_lane s i L) = rsp_pc s"
  by (simp_all add: put_lane_def)

text \<open>What lane \<open>i\<close> of an instruction computes from the state the instruction starts in.\<close>

definition lane_result :: "(u16 \<Rightarrow> u16 \<Rightarrow> lane \<Rightarrow> u16 \<times> lane) \<Rightarrow> u32 \<Rightarrow> rsp_t \<Rightarrow> nat \<Rightarrow> u16 \<times> lane" where
  "lane_result f insn s i =
    f (rsp_v s (f_rd insn) i) (rsp_v s (f_rt insn) (unat (vt_lane (drop_bit 21 insn AND 15) (of_nat i))))
      (get_lane s i)"

lemma cop2_lanes_closed:
  assumes "vec_op (f_fn insn) (drop_bit 21 insn AND 15) = Some f" and "distinct is"
  shows "cop2_lanes insn is res s =
    Inr (\<lambda>i. if i \<in> set is then fst (lane_result f insn s i) else res i,
         fold (\<lambda>i t. put_lane t i (snd (lane_result f insn s i))) is s)"
  using assms(2)
proof (induction "is" arbitrary: res s)
  case Nil
  then show ?case by simp
next
  case (Cons i "is")
  let ?t = "put_lane s i (snd (lane_result f insn s i))"
  have same: "lane_result f insn ?t j = lane_result f insn s j" if "j \<in> set is" for j
    using that Cons.prems by (auto simp: lane_result_def get_put_lane)
  have "fold (\<lambda>j t. put_lane t j (snd (lane_result f insn ?t j))) is ?t =
      fold (\<lambda>j t. put_lane t j (snd (lane_result f insn s j))) is ?t"
    by (intro fold_cong) (simp_all add: same)
  moreover have "cop2_lanes insn (i # is) res s = cop2_lanes insn is (res(i := fst (lane_result f insn s i))) ?t"
    using assms(1) by (simp add: Let_def lane_result_def split: prod.splits)
  ultimately show ?case
    using Cons by (auto simp: same fun_eq_iff)
qed

lemma fold_put_lane:
  "get_lane (fold (\<lambda>i t. put_lane t i (g i)) is s) j = (if j \<in> set is then g j else get_lane s j)"
  by (induction "is" arbitrary: s) (auto simp: get_put_lane)

lemma fold_put_lane_frame:
  assumes "\<And>t i L. h (put_lane t i L) = h t"
  shows "h (fold (\<lambda>i t. put_lane t i (g i)) is s) = h s"
  by (induction "is" arbitrary: s) (auto simp: assms)

text \<open>The state with everything a vector operation may write forgotten.\<close>

definition non_vector :: "rsp_t \<Rightarrow> rsp_t" where
  "non_vector s = s\<lparr>rsp_v := (\<lambda>_ _. 0), rsp_acc := (\<lambda>_. 0), vco_l := (\<lambda>_. False), vco_h := (\<lambda>_. False),
     vcc_l := (\<lambda>_. False), vcc_h := (\<lambda>_. False), vce := (\<lambda>_. False)\<rparr>"

lemma cop2_op:
  assumes "drop_bit 25 insn AND 1 \<noteq> (0 :: u32)"
    and "vec_op (f_fn insn) (drop_bit 21 insn AND 15) = Some f"
  shows "\<exists>s'. cop2 s insn = Inr s' \<and> non_vector s' = non_vector s \<and>
    (\<forall>i. i < 8 \<longrightarrow> rsp_v s' (f_sa insn) i = fst (lane_result f insn s i) \<and>
                  get_lane s' i = snd (lane_result f insn s i)) \<and>
    (\<forall>i. 8 \<le> i \<longrightarrow> rsp_v s' (f_sa insn) i = rsp_v s (f_sa insn) i \<and> get_lane s' i = get_lane s i) \<and>
    (\<forall>vr. vr \<noteq> f_sa insn \<longrightarrow> rsp_v s' vr = rsp_v s vr)"
proof -
  define t where "t = fold (\<lambda>i t. put_lane t i (snd (lane_result f insn s i))) [0..<8] s"
  define res where "res = (\<lambda>i. if i \<in> set [0..<8] then fst (lane_result f insn s i) else 0)"
  have c: "cop2_lanes insn [0..<8] (\<lambda>_. 0) s = Inr (res, t)"
    unfolding res_def t_def by (rule cop2_lanes_closed [OF assms(2)]) simp
  have lanes: "get_lane t j = (if j < 8 then snd (lane_result f insn s j) else get_lane s j)" for j
    unfolding t_def fold_put_lane by simp
  have frame: "non_vector t = non_vector s" "rsp_v t = rsp_v s"
    unfolding t_def by (rule fold_put_lane_frame, simp add: non_vector_def put_lane_def)+
  let ?s' = "t\<lparr>rsp_v := (rsp_v t)(f_sa insn := (\<lambda>i. if i < 8 then res i else rsp_v t (f_sa insn) i))\<rparr>"
  have "cop2 s insn = Inr ?s'"
    using assms(1) by (simp add: cop2_def c)
  moreover have "get_lane ?s' = get_lane t" "non_vector ?s' = non_vector t"
    by (simp_all add: get_lane_def non_vector_def fun_eq_iff)
  ultimately show ?thesis
    by (intro exI [of _ ?s']) (simp add: lanes frame res_def)
qed

text \<open>
  C10: A vector operation reads both source registers, in every lane, before it writes the
  destination, so it is one simultaneous assignment of eight lanes even when the destination
  is a source that the element specifier broadcasts; it leaves every other register and the
  scalar half of the machine alone.
\<close>

theorem cop2_is_simultaneous:
  assumes "drop_bit 25 insn AND 1 \<noteq> (0 :: u32)"
    and "vec_op (f_fn insn) (drop_bit 21 insn AND 15) = Some f"
  shows "\<exists>s'. cop2 s insn = Inr s' \<and> non_vector s' = non_vector s \<and>
    (\<forall>i. i < 8 \<longrightarrow> rsp_v s' (f_sa insn) i = fst (lane_result f insn s i) \<and>
                  get_lane s' i = snd (lane_result f insn s i)) \<and>
    (\<forall>i. 8 \<le> i \<longrightarrow> rsp_v s' (f_sa insn) i = rsp_v s (f_sa insn) i \<and> get_lane s' i = get_lane s i) \<and>
    (\<forall>vr. vr \<noteq> f_sa insn \<longrightarrow> rsp_v s' vr = rsp_v s vr)"
  using assms by (rule cop2_op)

text \<open>\<open>vadd $v1, $v1, $v1[e0]\<close>: broadcasts lane 0 of the register it overwrites.\<close>

theorem cop2_is_simultaneous_witness:
  "\<exists>s'. cop2 ((rsp_init (\<lambda>_. 0))\<lparr>rsp_v := (\<lambda>_ i. of_nat (i + 1))\<rparr>) 0x4b010850 = Inr s' \<and> rsp_v s' 1 7 = 9 \<and> rsp_v s' 1 0 = 2"
proof -
  have fields: "f_fn 0x4b010850 = 0x10" "f_rt 0x4b010850 = 1" "f_rd 0x4b010850 = 1" "f_sa 0x4b010850 = 1"
    "drop_bit 21 (0x4b010850 :: u32) AND 15 = 8" "drop_bit 25 (0x4b010850 :: u32) AND 1 \<noteq> 0"
    by (simp_all add: f_fn_def f_rt_def f_rd_def f_sa_def)
  have op: "vec_op (f_fn 0x4b010850) (drop_bit 21 (0x4b010850 :: u32) AND 15) = Some vadd"
    unfolding fields by (simp add: vec_op_def)
  let ?s = "(rsp_init (\<lambda>_. 0))\<lparr>rsp_v := (\<lambda>_ i. of_nat (i + 1))\<rparr>"
  have l: "fst (lane_result vadd 0x4b010850 ?s 7) = 9" "fst (lane_result vadd 0x4b010850 ?s 0) = 2"
    by (simp_all add: lane_result_def fields vt_lane_def vadd_def Let_def get_lane_def rsp_init_def clamp_s16_def)
  obtain s' where s': "cop2 ?s 0x4b010850 = Inr s'"
    "\<forall>i. i < 8 \<longrightarrow> rsp_v s' 1 i = fst (lane_result vadd 0x4b010850 ?s i)"
    using cop2_is_simultaneous [OF fields(6) op, of ?s] unfolding fields(4) by blast
  from s'(2) [rule_format, of 7] s'(2) [rule_format, of 0] s'(1) l show ?thesis
    by (intro exI [of _ s']) simp
qed

subsection \<open>Double precision by pairs of instructions\<close>

definition sat16 :: "int \<Rightarrow> int" where
  "sat16 k = max (- 32768) (min 32767 k)"

text \<open>A 32-bit number split over a lane of two registers, high half signed.\<close>

definition double :: "u16 \<Rightarrow> u16 \<Rightarrow> int" where
  "double h l = sint h * 2 ^ 16 + uint l"

lemma clamp_s16_of_int: "\<bar>k\<bar> < 2 ^ 40 \<Longrightarrow> sint (clamp_s16 (word_of_int k)) = sat16 k"
proof -
  assume "\<bar>k\<bar> < 2 ^ 40"
  then have k: "sint (word_of_int k :: u64) = k"
    by (intro sint_small_of_int) simp_all
  have "sint (ucast (word_of_int k :: u64) :: u16) = k" if "- 32768 \<le> k" "k \<le> 32767"
    unfolding ucast_as_int k using that by (rule sint_uint_of_int16)
  then show ?thesis
    by (auto simp: clamp_s16_def word_sless_alt k sat16_def)
qed

lemma double_div: "double h l div 2 ^ 16 = sint h" "double h l mod 2 ^ 16 = uint l"
  using u16_bounds(3,4) [of l] by (simp_all add: double_def)

lemma u16_sum:
  "uint (ucast s + ucast t :: u64) = uint (s :: u16) + uint (t :: u16)"
proof -
  have "(ucast s + ucast t :: u64) = word_of_int (uint s + uint t)" by simp
  also have "uint \<dots> = uint s + uint t"
    using u16_bounds [of s] u16_bounds [of t] unfolding uint_word_of_int by (intro mod_pos_pos_trivial) simp_all
  finally show ?thesis .
qed

lemma u16_of_u64: "uint (ucast ((x :: u64) AND 0xffff) :: u16) = uint x mod 2 ^ 16"
proof -
  have "(ucast (x AND 0xffff) :: u16) = ucast x"
    by (simp add: mask_simps) (rule bit_word_eqI, auto simp: bit_simps)
  then show ?thesis by (simp add: unsigned_ucast_eq take_bit_eq_mod)
qed

lemma small_quot:
  fixes k :: int
  assumes "0 \<le> k" and "k < 2 ^ 17"
  shows "k div 2 ^ 16 = (if 2 ^ 16 \<le> k then 1 else 0)"
  using assms int_div_pos_eq [of k "2 ^ 16" 1 "k - 2 ^ 16"] by (simp add: div_pos_pos_trivial)

lemma small_diff:
  fixes k :: int
  assumes "- (2 ^ 16) \<le> k" and "k < 2 ^ 16"
  shows "k div 2 ^ 16 = (if k < 0 then - 1 else 0)"
  using assms int_div_pos_eq [of k "2 ^ 16" "- 1" "k + 2 ^ 16"] by (simp add: div_pos_pos_trivial)

lemma vaddc_carry:
  "uint (fst (vaddc s t L)) = (uint s + uint t) mod 2 ^ 16"
  "ln_vco_l (snd (vaddc s t L)) \<longleftrightarrow> 2 ^ 16 \<le> uint s + uint t"
proof -
  let ?k = "uint s + uint t"
  show "uint (fst (vaddc s t L)) = ?k mod 2 ^ 16"
    by (simp only: vaddc_def Let_def fst_conv u16_of_u64 u16_sum)
  have "signed_drop_bit 16 x AND 1 \<noteq> 0 \<longleftrightarrow> bit x 16" for x :: u64
    using and_exp_eq_0_iff_not_bit [of "signed_drop_bit 16 x" 0] by (simp add: bit_simps)
  moreover have "bit (ucast s + ucast t :: u64) 16 \<longleftrightarrow> odd (?k div 2 ^ 16)"
    using bit_uint_iff [of "ucast s + ucast t :: u64" 16] by (simp add: u16_sum bit_iff_odd)
  moreover have "odd (?k div 2 ^ 16) \<longleftrightarrow> 2 ^ 16 \<le> ?k"
    using small_quot [of ?k] u16_bounds [of s] u16_bounds [of t] by simp
  ultimately show "ln_vco_l (snd (vaddc s t L)) \<longleftrightarrow> 2 ^ 16 \<le> ?k"
    by (simp add: vaddc_def Let_def)
qed

lemma two16: "(2 :: int) ^ 16 \<noteq> 0" by simp

lemma vadd_high: "sint (fst (vadd s t L)) = sat16 (sint s + sint t + (if ln_vco_l L then 1 else 0))"
proof -
  have "(scast s + scast t + (if ln_vco_l L then 1 else 0) :: u64)
      = word_of_int (sint s + sint t + (if ln_vco_l L then 1 else 0))" by simp
  moreover have "\<bar>sint s + sint t + (if ln_vco_l L then 1 else 0)\<bar> < 2 ^ 40"
    using u16_bounds [of s] u16_bounds [of t] by (auto simp: abs_less_iff)
  ultimately show ?thesis
    using clamp_s16_of_int by (simp only: vadd_def Let_def fst_conv)
qed

lemma vsub_high: "sint (fst (vsub s t L)) = sat16 (sint s - sint t - (if ln_vco_l L then 1 else 0))"
proof -
  have "(scast s - scast t - (if ln_vco_l L then 1 else 0) :: u64)
      = word_of_int (sint s - sint t - (if ln_vco_l L then 1 else 0))" by simp
  moreover have "\<bar>sint s - sint t - (if ln_vco_l L then 1 else 0)\<bar> < 2 ^ 40"
    using u16_bounds [of s] u16_bounds [of t] by (auto simp: abs_less_iff)
  ultimately show ?thesis
    using clamp_s16_of_int by (simp only: vsub_def Let_def fst_conv)
qed

text \<open>
  C22: \<open>vaddc\<close> on the low halves followed by \<open>vadd\<close> on the high halves is 32-bit addition: the low
  half exact, the high half saturated, the carry passed through VCO and cleared after.
\<close>

theorem vaddc_vadd_is_double_add:
  "let (xl, L1) = vaddc s_lo t_lo L; (xh, L2) = vadd s_hi t_hi L1; sum = double s_hi s_lo + double t_hi t_lo
   in uint xl = sum mod 2 ^ 16 \<and> sint xh = sat16 (sum div 2 ^ 16) \<and>
      \<not> ln_vco_l L2 \<and> \<not> ln_vco_h L2"
proof -
  obtain xl L1 where 1: "vaddc s_lo t_lo L = (xl, L1)" by fastforce
  obtain xh L2 where 2: "vadd s_hi t_hi L1 = (xh, L2)" by fastforce
  let ?sum = "double s_hi s_lo + double t_hi t_lo"
  have sum: "?sum = (sint s_hi + sint t_hi) * 2 ^ 16 + (uint s_lo + uint t_lo)"
    by (simp add: double_def algebra_simps)
  have "uint xl = ?sum mod 2 ^ 16" 
    using vaddc_carry(1) [of s_lo t_lo L] 1 unfolding sum mod_mult_self3 by simp
  moreover have "?sum div 2 ^ 16 = sint s_hi + sint t_hi + (if 2 ^ 16 \<le> uint s_lo + uint t_lo then 1 else 0)"
    using small_quot [of "uint s_lo + uint t_lo"] u16_bounds [of s_lo] u16_bounds [of t_lo]
    unfolding sum div_mult_self3 [OF two16] by simp
  then have "sint xh = sat16 (?sum div 2 ^ 16)"
    using vadd_high [of s_hi t_hi L1] vaddc_carry(2) [of s_lo t_lo L] 1 2 by simp
  moreover have "\<not> ln_vco_l L2 \<and> \<not> ln_vco_h L2" using 2 by (auto simp: vadd_def Let_def)
  ultimately show ?thesis by (simp add: 1 2 Let_def)
qed


lemma vsubc_borrow:
  "uint (fst (vsubc s t L)) = (uint s - uint t) mod 2 ^ 16"
  "ln_vco_l (snd (vsubc s t L)) \<longleftrightarrow> sint s < sint t"
proof -
  have d: "(scast s - scast t :: u32) = word_of_int (sint s - sint t)" by simp
  have "(ucast (word_of_int k :: u32) :: u16) = word_of_int k" for k
    by (rule bit_word_eqI) (auto simp: bit_simps)
  then have "fst (vsubc s t L) = word_of_int (sint s - sint t)"
    by (simp only: vsubc_def Let_def fst_conv d)
  also have "\<dots> = s - t" by simp
  also have "\<dots> = word_of_int (uint s - uint t)" by simp
  finally show "uint (fst (vsubc s t L)) = (uint s - uint t) mod 2 ^ 16"
    by (simp only: sint_uint_of_int16)
  have "sint (word_of_int (sint s - sint t) :: u32) = sint s - sint t"
    using u16_bounds [of s] u16_bounds [of t] unfolding int_word_sint by (simp add: mod_pos_pos_trivial)
  then show "ln_vco_l (snd (vsubc s t L)) \<longleftrightarrow> sint s < sint t"
    unfolding vsubc_def Let_def d word_sless_alt by simp
qed

lemma u16_mod: "uint (x :: u16) mod 65536 = uint x"
  using u16_bounds [of x] by (intro mod_pos_pos_trivial) simp_all

lemma borrow_cases:
  "(if uint (s :: u16) < uint t then 1 else 0 :: int) - (if sint s < sint (t :: u16) then 1 else 0)
    = (if bit s 15 = bit t 15 then 0 else if bit s 15 then - 1 else 1)"
proof -
  have "sint x = uint x - (if bit x 15 then 2 ^ 16 else 0)" for x :: u16
    by (simp add: sint_uint signed_take_bit_eq_take_bit_minus bit_uint_iff take_bit_eq_mod u16_mod)
  from this [of s] this [of t] show ?thesis
    using u16_bounds [of s] u16_bounds [of t] by (cases "bit s 15"; cases "bit t 15")
      (auto, use uint_ge_0 [of t] in linarith, use uint_ge_0 [of s] in linarith)
qed

text \<open>
  C23: The pair \<open>vsubc\<close> then \<open>vsub\<close> is 32-bit subtraction exactly when the low halves have equal top
  bits.  Otherwise the high half is off by one: \<open>vsubc\<close> takes its borrow from a comparison of
  the low halves as signed numbers.
\<close>

theorem vsubc_vsub_borrow:
  "let (xl, L1) = vsubc s_lo t_lo L; (xh, L2) = vsub s_hi t_hi L1; diff = double s_hi s_lo - double t_hi t_lo
   in uint xl = diff mod 2 ^ 16 \<and>
      sint xh = sat16 (diff div 2 ^ 16 +
        (if bit s_lo 15 = bit t_lo 15 then 0 else if bit s_lo 15 then - 1 else 1))"
proof -
  obtain xl L1 where 1: "vsubc s_lo t_lo L = (xl, L1)" by fastforce
  obtain xh L2 where 2: "vsub s_hi t_hi L1 = (xh, L2)" by fastforce
  let ?diff = "double s_hi s_lo - double t_hi t_lo"
  have diff: "?diff = (sint s_hi - sint t_hi) * 2 ^ 16 + (uint s_lo - uint t_lo)"
    by (simp add: double_def algebra_simps)
  have "uint xl = ?diff mod 2 ^ 16"
    using vsubc_borrow(1) [of s_lo t_lo L] 1 unfolding diff mod_mult_self3 by simp
  moreover have "?diff div 2 ^ 16 = sint s_hi - sint t_hi - (if uint s_lo < uint t_lo then 1 else 0)"
    using small_diff [of "uint s_lo - uint t_lo"] u16_bounds [of s_lo] u16_bounds [of t_lo]
    unfolding diff div_mult_self3 [OF two16] by auto
  then have "?diff div 2 ^ 16 + (if bit s_lo 15 = bit t_lo 15 then 0 else if bit s_lo 15 then - 1 else 1)
      = sint s_hi - sint t_hi - (if sint s_lo < sint t_lo then 1 else 0)"
    using borrow_cases [of s_lo t_lo] by simp
  then have "sint xh = sat16 (?diff div 2 ^ 16 + (if bit s_lo 15 = bit t_lo 15 then 0 else if bit s_lo 15 then - 1 else 1))"
    using vsub_high [of s_hi t_hi L1] vsubc_borrow(2) [of s_lo t_lo L] 1 2 by simp
  ultimately show ?thesis by (simp add: 1 2 Let_def)
qed

end
