(* ===== verification/Rsp_Vmem.thy ===== *)
theory Rsp_Vmem
  imports Rsp_Vec
begin

text \<open>
  Vector loads and stores (\<open>rsp.cc\<close>, lines 386 to 538): the byte, short, long, double and quad
  forms, the right-justified rest of a row, the packed forms and the transpose load.  Each
  loop of the source is a \<open>copy_loop\<close> over the same indices, between the byte store of a
  vector register and the byte store of DMEM.
\<close>

subsection \<open>Fields and addresses\<close>

text \<open>\<open>static_cast<int32_t>(insn << 25) >> 25\<close>\<close>

definition f_offs7 :: "u32 \<Rightarrow> u32" where
  "f_offs7 insn = signed_drop_bit 25 (push_bit 25 insn)"

definition vmem_ea :: "rsp_t \<Rightarrow> u32 \<Rightarrow> nat \<Rightarrow> u32" where
  "vmem_ea s insn scale = rsp_r s (f_rs insn) + push_bit scale (f_offs7 insn)"

text \<open>The bytes of a quad load or store: from \<open>ea\<close> to the end of its 16-byte row.\<close>

definition row_rest :: "u32 \<Rightarrow> nat" where
  "row_rest ea = unat (16 - (ea AND 15))"

text \<open>The first byte element of the right-justified forms; 16 or more means none.\<close>

definition right_start :: "u32 \<Rightarrow> nat \<Rightarrow> nat" where
  "right_start ea e = unat (16 - ((ea AND 15) - of_nat e))"

subsection \<open>The loops\<close>

text \<open>\<open>for(i = 0; i < n and (e + i) < 16; i++) set_vbyte(vt, e + i, mem[(ea + i) & 0xfff])\<close>\<close>

definition load_bytes :: "nat \<Rightarrow> nat \<Rightarrow> u32 \<Rightarrow> nat \<Rightarrow> rsp_t \<Rightarrow> rsp_t" where
  "load_bytes vt e ea n s =
    copy_loop (\<lambda>s. set_vbyte s vt) rd8 (\<lambda>i. e + i) (\<lambda>i. ea + of_nat i) (takeWhile (\<lambda>i. e + i < 16) [0..<n]) s"

text \<open>\<open>for(i = 0; i < n; i++) mem[(ea + i) & 0xfff] = vbyte(vt, e + i)\<close>\<close>

definition store_bytes :: "nat \<Rightarrow> nat \<Rightarrow> u32 \<Rightarrow> nat \<Rightarrow> rsp_t \<Rightarrow> rsp_t" where
  "store_bytes vt e ea n s =
    copy_loop wr8 (\<lambda>s. vbyte s vt) (\<lambda>i. ea + of_nat i) (\<lambda>i. e + i) [0..<n] s"

definition load_right :: "nat \<Rightarrow> nat \<Rightarrow> u32 \<Rightarrow> rsp_t \<Rightarrow> rsp_t" where
  "load_right vt e ea s =
    (let start = right_start ea e; ea = ea AND NOT 15
     in copy_loop (\<lambda>s. set_vbyte s vt) rd8 (\<lambda>i. i) (\<lambda>i. ea + of_nat (i - start)) [start..<16] s)"

definition store_right :: "nat \<Rightarrow> nat \<Rightarrow> u32 \<Rightarrow> rsp_t \<Rightarrow> rsp_t" where
  "store_right vt e ea s =
    (let start = right_start ea e; ea = ea AND NOT 15
     in copy_loop wr8 (\<lambda>s. vbyte s vt) (\<lambda>i. ea + of_nat (i - start)) (\<lambda>i. i) [start..<16] s)"

definition load_packed :: "nat \<Rightarrow> nat \<Rightarrow> u32 \<Rightarrow> nat \<Rightarrow> rsp_t \<Rightarrow> rsp_t" where
  "load_packed vt e ea shift s =
    copy_loop (\<lambda>s. set_v s vt) (\<lambda>s a. push_bit shift (ucast (rd8 s a)))
      (\<lambda>i. (e + i) AND 7) (\<lambda>i. ea + of_nat i) [0..<8] s"

definition store_packed :: "nat \<Rightarrow> nat \<Rightarrow> u32 \<Rightarrow> nat \<Rightarrow> rsp_t \<Rightarrow> rsp_t" where
  "store_packed vt e ea shift s =
    copy_loop wr8 (\<lambda>s i. ucast (drop_bit shift (rsp_v s vt i)))
      (\<lambda>i. ea + of_nat i) (\<lambda>i. (e + i) AND 7) [0..<8] s"

definition transpose_ea :: "u32 \<Rightarrow> nat \<Rightarrow> u32" where
  "transpose_ea ea sl =
    (let win = ea AND NOT 7; off = ea - win
     in (win + ((off + 2 * of_nat sl) AND 15)) AND 0xfff)"

definition load_transpose :: "nat \<Rightarrow> u32 \<Rightarrow> rsp_t \<Rightarrow> rsp_t" where
  "load_transpose vt ea s =
    (let group = vt AND 0x18
     in copy_loop (\<lambda>s sl. set_v s (group OR sl) sl) rd16
          (\<lambda>sl. sl) (\<lambda>sl. transpose_ea ea sl) [0..<8] s)"

subsection \<open>The two instructions\<close>

definition lwc2 :: "rsp_t \<Rightarrow> u32 \<Rightarrow> rsp_err + rsp_t" where
  "lwc2 s insn =
    (let vt = f_rt insn; op = f_rd insn; e = f_e7 insn
     in if op = 0 then Inr (set_vbyte s vt e (rd8 s (vmem_ea s insn 0)))
        else if op = 1 \<or> op = 2 \<or> op = 3 then Inr (load_bytes vt e (vmem_ea s insn op) (2 ^ op) s)
        else if op = 4 then
          (let ea = vmem_ea s insn 4 in Inr (load_bytes vt e ea (row_rest ea) s))
        else if op = 11 then
          (if drop_bit 1 e \<noteq> 0 then rsp_die s (Die_ltv (drop_bit 1 e))
           else Inr (load_transpose vt (vmem_ea s insn 4) s))
        else if op = 6 \<or> op = 7 then
          Inr (load_packed vt e (vmem_ea s insn 3) (if op = 6 then 8 else 7) s)
        else if op = 5 then Inr (load_right vt e (vmem_ea s insn 4) s)
        else rsp_die s (Die_vec_load op))"

definition swc2 :: "rsp_t \<Rightarrow> u32 \<Rightarrow> rsp_err + rsp_t" where
  "swc2 s insn =
    (let vt = f_rt insn; op = f_rd insn; e = f_e7 insn
     in if op = 0 then Inr (wr8 s (vmem_ea s insn 0) (vbyte s vt e))
        else if op = 6 \<or> op = 7 then
          Inr (store_packed vt e (vmem_ea s insn 3) (if (op = 6) \<noteq> (8 \<le> e) then 8 else 7) s)
        else if op = 1 \<or> op = 2 \<or> op = 3 then Inr (store_bytes vt e (vmem_ea s insn op) (2 ^ op) s)
        else if op = 5 then Inr (store_right vt e (vmem_ea s insn 4) s)
        else if op = 4 then
          (let ea = vmem_ea s insn 4 in Inr (store_bytes vt e ea (row_rest ea) s))
        else rsp_die s (Die_vec_store op))"

subsection \<open>The loops as copies between byte stores\<close>

lemma rsp_mem_set_vbyte [simp]: "rsp_mem (set_vbyte s vt i b) = rsp_mem s"
  by (simp add: set_vbyte_eq set_v_def)

lemma rsp_v_wr8 [simp]: "rsp_v (wr8 s a b) = rsp_v s"
  by (simp add: wr8_def)

lemma rd8_frame [simp]:
  "rd8 (set_vbyte s vt i b) a = rd8 s a" "rd8 (set_v s vt j x) a = rd8 s a"
  by (simp_all add: rd8_def set_v_def)

lemma vbyte_frame [simp]: "vbyte (wr8 s a b) vt i = vbyte s vt i"
  by (simp add: vbyte_eq)

interpretation vload: byte_copy "\<lambda>s. vbyte s vt" "\<lambda>s. set_vbyte s vt" "\<lambda>i. i mod 16" rd8 for vt
  by unfold_locales simp

interpretation vstore: byte_copy rd8 wr8 dmem_cell "\<lambda>s. vbyte s vt" for vt
  by unfold_locales simp

interpretation pload: byte_copy "\<lambda>s. rsp_v s vt" "\<lambda>s. set_v s vt" "\<lambda>i. i"
    "\<lambda>s a. push_bit shift (ucast (rd8 s a))" for vt shift
  by unfold_locales simp_all

interpretation pstore: byte_copy rd8 wr8 dmem_cell "\<lambda>s i. ucast (drop_bit shift (rsp_v s vt i))" for vt shift
  by unfold_locales simp

interpretation tload: byte_copy "\<lambda>s sl. rsp_v s (group OR sl) sl" "\<lambda>s sl. set_v s (group OR sl) sl" "\<lambda>i. i" rd16 for group
  by unfold_locales (simp_all add: rd16_def)

subsection \<open>Addresses as numbers\<close>

lemma and_15_mod: "unat ((ea :: u32) AND 15) = unat ea mod 16"
  by (simp add: mask_simps unat_take_bit)

lemma row_rest_eq: "row_rest ea = 16 - unat ea mod 16"
proof -
  have "ea AND 15 \<le> 16" using and_15_mod [of ea] by (simp add: word_le_nat_alt)
  then show ?thesis by (simp add: row_rest_def unat_sub and_15_mod)
qed

lemma right_start_eq:
  assumes "e < 16"
  shows "right_start ea e = (if e \<le> unat ea mod 16 then 16 - (unat ea mod 16 - e) else 16 + (e - unat ea mod 16))"
proof -
  define d where "d = ea AND 15"
  have d: "unat d = unat ea mod 16" by (simp add: d_def and_15_mod)
  have e: "unat (of_nat e :: u32) = e" using assms by (simp add: unat_of_nat)
  show ?thesis
  proof (cases "e \<le> unat d")
    case True
    then have "(of_nat e :: u32) \<le> d" using e by (simp add: word_le_nat_alt)
    then have "unat (d - of_nat e) = unat d - e" by (simp add: unat_sub e)
    moreover have "d - of_nat e \<le> 16" using calculation d by (simp add: word_le_nat_alt)
    ultimately show ?thesis using True by (simp add: right_start_def unat_sub d flip: d_def)
  next
    case False
    have u: "unat (of_nat e - d) = e - unat d"
      using False e by (simp add: unat_sub word_le_nat_alt)
    have "16 - (d - of_nat e) = 16 + (of_nat e - d)" by simp
    moreover have "unat (16 + (of_nat e - d)) = 16 + (e - unat d)"
      using assms unfolding unat_word_ariths u by simp
    ultimately show ?thesis
      using False d unfolding right_start_def d_def [symmetric] by (simp only: if_False)
  qed
qed

lemma row_base: "(ea :: u32) AND NOT 15 = ea - (ea AND 15)"
proof -
  have "(ea AND NOT 15) + (ea AND 15) = (ea AND NOT 15) OR (ea AND 15)"
    by (rule disjunctive_add) (simp add: bit_simps)
  also have "\<dots> = ea" by (rule bit_word_eqI) (auto simp: bit_simps)
  finally show ?thesis by (simp add: eq_diff_eq)
qed

lemma takeWhile_below: "takeWhile (\<lambda>i. e + i < (m :: nat)) [0..<n] = [0..<min n (m - e)]"
proof -
  let ?k = "min n (m - e)"
  have "[0..<n] = [0..<?k] @ [?k..<n]"
    by (metis le_add_diff_inverse min.cobounded1 upt_add_eq_append zero_le)
  moreover have "takeWhile (\<lambda>i. e + i < m) [?k..<n] = []"
    by (cases "?k < n") (auto simp: upt_conv_Cons min_def split: if_splits)
  ultimately show ?thesis
    by (metis (no_types, lifting) append_Nil2 atLeastLessThan_iff less_diff_conv2 set_upt takeWhile_append2 ab_semigroup_add_class.add.commute less_diff_conv min_less_iff_conj)
qed

subsection \<open>What each loop moves\<close>

lemma f_e7_less [simp]: "f_e7 insn < 16"
  by (simp add: f_e7_def)

lemma distinct_map_mod16:
  "e + n \<le> 16 \<Longrightarrow> distinct (map ((\<lambda>i. i mod 16) \<circ> (\<lambda>i. e + i)) [0..<n])"
  "distinct (map ((\<lambda>i. i mod 16) \<circ> (\<lambda>i. i)) [m..<16])"
  by (auto simp: distinct_map inj_on_def)

lemma load_bytes_read:
  assumes "e + i < 16" and "i < n"
  shows "vbyte (load_bytes vt e ea n s) vt (e + i) = rd8 s (ea + of_nat i)"
  unfolding load_bytes_def takeWhile_below
  using assms by (intro vload.get_copy_written distinct_map_mod16) auto

lemma load_bytes_frame:
  assumes "j < 16" and "j < e \<or> e + n \<le> j"
  shows "vbyte (load_bytes vt e ea n s) vt j = vbyte s vt j"
  unfolding load_bytes_def takeWhile_below
  using assms by (intro vload.get_copy_untouched) auto

lemma right_address:
  assumes "e \<le> unat ea mod 16" and "16 - (unat ea mod 16 - e) \<le> j" and "j < 16"
  shows "((ea :: u32) AND NOT 15) + of_nat (j - (16 - (unat ea mod 16 - e))) = ea - of_nat (16 - j + e)"
proof -
  let ?d = "unat ea mod 16" and ?start = "16 - (unat ea mod 16 - e)"
  have "ea AND 15 = of_nat ?d" by (simp flip: and_15_mod)
  moreover have "(of_nat ?d :: u32) = of_nat (j - ?start) + of_nat (16 - j + e)"
  proof -
    have "?d = (j - ?start) + (16 - j + e)" using assms by simp
    then show ?thesis by (metis of_nat_add)
  qed
  ultimately have "ea AND 15 = of_nat (j - ?start) + of_nat (16 - j + e)" by (simp only:)
  moreover have "a - (x + y) + x = a - y" for a x y :: u32 by simp
  ultimately show ?thesis unfolding row_base by (simp only:)
qed

lemma load_right_read:
  assumes "e \<le> unat ea mod 16" and "16 - (unat ea mod 16 - e) \<le> j" and "j < 16"
  shows "vbyte (load_right vt e ea s) vt j = rd8 s (ea - of_nat (16 - j + e))"
proof -
  have e: "e < 16" using assms(1) order_le_less_trans [OF _ mod_less_divisor [of 16 "unat ea"]] by simp
  show ?thesis
    unfolding load_right_def Let_def right_start_eq [OF e] if_P [OF assms(1)] right_address [OF assms, symmetric]
    using assms(2,3) by (intro vload.get_copy_written distinct_map_mod16) auto
qed

lemma load_right_frame:
  assumes "e < 16" and "j < 16" and "unat ea mod 16 < e \<or> j < 16 - (unat ea mod 16 - e)"
  shows "vbyte (load_right vt e ea s) vt j = vbyte s vt j"
  unfolding load_right_def Let_def right_start_eq [OF assms(1)]
  using assms(2,3) by (intro vload.get_copy_untouched) auto

lemma store_bytes_read:
  assumes "i < n" and "n \<le> 16"
  shows "rd8 (store_bytes vt e ea n s) (ea + of_nat i) = vbyte s vt (e + i)"
  unfolding store_bytes_def
  using assms by (intro vstore.get_copy_written)
    (auto simp: distinct_map inj_on_def dmem_cell_add_eq unat_of_nat word_unat_eq_iff)

lemma store_bytes_frame:
  assumes "\<forall>i < n. dmem_cell a \<noteq> dmem_cell (ea + of_nat i)"
  shows "rd8 (store_bytes vt e ea n s) a = rd8 s a"
  unfolding store_bytes_def using assms by (intro vstore.get_copy_untouched) auto


lemma dmem_cell_of_nat_eq:
  assumes "i < 4096" and "j < 4096"
  shows "dmem_cell (a + of_nat i) = dmem_cell (a + of_nat j) \<longleftrightarrow> i = j"
  using assms dmem_cell_add_eq [of "of_nat i" "of_nat j" a] by (simp add: unat_of_nat word_unat_eq_iff)

lemma store_right_read:
  assumes "e \<le> unat ea mod 16" and "16 - (unat ea mod 16 - e) \<le> j" and "j < 16"
  shows "rd8 (store_right vt e ea s) (ea - of_nat (16 - j + e)) = vbyte s vt j"
proof -
  let ?start = "16 - (unat ea mod 16 - e)"
  have e: "e < 16" using assms(1) order_le_less_trans [OF _ mod_less_divisor [of 16 "unat ea"]] by simp
  have "dmem_cell ((ea AND NOT 15) + of_nat (i - ?start)) = dmem_cell ((ea AND NOT 15) + of_nat (k - ?start)) \<longleftrightarrow> i = k"
    if "?start \<le> i" "i < 16" "?start \<le> k" "k < 16" for i k
    using that by (subst dmem_cell_of_nat_eq) auto
  then show ?thesis
    unfolding store_right_def Let_def right_start_eq [OF e] if_P [OF assms(1)] right_address [OF assms, symmetric]
    using assms(2,3) by (intro vstore.get_copy_written) (auto simp: distinct_map inj_on_def)
qed

lemma store_right_frame:
  assumes "e < 16" and "\<forall>j < 16. e \<le> unat ea mod 16 \<and> 16 - (unat ea mod 16 - e) \<le> j \<longrightarrow>
    dmem_cell a \<noteq> dmem_cell (ea - of_nat (16 - j + e))"
  shows "rd8 (store_right vt e ea s) a = rd8 s a"
proof (cases "e \<le> unat ea mod 16")
  case True
  have "dmem_cell ((ea AND NOT 15) + of_nat (j - (16 - (unat ea mod 16 - e)))) \<noteq> dmem_cell a"
    if "16 - (unat ea mod 16 - e) \<le> j" "j < 16" for j
    using assms(2) True that right_address [OF True that] by metis
  then show ?thesis
    unfolding store_right_def Let_def right_start_eq [OF assms(1)] if_P [OF True]
    by (intro vstore.get_copy_untouched) (simp only: set_upt atLeastLessThan_iff Ball_def, blast)
next
  case False
  then show ?thesis
    unfolding store_right_def Let_def right_start_eq [OF assms(1)] by simp
qed

text \<open>
  C24: \<open>lqv\<close> at an address and \<open>lrv\<close> sixteen bytes on load the sixteen bytes at that address, whatever
  its alignment and across the end of DMEM.
\<close>

theorem lqv_lrv_load_unaligned_row:
  assumes "f_rd q = 4" and "f_rd r = 5" and "f_e7 q = 0" and "f_e7 r = 0" and "f_rt r = f_rt q"
    and "vmem_ea s r 4 = vmem_ea s q 4 + 16"
  shows "\<exists>s1 s2. lwc2 s q = Inr s1 \<and> lwc2 s1 r = Inr s2 \<and>
    (\<forall>i < 16. vbyte s2 (f_rt q) i = rd8 s (vmem_ea s q 4 + of_nat i))"
proof -
  let ?ea = "vmem_ea s q 4" and ?vt = "f_rt q"
  define s1 where "s1 = load_bytes ?vt 0 ?ea (row_rest ?ea) s"
  define s2 where "s2 = load_right ?vt 0 (?ea + 16) s1"
  have r: "rsp_r s1 = rsp_r s"
    unfolding s1_def load_bytes_def
    by (rule copy_loop_inv [where P = "\<lambda>t. rsp_r t = rsp_r s"]) (simp_all add: set_vbyte_eq set_v_def)
  then have "vmem_ea s1 r 4 = ?ea + 16" using assms(6) by (simp add: vmem_ea_def)
  then have "lwc2 s q = Inr s1 \<and> lwc2 s1 r = Inr s2"
    using assms(1-5) by (simp add: lwc2_def s1_def s2_def Let_def)
  moreover have "vbyte s2 ?vt i = rd8 s (?ea + of_nat i)" if i: "i < 16" for i
  proof -
    define d where "d = unat ?ea mod 16"
    have d: "unat (?ea + 16) mod 16 = d" "d < 16"
      by (simp_all add: d_def unat_word_ariths mod_mod_cancel)
    have rd: "rd8 s1 a = rd8 s a" for a
      unfolding s1_def load_bytes_def by (rule vload.src_copy)
    show ?thesis
    proof (cases "i < 16 - d")
      case True
      have "vbyte s2 ?vt i = vbyte s1 ?vt i"
        unfolding s2_def using True i d by (intro load_right_frame) auto
      also have "\<dots> = rd8 s (?ea + of_nat i)"
        using load_bytes_read [of 0 i "row_rest ?ea"] i True
        unfolding s1_def by (simp add: row_rest_eq d_def)
      finally show ?thesis .
    next
      case False
      have "vbyte s2 ?vt i = rd8 s1 (?ea + 16 - of_nat (16 - i + 0))"
        unfolding s2_def using False i d by (intro load_right_read) auto
      moreover have "?ea + 16 - of_nat (16 - i + 0) = ?ea + of_nat i"
        using i by (simp add: of_nat_diff)
      ultimately show ?thesis by (simp only: rd)
    qed
  qed
  ultimately show ?thesis by blast
qed

theorem lqv_lrv_load_unaligned_row_witness:
  "let s = (rsp_init (\<lambda>_. 0))\<lparr>rsp_r := (\<lambda>_. 3), rsp_mem := of_nat\<rparr>
   in \<exists>s1 s2. lwc2 s 0xc8a12000 = Inr s1 \<and> lwc2 s1 0xc8a12801 = Inr s2 \<and> vbyte s2 1 15 = 18"
proof -
  let ?s = "(rsp_init (\<lambda>_. 0))\<lparr>rsp_r := (\<lambda>_. 3), rsp_mem := of_nat\<rparr>"
  have ea: "vmem_ea ?s 0xc8a12000 4 = 3" "vmem_ea ?s 0xc8a12801 4 = vmem_ea ?s 0xc8a12000 4 + 16"
    by (simp_all add: vmem_ea_def f_offs7_def)
  have f: "f_rd 0xc8a12000 = 4" "f_rd 0xc8a12801 = 5" "f_e7 0xc8a12000 = 0" "f_e7 0xc8a12801 = 0"
    "f_rt 0xc8a12801 = f_rt 0xc8a12000" "f_rt 0xc8a12000 = 1"
    by (simp_all add: f_rd_def f_e7_def f_rt_def)
  obtain s1 s2 where s: "lwc2 ?s 0xc8a12000 = Inr s1 \<and> lwc2 s1 0xc8a12801 = Inr s2 \<and>
      (\<forall>i < 16. vbyte s2 1 i = rd8 ?s (3 + of_nat i))"
    using lqv_lrv_load_unaligned_row [OF f(1-5) ea(2)] unfolding ea(1) f(6) by blast
  then have "vbyte s2 1 15 = rd8 ?s (3 + of_nat 15)" by simp
  then have "vbyte s2 1 15 = 18" by (simp add: rd8_def)
  with s show ?thesis by (auto simp: Let_def)
qed

text \<open>
  C25: \<open>sqv\<close> at an address and \<open>srv\<close> sixteen bytes on store the register into the sixteen bytes at
  that address, whatever its alignment, and change no other byte of DMEM.
\<close>

theorem sqv_srv_store_unaligned_row:
  assumes "f_rd q = 4" and "f_rd r = 5" and "f_e7 q = 0" and "f_e7 r = 0" and "f_rt r = f_rt q"
    and "vmem_ea s r 4 = vmem_ea s q 4 + 16"
  shows "\<exists>s1 s2. swc2 s q = Inr s1 \<and> swc2 s1 r = Inr s2 \<and>
    (\<forall>i < 16. rd8 s2 (vmem_ea s q 4 + of_nat i) = vbyte s (f_rt q) i) \<and>
    (\<forall>a. (\<forall>i < 16. dmem_cell a \<noteq> dmem_cell (vmem_ea s q 4 + of_nat i)) \<longrightarrow> rd8 s2 a = rd8 s a)"
proof -
  let ?ea = "vmem_ea s q 4" and ?vt = "f_rt q"
  define s1 where "s1 = store_bytes ?vt 0 ?ea (row_rest ?ea) s"
  define s2 where "s2 = store_right ?vt 0 (?ea + 16) s1"
  define d where "d = unat ?ea mod 16"
  have d: "unat (?ea + 16) mod 16 = d" "d < 16" "row_rest ?ea = 16 - d"
    by (simp_all add: d_def unat_word_ariths mod_mod_cancel row_rest_eq)
  have r: "rsp_r s1 = rsp_r s"
    unfolding s1_def store_bytes_def
    by (rule copy_loop_inv [where P = "\<lambda>t. rsp_r t = rsp_r s"]) (simp_all add: wr8_def)
  then have "vmem_ea s1 r 4 = ?ea + 16" using assms(6) by (simp add: vmem_ea_def)
  then have run: "swc2 s q = Inr s1 \<and> swc2 s1 r = Inr s2"
    using assms(1-5) by (simp add: swc2_def s1_def s2_def Let_def)
  have v: "vbyte s1 ?vt j = vbyte s ?vt j" for j
    unfolding s1_def store_bytes_def by (rule vstore.src_copy)
  have addr: "?ea + 16 - of_nat (16 - i + 0) = ?ea + of_nat i" if "i < 16" for i
    using that by (simp add: of_nat_diff)
  have outside: "rd8 s2 a = rd8 s1 a"
    if "\<forall>j < 16. 16 - d \<le> j \<longrightarrow> dmem_cell a \<noteq> dmem_cell (?ea + of_nat j)" for a
    unfolding s2_def using that d addr by (intro store_right_frame) auto
  have bytes: "rd8 s2 (?ea + of_nat i) = vbyte s ?vt i" if i: "i < 16" for i
  proof (cases "i < 16 - d")
    case True
    have "rd8 s2 (?ea + of_nat i) = rd8 s1 (?ea + of_nat i)"
      using True by (intro outside) (auto simp: dmem_cell_of_nat_eq)
    also have "\<dots> = vbyte s ?vt (0 + i)"
      unfolding s1_def using True d by (intro store_bytes_read) auto
    finally show ?thesis by simp
  next
    case False
    have "rd8 s2 (?ea + 16 - of_nat (16 - i + 0)) = vbyte s1 ?vt i"
      unfolding s2_def using False i d by (intro store_right_read) auto
    then show ?thesis by (simp only: addr [OF i] v)
  qed
  have frame: "rd8 s2 a = rd8 s a" if a: "\<forall>i < 16. dmem_cell a \<noteq> dmem_cell (?ea + of_nat i)" for a
  proof -
    have "rd8 s2 a = rd8 s1 a" using a by (intro outside) simp
    also have "\<dots> = rd8 s a" unfolding s1_def using a d by (intro store_bytes_frame) simp
    finally show ?thesis .
  qed
  from run bytes frame show ?thesis by blast
qed

theorem sqv_srv_store_unaligned_row_witness:
  "let s = (rsp_init (\<lambda>_. 0))\<lparr>rsp_r := (\<lambda>_. 3), rsp_v := (\<lambda>_ _. 0x4142)\<rparr>
   in \<exists>s1 s2. swc2 s 0xe8a12000 = Inr s1 \<and> swc2 s1 0xe8a12801 = Inr s2 \<and> rd8 s2 18 = 0x42 \<and> rd8 s2 19 = 0"
proof -
  let ?s = "(rsp_init (\<lambda>_. 0))\<lparr>rsp_r := (\<lambda>_. 3), rsp_v := (\<lambda>_ _. 0x4142)\<rparr>"
  have ea: "vmem_ea ?s 0xe8a12000 4 = 3" "vmem_ea ?s 0xe8a12801 4 = vmem_ea ?s 0xe8a12000 4 + 16"
    by (simp_all add: vmem_ea_def f_offs7_def)
  have f: "f_rd 0xe8a12000 = 4" "f_rd 0xe8a12801 = 5" "f_e7 0xe8a12000 = 0" "f_e7 0xe8a12801 = 0"
    "f_rt 0xe8a12801 = f_rt 0xe8a12000" "f_rt 0xe8a12000 = 1"
    by (simp_all add: f_rd_def f_e7_def f_rt_def)
  obtain s1 s2 where s: "swc2 ?s 0xe8a12000 = Inr s1 \<and> swc2 s1 0xe8a12801 = Inr s2"
      "\<forall>i < 16. rd8 s2 (3 + of_nat i) = vbyte ?s 1 i"
      "\<forall>a. (\<forall>i < 16. dmem_cell a \<noteq> dmem_cell (3 + of_nat i)) \<longrightarrow> rd8 s2 a = rd8 ?s a"
    using sqv_srv_store_unaligned_row [OF f(1-5) ea(2)] unfolding ea(1) f(6) by blast
  have "rd8 s2 (3 + of_nat 15) = vbyte ?s 1 15" by (rule s(2) [rule_format]) simp
  then have a: "rd8 s2 18 = 0x42" by (simp add: vbyte_def)
  have "dmem_cell (3 + of_nat 16) \<noteq> dmem_cell (3 + of_nat i)" if "i < 16" for i
    using that by (subst dmem_cell_of_nat_eq) auto
  then have "rd8 s2 19 = rd8 ?s 19" using s(3) by simp
  then have b: "rd8 s2 19 = 0" by (simp add: rd8_def rsp_init_def)
  from a b s(1) show ?thesis by (auto simp: Let_def)
qed

lemma u8_shift: "sh = 7 \<or> sh = 8 \<Longrightarrow> ucast (drop_bit sh (push_bit sh (ucast (b :: u8)) :: u16)) = b"
  by (rule bit_word_eqI) (auto simp: bit_simps)

lemma and_7_inj: "i < 8 \<Longrightarrow> j < 8 \<Longrightarrow> (e + i) AND 7 = (e + j) AND (7 :: nat) \<longleftrightarrow> i = j"
  unfolding nat_and_7 by (rule add_mod_cancel)

lemma rsp_mem_load_packed: "rsp_mem (load_packed vt e ea sh s) = rsp_mem s"
  unfolding load_packed_def
  by (rule copy_loop_inv [where P = "\<lambda>t. rsp_mem t = rsp_mem s"]) (simp_all add: set_v_def)

lemma rsp_r_load_packed: "rsp_r (load_packed vt e ea sh s) = rsp_r s"
  unfolding load_packed_def
  by (rule copy_loop_inv [where P = "\<lambda>t. rsp_r t = rsp_r s"]) (simp_all add: set_v_def)

lemma packed_read:
  assumes "i < 8"
  shows "rsp_v (load_packed vt e ea sh s) vt ((e + i) AND 7) = push_bit sh (ucast (rd8 s (ea + of_nat i)))"
  unfolding load_packed_def
  using assms and_7_inj by (intro pload.get_copy_written) (auto simp: distinct_map inj_on_def)

lemma wr8_same: "wr8 s a (rd8 s a) = s"
  by (simp add: wr8_def rd8_def)

lemma copy_loop_same:
  assumes "\<forall>x \<in> set xs. put s (f x) (src s (g x)) = s"
  shows "copy_loop put src f g xs s = s"
  using assms by (induction xs) (simp_all add: copy_loop_Cons)




subsection \<open>Frames and refusals\<close>

lemma set_v_frame: "(set_v s vt i x)\<lparr>rsp_v := w\<rparr> = s\<lparr>rsp_v := w\<rparr>"
  by (simp add: set_v_def)

lemma set_vbyte_frame: "(set_vbyte s vt i b)\<lparr>rsp_v := w\<rparr> = s\<lparr>rsp_v := w\<rparr>"
  by (simp add: set_vbyte_eq set_v_def)

lemma wr8_same_but: "(wr8 s a b)\<lparr>rsp_mem := m\<rparr> = s\<lparr>rsp_mem := m\<rparr>" "4096 \<le> i \<Longrightarrow> rsp_mem (wr8 s a b) i = rsp_mem s i"
  using unat_and_0xfff_less [of a] by (auto simp: wr8_def simp del: unat_and_0xfff_less)

lemma load_loops_frame:
  "(load_bytes vt e ea n s)\<lparr>rsp_v := w\<rparr> = s\<lparr>rsp_v := w\<rparr>"
  "(load_right vt e ea s)\<lparr>rsp_v := w\<rparr> = s\<lparr>rsp_v := w\<rparr>"
  "(load_packed vt e ea sh s)\<lparr>rsp_v := w\<rparr> = s\<lparr>rsp_v := w\<rparr>"
  "(load_transpose vt ea s)\<lparr>rsp_v := w\<rparr> = s\<lparr>rsp_v := w\<rparr>"
  unfolding load_bytes_def load_right_def load_packed_def load_transpose_def Let_def
  by (rule copy_loop_inv [where P = "\<lambda>t. t\<lparr>rsp_v := w\<rparr> = s\<lparr>rsp_v := w\<rparr>"];
      simp only: set_v_frame set_vbyte_frame)+

definition same_but_dmem :: "rsp_t \<Rightarrow> rsp_t \<Rightarrow> bool" where
  "same_but_dmem s t \<longleftrightarrow> t\<lparr>rsp_mem := rsp_mem s\<rparr> = s \<and> (\<forall>i \<ge> 4096. rsp_mem t i = rsp_mem s i)"

lemma same_but_dmem_refl [intro, simp]: "same_but_dmem s s"
  by (simp add: same_but_dmem_def)

lemma same_but_dmem_wr8 [intro]: "same_but_dmem s t \<Longrightarrow> same_but_dmem s (wr8 t a b)"
  by (auto simp: same_but_dmem_def wr8_same_but)

lemma store_loops_frame:
  "same_but_dmem s (store_bytes vt e ea n s)" "same_but_dmem s (store_right vt e ea s)"
  "same_but_dmem s (store_packed vt e ea sh s)"
  unfolding store_bytes_def store_right_def store_packed_def Let_def
  by (rule copy_loop_inv [where P = "same_but_dmem s"]; blast)+

lemma lwc2_frame: "lwc2 s insn = Inr s' \<Longrightarrow> s'\<lparr>rsp_v := rsp_v s\<rparr> = s"
  by (auto simp: lwc2_def Let_def rsp_die_def load_loops_frame set_vbyte_frame split: if_splits)

lemma swc2_frame: "swc2 s insn = Inr s' \<Longrightarrow> same_but_dmem s s'"
  by (auto simp: swc2_def Let_def rsp_die_def store_loops_frame split: if_splits)

text \<open>
  C31: A vector load changes nothing but the vector registers, a vector store nothing but DMEM; a
  load stops the program exactly on an opcode outside its table or a transpose with a
  diagonal, a store exactly on an opcode outside its table, with the source's reason.
\<close>

theorem vmem_effects_and_refusals:
  "(case lwc2 s insn of
      Inr s' \<Rightarrow> s'\<lparr>rsp_v := rsp_v s\<rparr> = s \<and> (f_rd insn < 8 \<or> f_rd insn = 11 \<and> f_e7 insn < 2)
    | Inl d \<Rightarrow> \<not> (f_rd insn < 8 \<or> f_rd insn = 11 \<and> f_e7 insn < 2) \<and>
        d = Rsp_die (if f_rd insn = 11 then Die_ltv (f_e7 insn div 2) else Die_vec_load (f_rd insn)) (rsp_pc s)) \<and>
   (case swc2 s insn of
      Inr s' \<Rightarrow> same_but_dmem s s' \<and> f_rd insn < 8
    | Inl d \<Rightarrow> \<not> f_rd insn < 8 \<and> d = Rsp_die (Die_vec_store (f_rd insn)) (rsp_pc s))"
proof -
  have ops: "op < 8 \<longleftrightarrow> op = 0 \<or> op = 1 \<or> op = 2 \<or> op = 3 \<or> op = 4 \<or> op = 5 \<or> op = 6 \<or> op = 7" for op :: nat
    by auto
  have l: "case lwc2 s insn of Inr s' \<Rightarrow> f_rd insn < 8 \<or> f_rd insn = 11 \<and> f_e7 insn < 2
    | Inl d \<Rightarrow> \<not> (f_rd insn < 8 \<or> f_rd insn = 11 \<and> f_e7 insn < 2) \<and>
        d = Rsp_die (if f_rd insn = 11 then Die_ltv (f_e7 insn div 2) else Die_vec_load (f_rd insn)) (rsp_pc s)"
    by (auto simp: lwc2_def Let_def rsp_die_def ops drop_bit_eq_div)
  have t: "case swc2 s insn of Inr s' \<Rightarrow> f_rd insn < 8
    | Inl d \<Rightarrow> \<not> f_rd insn < 8 \<and> d = Rsp_die (Die_vec_store (f_rd insn)) (rsp_pc s)"
    by (auto simp: swc2_def Let_def rsp_die_def ops)
  show ?thesis
    using l t lwc2_frame [of s insn] swc2_frame [of s insn] by (auto split: sum.splits)
qed

end
