(* ===== verification/Rsp_Interp.thy ===== *)
theory Rsp_Interp
  imports Rsp_Sp Rsp_Vmem
begin

text \<open>
  The interpreter \<open>rsp_t::run\<close> (\<open>rsp.cc\<close>, lines 542 to 649): fetch, the scalar core one opcode
  at a time, the delay slot, and the loop, which the runaway guard makes total.
\<close>

subsection \<open>Executing one instruction\<close>

definition fetch_at :: "rsp_t \<Rightarrow> u32 \<Rightarrow> u32" where
  "fetch_at s pc =
    push_bit 24 (ucast (rsp_mem s (0x1000 + unat pc))) OR push_bit 16 (ucast (rsp_mem s (0x1001 + unat pc))) OR
    push_bit 8 (ucast (rsp_mem s (0x1002 + unat pc))) OR ucast (rsp_mem s (0x1003 + unat pc))"

text \<open>\<open>(next_pc + 4) & 0xffc\<close>: where control falls through to, and the link address.\<close>

definition pc_after :: "u32 \<Rightarrow> u32" where
  "pc_after next_pc = (next_pc + 4) AND 0xffc"

definition branch_target :: "u32 \<Rightarrow> u32 \<Rightarrow> u32" where
  "branch_target insn next_pc = (next_pc + push_bit 2 (f_simm insn)) AND 0xffc"

definition jump_target :: "u32 \<Rightarrow> u32" where
  "jump_target insn = push_bit 2 insn AND 0xffc"

definition bool_u32 :: "bool \<Rightarrow> u32" where
  "bool_u32 b = (if b then 1 else 0)"

text \<open>
  Every case returns the new state and the value of \<open>after\<close>, the pc that follows the
  instruction at \<open>next_pc\<close>.
\<close>

definition exec_special :: "rsp_t \<Rightarrow> u32 \<Rightarrow> u32 \<Rightarrow> rsp_err + rsp_t \<times> u32" where
  "exec_special s insn next_pc =
    (let rs = rsp_r s (f_rs insn); rt = rsp_r s (f_rt insn); rd = f_rd insn; sa = f_sa insn;
         fn = f_fn insn; after = pc_after next_pc;
         vsa = unat (rs AND 31)
     in if fn = 0x00 then Inr (set_r s rd (push_bit sa rt), after)
        else if fn = 0x02 then Inr (set_r s rd (drop_bit sa rt), after)
        else if fn = 0x03 then Inr (set_r s rd (signed_drop_bit sa rt), after)
        else if fn = 0x04 then Inr (set_r s rd (push_bit vsa rt), after)
        else if fn = 0x06 then Inr (set_r s rd (drop_bit vsa rt), after)
        else if fn = 0x07 then Inr (set_r s rd (signed_drop_bit vsa rt), after)
        else if fn = 0x08 then Inr (s, rs AND 0xffc)
        else if fn = 0x09 then Inr (set_r s rd (pc_after next_pc), rs AND 0xffc)
        else if fn = 0x0d then Inr (s\<lparr>halted := True\<rparr>, after)
        else if fn = 0x20 \<or> fn = 0x21 then Inr (set_r s rd (rs + rt), after)
        else if fn = 0x22 \<or> fn = 0x23 then Inr (set_r s rd (rs - rt), after)
        else if fn = 0x24 then Inr (set_r s rd (rs AND rt), after)
        else if fn = 0x25 then Inr (set_r s rd (rs OR rt), after)
        else if fn = 0x26 then Inr (set_r s rd (rs XOR rt), after)
        else if fn = 0x27 then Inr (set_r s rd (NOT (rs OR rt)), after)
        else if fn = 0x2a then Inr (set_r s rd (bool_u32 (rs <s rt)), after)
        else if fn = 0x2b then Inr (set_r s rd (bool_u32 (rs < rt)), after)
        else rsp_die s (Die_special fn))"

definition exec_regimm :: "rsp_t \<Rightarrow> u32 \<Rightarrow> u32 \<Rightarrow> rsp_err + rsp_t \<times> u32" where
  "exec_regimm s insn next_pc =
    (let ltz = rsp_r s (f_rs insn) <s 0; rt = f_rt insn;
         s = (if rt AND 0x10 \<noteq> 0 then set_r s 31 (pc_after next_pc) else s)
     in Inr (s, if (if rt AND 1 \<noteq> 0 then \<not> ltz else ltz) then branch_target insn next_pc
                else pc_after next_pc))"

definition exec_branch :: "rsp_t \<Rightarrow> u32 \<Rightarrow> u32 \<Rightarrow> bool \<Rightarrow> rsp_err + rsp_t \<times> u32" where
  "exec_branch s insn next_pc taken =
    Inr (s, if taken then branch_target insn next_pc else pc_after next_pc)"

definition exec_cop0 :: "rsp_t \<Rightarrow> u32 \<Rightarrow> rsp_err + rsp_t" where
  "exec_cop0 s insn =
    (if f_rs insn = 0 then
       (case mfc0 s (f_rd insn) of Inl d \<Rightarrow> Inl d | Inr x \<Rightarrow> Inr (set_r s (f_rt insn) x))
     else if f_rs insn = 4 then mtc0 s (f_rd insn) (rsp_r s (f_rt insn))
     else rsp_die s (Die_cop0 insn))"

definition fall_through :: "rsp_err + rsp_t \<Rightarrow> u32 \<Rightarrow> rsp_err + rsp_t \<times> u32" where
  "fall_through res next_pc = (case res of Inl d \<Rightarrow> Inl d | Inr s \<Rightarrow> Inr (s, pc_after next_pc))"

text \<open>The opcodes without a control effect that never stop the program.\<close>

definition exec_plain :: "rsp_t \<Rightarrow> u32 \<Rightarrow> rsp_t option" where
  "exec_plain s insn =
    (let op = f_op insn; rs = rsp_r s (f_rs insn); rt = f_rt insn; simm = f_simm insn; uimm = f_uimm insn;
         ea = rs + simm
     in if op = 0x08 \<or> op = 0x09 then Some (set_r s rt (rs + simm))
        else if op = 0x0a then Some (set_r s rt (bool_u32 (rs <s simm)))
        else if op = 0x0b then Some (set_r s rt (bool_u32 (rs < simm)))
        else if op = 0x0c then Some (set_r s rt (rs AND uimm))
        else if op = 0x0d then Some (set_r s rt (rs OR uimm))
        else if op = 0x0e then Some (set_r s rt (rs XOR uimm))
        else if op = 0x0f then Some (set_r s rt (push_bit 16 uimm))
        else if op = 0x20 then Some (set_r s rt (scast (rd8 s ea)))
        else if op = 0x21 then Some (set_r s rt (scast (rd16 s ea)))
        else if op = 0x23 then Some (set_r s rt (rd32 s ea))
        else if op = 0x24 then Some (set_r s rt (ucast (rd8 s ea)))
        else if op = 0x25 then Some (set_r s rt (ucast (rd16 s ea)))
        else if op = 0x28 then Some (wr8 s ea (ucast (rsp_r s rt)))
        else if op = 0x29 then Some (wr16 s ea (ucast (rsp_r s rt)))
        else if op = 0x2b then Some (wr32 s ea (rsp_r s rt))
        else None)"

definition exec :: "rsp_t \<Rightarrow> u32 \<Rightarrow> u32 \<Rightarrow> rsp_err + rsp_t \<times> u32" where
  "exec s insn next_pc =
    (let op = f_op insn; rs = rsp_r s (f_rs insn); rt = rsp_r s (f_rt insn)
     in if op = 0x00 then exec_special s insn next_pc
        else if op = 0x01 then exec_regimm s insn next_pc
        else if op = 0x02 then Inr (s, jump_target insn)
        else if op = 0x03 then Inr (set_r s 31 (pc_after next_pc), jump_target insn)
        else if op = 0x04 then exec_branch s insn next_pc (rs = rt)
        else if op = 0x05 then exec_branch s insn next_pc (rs \<noteq> rt)
        else if op = 0x06 then exec_branch s insn next_pc (rs <=s 0)
        else if op = 0x07 then exec_branch s insn next_pc (0 <s rs)
        else if op = 0x10 then fall_through (exec_cop0 s insn) next_pc
        else if op = 0x12 then fall_through (cop2 s insn) next_pc
        else if op = 0x32 then fall_through (lwc2 s insn) next_pc
        else if op = 0x3a then fall_through (swc2 s insn) next_pc
        else case exec_plain s insn of
            Some s \<Rightarrow> Inr (s, pc_after next_pc)
          | None \<Rightarrow> rsp_die s (Die_opcode op insn))"

subsection \<open>The loop\<close>

text \<open>One turn of \<open>while(not(halted))\<close>, on the state and the local \<open>next_pc\<close>.\<close>

definition step :: "rsp_t \<Rightarrow> u32 \<Rightarrow> rsp_err + rsp_t \<times> u32" where
  "step s next_pc =
    (case exec (s\<lparr>n_insns := n_insns s + 1\<rparr>) (fetch_at s (rsp_pc s)) next_pc of
       Inl d \<Rightarrow> Inl d
     | Inr (s, after) \<Rightarrow>
         (let s = (set_r s 0 0)\<lparr>rsp_pc := next_pc\<rparr>
          in if push_bit 40 1 < n_insns s then rsp_die s Die_runaway else Inr (s, after)))"

subsection \<open>What an instruction leaves alone\<close>

lemma set_r_frame [simp]:
  "rsp_pc (set_r s i x) = rsp_pc s" "rsp_mem (set_r s i x) = rsp_mem s" "rsp_v (set_r s i x) = rsp_v s"
  "rsp_acc (set_r s i x) = rsp_acc s" "sp_mem_addr (set_r s i x) = sp_mem_addr s"
  "sp_dram_addr (set_r s i x) = sp_dram_addr s" "sp_status (set_r s i x) = sp_status s"
  "imem_gen (set_r s i x) = imem_gen s" "halted (set_r s i x) = halted s" "rdram (set_r s i x) = rdram s"
  "n_insns (set_r s i x) = n_insns s" "rsp_r (set_r s i x) = (rsp_r s)(i := x)"
  by (simp_all add: set_r_def)

text \<open>
  The registers with a range: the accumulators are 48-bit numbers sign-extended, and the two
  DMA address registers hold addresses of the memories they point into.
\<close>

definition rsp_wf :: "rsp_t \<Rightarrow> bool" where
  "rsp_wf s \<longleftrightarrow> (\<forall>i. acc48 (rsp_acc s i)) \<and> unat (sp_mem_addr s) < 0x2000 \<and> unat (sp_dram_addr s) < 2 ^ 24"

definition pc_ok :: "u32 \<Rightarrow> bool" where
  "pc_ok p \<longleftrightarrow> p AND 0xffc = p"

text \<open>
  The relation between the states around one operation: the counter and the pc stay, the
  registers keep their ranges, and instruction memory only changes when \<open>imem_gen\<close> moves.
\<close>

definition op_frame :: "rsp_t \<Rightarrow> rsp_t \<Rightarrow> bool" where
  "op_frame s t \<longleftrightarrow> n_insns t = n_insns s \<and> rsp_pc t = rsp_pc s \<and> halted t = halted s \<and> (rsp_wf s \<longrightarrow> rsp_wf t) \<and>
    (imem_gen t = imem_gen s \<longrightarrow> (\<forall>i \<ge> 4096. rsp_mem t i = rsp_mem s i))"

lemma op_frame_refl [intro, simp]: "op_frame s s"
  by (simp add: op_frame_def)

lemma op_frame_set_r [simp]: "op_frame s (set_r s i x)"
  by (simp add: op_frame_def rsp_wf_def)

lemma op_frame_same_but_dmem: "same_but_dmem s t \<Longrightarrow> op_frame s t"
proof -
  assume s: "same_but_dmem s t"
  then have "t = s\<lparr>rsp_mem := rsp_mem t\<rparr>" unfolding same_but_dmem_def by (metis rsp_t.surjective rsp_t.update_convs(3))
  then obtain m where "t = s\<lparr>rsp_mem := m\<rparr>" by blast
  with s show ?thesis by (simp add: op_frame_def rsp_wf_def same_but_dmem_def)
qed

lemma op_frame_same_but_v: "t\<lparr>rsp_v := rsp_v s\<rparr> = s \<Longrightarrow> op_frame s t"
proof -
  assume s: "t\<lparr>rsp_v := rsp_v s\<rparr> = s"
  then have "t = s\<lparr>rsp_v := rsp_v t\<rparr>" by (metis rsp_t.surjective rsp_t.update_convs(4))
  then obtain m where "t = s\<lparr>rsp_v := m\<rparr>" by blast
  then show ?thesis by (simp add: op_frame_def rsp_wf_def)
qed

lemma op_frame_stores: "op_frame s (wr8 s a b)" "op_frame s (wr16 s a y)" "op_frame s (wr32 s a x)"
  unfolding wr16_def wr32_def Let_def
  by (rule op_frame_same_but_dmem, intro same_but_dmem_wr8 same_but_dmem_refl)+

lemma op_frame_trans: "op_frame s t \<Longrightarrow> op_frame t u \<Longrightarrow> imem_gen t = imem_gen s \<Longrightarrow> op_frame s u"
  by (simp add: op_frame_def)

lemma op_frame_set_vbyte: "op_frame s (set_vbyte s vt i b)" "op_frame s (set_vbyte (set_vbyte s vt i b) vt j c)"
  by (rule op_frame_same_but_v, simp add: set_vbyte_frame)+

lemma op_frame_set_vflags: "op_frame s (set_vflags s which v)"
  unfolding set_vflags_def
  by (rule fold_invariant [where Q = "\<lambda>_. True" and P = "op_frame s"])
     (auto simp: op_frame_def rsp_wf_def Let_def set_flag_lo_def set_flag_hi_def)

lemma op_frame_cop2_move: "cop2_move s insn = Inr t \<Longrightarrow> op_frame s t"
  by (auto simp: cop2_move_def Let_def rsp_die_def op_frame_set_vflags op_frame_set_vbyte split: if_splits)

lemma dma_gen_moves: "sp_mem_addr s AND 0x1000 = 0x1000 \<Longrightarrow> imem_gen (dma s L True) \<noteq> imem_gen s"
proof -
  have "(of_nat n :: u64) \<noteq> 0" if "1 \<le> n" "n \<le> 256" for n
    using that by (simp add: word_unat_eq_iff unat_of_nat)
  from this [OF dma_count_bounds] have "(of_nat (unat (dma_count L)) :: u64) \<noteq> 0" .
  then show "sp_mem_addr s AND 0x1000 = 0x1000 \<Longrightarrow> ?thesis"
    using dma_frame [of s L True] by simp
qed

lemma op_frame_dma: "op_frame s (dma s L to_rsp)"
proof -
  let ?t = "dma s L to_rsp" and ?bank = "sp_mem_addr s AND 0x1000"
  note frame = dma_frame [of s L to_rsp]
  then have eq: "?t\<lparr>rsp_mem := m, imem_gen := g, rdram := d, sp_mem_addr := a, sp_dram_addr := b\<rparr>
      = s\<lparr>rsp_mem := m, imem_gen := g, rdram := d, sp_mem_addr := a, sp_dram_addr := b\<rparr>" for m g d a b
    by blast
  have "n_insns ?t = n_insns s" "rsp_pc ?t = rsp_pc s" "rsp_acc ?t = rsp_acc s" "halted ?t = halted s"
    using arg_cong [OF eq, of n_insns] arg_cong [OF eq, of rsp_pc] arg_cong [OF eq, of rsp_acc]
      arg_cong [OF eq, of halted] by simp_all
  moreover have "\<forall>i \<ge> 4096. rsp_mem ?t i = rsp_mem s i" if "imem_gen ?t = imem_gen s"
  proof (cases "to_rsp \<and> ?bank = 0x1000")
    case True
    then show ?thesis using that dma_gen_moves [of s L] by simp
  next
    case False
    then have "to_rsp \<longrightarrow> ?bank = 0" using dma_start_bounds(2) [of "sp_mem_addr s"] by auto
    then show ?thesis using frame by (cases to_rsp) auto
  qed
  ultimately show ?thesis
    using frame by (simp add: op_frame_def rsp_wf_def)
qed

lemma op_frame_mtc0: "mtc0 s rd x = Inr t \<Longrightarrow> op_frame s t"
proof -
  have "op_frame s (s\<lparr>sp_mem_addr := x AND 0x1fff\<rparr>)" "op_frame s (s\<lparr>sp_dram_addr := x AND 0xffffff\<rparr>)"
    "op_frame s (apply_status_write s x)"
    by (simp_all add: op_frame_def rsp_wf_def apply_status_write_def mask_simps unat_take_bit)
  then show "mtc0 s rd x = Inr t \<Longrightarrow> op_frame s t"
    by (auto simp: mtc0_def rsp_die_def op_frame_dma split: if_splits)
qed

lemma cop2_lanes_Inr_op:
  assumes "cop2_lanes insn (i # is) res s = Inr r"
  obtains f where "vec_op (f_fn insn) (drop_bit 21 insn AND 15) = Some f"
  using assms by (auto simp: Let_def rsp_die_def split: option.splits)

lemma cop2_Inr_op:
  assumes "cop2 s insn = Inr t" and "drop_bit 25 insn AND 1 \<noteq> (0 :: u32)"
  obtains f where "vec_op (f_fn insn) (drop_bit 21 insn AND 15) = Some f"
proof -
  have "[0..<8] = 0 # [1..<8]" by (simp add: upt_rec)
  then show ?thesis
    using assms that by (auto simp: cop2_def simp del: cop2_lanes.simps elim!: cop2_lanes_Inr_op split: sum.splits)
qed

lemma op_frame_cop2: "cop2 s insn = Inr t \<Longrightarrow> op_frame s t"
proof (cases "drop_bit 25 insn AND 1 = (0 :: u32)")
  case True
  then show "cop2 s insn = Inr t \<Longrightarrow> ?thesis" by (simp add: cop2_def op_frame_cop2_move)
next
  case False
  assume t: "cop2 s insn = Inr t"
  obtain f where f: "vec_op (f_fn insn) (drop_bit 21 insn AND 15) = Some f"
    using cop2_Inr_op [OF t False] .
  from cop2_op [OF False f, of s] t have nv: "non_vector t = non_vector s"
    and lanes: "\<forall>i. i < 8 \<longrightarrow> get_lane t i = snd (lane_result f insn s i)"
      "\<forall>i. 8 \<le> i \<longrightarrow> get_lane t i = get_lane s i"
    by auto
  have acc: "rsp_acc u i = ln_acc (get_lane u i)" for u i by (simp add: get_lane_def)
  have "acc48 (rsp_acc t i)" if "\<forall>i. acc48 (rsp_acc s i)" for i
    using that lanes vec_op_acc48 [OF f] unfolding acc lane_result_def by (cases "i < 8") auto
  moreover have "n_insns t = n_insns s" "rsp_pc t = rsp_pc s" "halted t = halted s" "rsp_mem t = rsp_mem s"
    "sp_mem_addr t = sp_mem_addr s" "sp_dram_addr t = sp_dram_addr s"
    using arg_cong [OF nv, of n_insns] arg_cong [OF nv, of rsp_pc] arg_cong [OF nv, of halted]
      arg_cong [OF nv, of rsp_mem] arg_cong [OF nv, of sp_mem_addr] arg_cong [OF nv, of sp_dram_addr]
    by (simp_all add: non_vector_def)
  ultimately show ?thesis by (simp add: op_frame_def rsp_wf_def)
qed

lemma pc_ok_mask [simp]: "pc_ok (x AND 0xffc)"
  by (simp add: pc_ok_def ac_simps)

lemma pc_ok_targets [simp]: "pc_ok (pc_after p)" "pc_ok (branch_target insn p)" "pc_ok (jump_target insn)"
  by (simp_all add: pc_after_def branch_target_def jump_target_def)

text \<open>What \<open>exec\<close> promises of every instruction: the frame, with \<open>break\<close> the only one to halt.\<close>

definition exec_frame :: "rsp_t \<Rightarrow> u32 \<Rightarrow> rsp_t \<times> u32 \<Rightarrow> bool" where
  "exec_frame s insn = (\<lambda>(t, after). op_frame s (t\<lparr>halted := halted s\<rparr>) \<and> pc_ok after \<and>
    (halted t \<longleftrightarrow> halted s \<or> (f_op insn = 0 \<and> f_fn insn = 0x0d)))"

lemma rsp_wf_halted [simp]: "rsp_wf (t\<lparr>halted := b\<rparr>) = rsp_wf t"
  by (simp add: rsp_wf_def)

lemma exec_frameI: "op_frame s t \<Longrightarrow> pc_ok after \<Longrightarrow> \<not> (f_op insn = 0 \<and> f_fn insn = 0x0d) \<Longrightarrow> exec_frame s insn (t, after)"
  by (auto simp: exec_frame_def op_frame_def)

text \<open>A predicate on the results that are not errors.\<close>

definition on_Inr :: "('a \<Rightarrow> bool) \<Rightarrow> 'e + 'a \<Rightarrow> bool" where
  "on_Inr P x = (case x of Inl _ \<Rightarrow> True | Inr r \<Rightarrow> P r)"

lemma on_Inr_simps [simp]:
  "on_Inr P (Inl e)" "on_Inr P (Inr r) = P r" "on_Inr P (rsp_die s d)"
  by (simp_all add: on_Inr_def rsp_die_def)

lemma on_Inr_if: "(c \<Longrightarrow> on_Inr P a) \<Longrightarrow> (\<not> c \<Longrightarrow> on_Inr P b) \<Longrightarrow> on_Inr P (if c then a else b)"
  by simp

lemma on_InrD: "on_Inr P x \<Longrightarrow> x = Inr r \<Longrightarrow> P r"
  by simp

lemma on_InrI: "(\<And>r. x = Inr r \<Longrightarrow> P r) \<Longrightarrow> on_Inr P x"
  by (cases x) auto

lemma exec_frame_break:
  "f_op insn = 0 \<Longrightarrow> f_fn insn = 0x0d \<Longrightarrow> exec_frame s insn (s\<lparr>halted := True\<rparr>, pc_after np)"
  by (simp add: exec_frame_def op_frame_def)

lemma exec_special_frame: "f_op insn = 0 \<Longrightarrow> on_Inr (exec_frame s insn) (exec_special s insn np)"
  unfolding exec_special_def Let_def
  by (intro on_Inr_if) (simp_all add: exec_frameI exec_frame_break)

lemma exec_cop0_frame: "exec_cop0 s insn = Inr t \<Longrightarrow> op_frame s t"
  by (auto simp: exec_cop0_def rsp_die_def op_frame_mtc0 split: if_splits sum.splits)

lemma exec_plain_frame: "exec_plain s insn = Some t \<Longrightarrow> op_frame s t"
  by (auto simp: exec_plain_def Let_def op_frame_stores split: if_split_asm)

lemma fall_through_frame:
  "f_op insn \<noteq> 0 \<Longrightarrow> on_Inr (op_frame s) res \<Longrightarrow> on_Inr (exec_frame s insn) (fall_through res np)"
  by (cases res) (simp_all add: fall_through_def exec_frameI)

lemma exec_keeps_frame: "on_Inr (exec_frame s insn) (exec s insn np)"
proof -
  have frames: "on_Inr (op_frame s) (exec_cop0 s insn)" "on_Inr (op_frame s) (cop2 s insn)"
    "on_Inr (op_frame s) (lwc2 s insn)" "on_Inr (op_frame s) (swc2 s insn)"
    by (rule on_InrI, erule exec_cop0_frame op_frame_cop2 lwc2_frame [THEN op_frame_same_but_v]
      swc2_frame [THEN op_frame_same_but_dmem])+
  have regimm: "on_Inr (exec_frame s insn) (exec_regimm s insn np)" if "f_op insn \<noteq> 0"
    using that by (auto simp: exec_regimm_def Let_def intro!: exec_frameI)
  have branch: "on_Inr (exec_frame s insn) (exec_branch s insn np b)" if "f_op insn \<noteq> 0" for b
    using that by (auto simp: exec_branch_def intro!: exec_frameI)
  have plain: "on_Inr (exec_frame s insn) (case exec_plain s insn of Some s \<Rightarrow> Inr (s, pc_after np)
      | None \<Rightarrow> rsp_die s (Die_opcode (f_op insn) insn))" if "f_op insn \<noteq> 0"
    using that exec_plain_frame [of s insn] by (auto intro!: exec_frameI split: option.splits)
  show ?thesis
    unfolding exec_def Let_def
    by (intro on_Inr_if exec_special_frame regimm branch fall_through_frame frames plain)
       (simp_all add: exec_frameI)
qed


subsection \<open>The loop, and why it ends\<close>

text \<open>
  \<open>run\<close> after its first two assignments.  The loop is total because the counter moves by one
  in every turn and stops the program past \<open>2 ^ 40\<close>; a counter that starts beyond the bound
  stops in the first turn, unless that turn wraps it to zero.
\<close>

definition run_fuel :: "u64 \<Rightarrow> nat" where
  "run_fuel n = (if unat n \<le> 2 ^ 40 then 2 ^ 40 + 1 - unat n else 2 ^ 40 + 2)"

lemma run_fuel_decreases: "\<not> push_bit 40 1 < n + 1 \<Longrightarrow> run_fuel (n + 1) < run_fuel n"
proof -
  assume a: "\<not> push_bit 40 1 < n + 1"
  have u: "unat (n + 1) = (if unat n = 2 ^ 64 - 1 then 0 else unat n + 1)"
  proof -
    have "unat n < 2 ^ 64" using unsigned_less [of n, where 'a = nat] by simp
    then show ?thesis by (auto simp: unat_word_ariths)
  qed
  from a have "unat (n + 1) \<le> 2 ^ 40" by (simp add: word_less_nat_alt not_less)
  with u show ?thesis by (auto simp: run_fuel_def split: if_splits)
qed

lemma step_Inr:
  assumes "step s next_pc = Inr (t, after)"
  shows "n_insns t = n_insns s + 1" "\<not> push_bit 40 1 < n_insns t"
    "rsp_pc t = next_pc" "pc_ok after" "rsp_r t 0 = 0"
    "rsp_wf s \<Longrightarrow> rsp_wf t"
    "halted t \<longleftrightarrow> halted s \<or> (f_op (fetch_at s (rsp_pc s)) = 0 \<and> f_fn (fetch_at s (rsp_pc s)) = 0x0d)"
    "imem_gen t = imem_gen s \<Longrightarrow> \<forall>i \<ge> 4096. rsp_mem t i = rsp_mem s i"
proof -
  let ?s = "s\<lparr>n_insns := n_insns s + 1\<rparr>" and ?insn = "fetch_at s (rsp_pc s)"
  obtain u where e: "exec ?s ?insn next_pc = Inr (u, after)"
    and t: "t = (set_r u 0 0)\<lparr>rsp_pc := next_pc\<rparr>" "\<not> push_bit 40 1 < n_insns u"
    using assms by (auto simp: step_def Let_def rsp_die_def split: sum.splits if_splits)
  have f: "exec_frame ?s ?insn (u, after)"
    using on_InrD [OF exec_keeps_frame e] .
  have wf: "rsp_wf ?s = rsp_wf s" "rsp_wf t = rsp_wf u" by (simp_all add: rsp_wf_def t)
  from f t(2) show "n_insns t = n_insns s + 1" "\<not> push_bit 40 1 < n_insns t" "rsp_pc t = next_pc" "pc_ok after"
    "rsp_r t 0 = 0" "rsp_wf s \<Longrightarrow> rsp_wf t"
    "halted t \<longleftrightarrow> halted s \<or> (f_op ?insn = 0 \<and> f_fn ?insn = 0x0d)"
    "imem_gen t = imem_gen s \<Longrightarrow> \<forall>i \<ge> 4096. rsp_mem t i = rsp_mem s i"
    unfolding wf by (simp_all add: exec_frame_def op_frame_def t(1) wf)
qed

function run_loop :: "rsp_t \<Rightarrow> u32 \<Rightarrow> rsp_err + rsp_t" where
  "run_loop s next_pc =
    (if halted s then Inr s
     else case step s next_pc of
            Inl d \<Rightarrow> Inl d
          | Inr (s, next_pc) \<Rightarrow> run_loop s next_pc)"
  by pat_completeness auto

termination run_loop
proof (relation "measure (\<lambda>(s, next_pc). run_fuel (n_insns s))")
  fix s next_pc r t after
  assume "step s next_pc = Inr r" "(t, after) = r"
  then have "step s next_pc = Inr (t, after)" by simp
  from step_Inr(1,2) [OF this] show "((t, after), s, next_pc) \<in> measure (\<lambda>(s, next_pc). run_fuel (n_insns s))"
    using run_fuel_decreases [of "n_insns s"] by simp
qed simp

declare run_loop.simps [simp del]

definition run :: "rsp_t \<Rightarrow> u32 \<Rightarrow> rsp_err + rsp_t" where
  "run s start_pc =
    (let s = s\<lparr>rsp_pc := start_pc AND 0xffc, halted := False\<rparr>
     in run_loop s ((rsp_pc s + 4) AND 0xffc))"

subsection \<open>Reachable states\<close>

text \<open>The states the loop passes through, with the local \<open>next_pc\<close>.\<close>

inductive reaches :: "rsp_t \<Rightarrow> u32 \<Rightarrow> rsp_t \<Rightarrow> u32 \<Rightarrow> bool" where
  here: "reaches s next_pc s next_pc"
| turn: "\<not> halted s \<Longrightarrow> step s next_pc = Inr (t, after) \<Longrightarrow> reaches t after u p \<Longrightarrow> reaches s next_pc u p"

lemma run_loop_reaches:
  "run_loop s next_pc = Inr t \<Longrightarrow> halted t \<and> (\<exists>p. reaches s next_pc t p)"
proof (induction s next_pc rule: run_loop.induct)
  case (1 s next_pc)
  show ?case
  proof (cases "halted s")
    case True
    with 1(2) show ?thesis by (auto simp: run_loop.simps [of s] intro: here)
  next
    case False
    with 1(2) obtain u after where u: "step s next_pc = Inr (u, after)" "run_loop u after = Inr t"
      by (auto simp: run_loop.simps [of s] split: sum.splits)
    from 1(1) [OF False u(1) refl u(2)] turn [OF False u(1)] show ?thesis by blast
  qed
qed

definition run_inv :: "rsp_t \<Rightarrow> u32 \<Rightarrow> bool" where
  "run_inv s next_pc \<longleftrightarrow> rsp_wf s \<and> rsp_r s 0 = 0 \<and> pc_ok (rsp_pc s) \<and> pc_ok next_pc"

lemma step_run_inv: "run_inv s next_pc \<Longrightarrow> step s next_pc = Inr (t, after) \<Longrightarrow> run_inv t after"
  by (simp add: run_inv_def step_Inr)

lemma reaches_run_inv: "reaches s next_pc t p \<Longrightarrow> run_inv s next_pc \<Longrightarrow> run_inv t p"
  by (induction rule: reaches.induct) (auto intro: step_run_inv)

text \<open>
  C7: In every state a task passes through, register 0 is zero, the pc and the pc after it are
  word addresses inside IMEM, the accumulators are 48-bit numbers and the DMA address
  registers point into their memories; a task that ends has halted.
\<close>

theorem run_keeps_machine_well_formed:
  assumes "rsp_wf s" and "rsp_r s 0 = 0"
  shows "(\<forall>t p. reaches (s\<lparr>rsp_pc := start_pc AND 0xffc, halted := False\<rparr>)
        (((start_pc AND 0xffc) + 4) AND 0xffc) t p \<longrightarrow> run_inv t p) \<and>
    (\<forall>t. run s start_pc = Inr t \<longrightarrow> halted t \<and> (\<exists>p. run_inv t p))"
proof -
  let ?s0 = "s\<lparr>rsp_pc := start_pc AND 0xffc, halted := False\<rparr>"
  let ?np = "((start_pc AND 0xffc) + 4) AND 0xffc"
  have "rsp_wf ?s0" "rsp_r ?s0 0 = 0" "rsp_pc ?s0 = start_pc AND 0xffc"
    using assms(1,2) by (simp_all add: rsp_wf_def)
  then have "run_inv ?s0 ?np" by (simp add: run_inv_def)
  moreover have "run s start_pc = run_loop ?s0 ?np" by (simp add: run_def Let_def)
  ultimately show ?thesis using reaches_run_inv run_loop_reaches by metis
qed

text \<open>
  The reference semantics with fuel: at most \<open>n\<close> turns of the loop, \<open>None\<close> when they are not
  enough.
\<close>

primrec run_turns :: "nat \<Rightarrow> rsp_t \<Rightarrow> u32 \<Rightarrow> (rsp_err + rsp_t) option" where
  "run_turns 0 s next_pc = (if halted s then Some (Inr s) else None)"
| "run_turns (Suc n) s next_pc =
    (if halted s then Some (Inr s)
     else case step s next_pc of
            Inl d \<Rightarrow> Some (Inl d)
          | Inr (t, after) \<Rightarrow> run_turns n t after)"

lemma run_turns_enough: "run_fuel (n_insns s) \<le> n \<Longrightarrow> run_turns n s next_pc = Some (run_loop s next_pc)"
proof (induction n arbitrary: s next_pc)
  case 0
  then show ?case by (simp add: run_fuel_def split: if_splits)
next
  case (Suc n)
  have "run_turns n t after = Some (run_loop t after)" if "step s next_pc = Inr (t, after)" for t after
    using step_Inr(1,2) [OF that] run_fuel_decreases [of "n_insns s"] Suc.prems by (intro Suc.IH) simp
  then show ?case by (auto simp: run_loop.simps [of s] split: sum.splits)
qed

lemma run_fuel_le: "run_fuel n \<le> 2 ^ 40 + 2"
  by (simp add: run_fuel_def le_diff_conv)

text \<open>
  C8: Every task ends: from any state the loop finishes, by \<open>break\<close> or by stopping the program,
  within \<open>2 ^ 40 + 2\<close> turns.
\<close>

theorem run_ends_within_the_guard: "\<exists>n \<le> 2 ^ 40 + 2. run_turns n s next_pc = Some (run_loop s next_pc)"
  using run_turns_enough [OF run_fuel_le] by blast

text \<open>
  C9: Instruction memory never changes unannounced: a turn of the loop that leaves \<open>imem_gen\<close> as
  it was leaves every byte of instruction memory as it was.
\<close>

theorem step_announces_new_code:
  assumes "step s next_pc = Inr (t, after)" and "imem_gen t = imem_gen s"
  shows "fetch_at t = fetch_at s"
  using step_Inr(8) [OF assms] by (auto simp: fetch_at_def)


text \<open>A machine whose first instruction is \<open>break\<close>.\<close>

definition break_machine :: rsp_t where
  "break_machine = (rsp_init (\<lambda>_. 0))\<lparr>rsp_mem := (\<lambda>i. if i = 0x1003 then 0x0d else 0)\<rparr>"

lemma break_machine_step:
  "step (break_machine\<lparr>rsp_pc := 0, halted := False\<rparr>) 4 =
    Inr ((set_r break_machine 0 0)\<lparr>rsp_pc := 4, halted := True, n_insns := 1\<rparr>, 8)"
  by (simp add: step_def fetch_at_def break_machine_def exec_def exec_special_def f_op_def f_fn_def rsp_init_def
      Let_def pc_after_def set_r_def)

theorem run_keeps_machine_well_formed_witness:
  "\<exists>t p. run break_machine 0 = Inr t \<and> halted t \<and> run_inv t p \<and> n_insns t = 1"
proof -
  have wf: "rsp_wf break_machine" "rsp_r break_machine 0 = 0"
    by (simp_all add: rsp_wf_def break_machine_def rsp_init_def acc48_def sext48_def)
  have "run break_machine 0 = Inr ((set_r break_machine 0 0)\<lparr>rsp_pc := 4, halted := True, n_insns := 1\<rparr>)"
    using break_machine_step by (simp add: run_def run_loop.simps)
  with run_keeps_machine_well_formed [OF wf, of 0] show ?thesis by auto
qed

theorem step_announces_new_code_witness:
  "\<exists>t after. step (break_machine\<lparr>rsp_pc := 0, halted := False\<rparr>) 4 = Inr (t, after) \<and>
     fetch_at t = fetch_at (break_machine\<lparr>rsp_pc := 0, halted := False\<rparr>)"
  using step_announces_new_code [OF break_machine_step] break_machine_step by (simp add: set_r_def)


subsection \<open>Which instructions stop the program\<close>

text \<open>The instruction set of the interpreter, as a table of encodings.\<close>

definition implemented_special :: "u32 \<Rightarrow> bool" where
  "implemented_special fn \<longleftrightarrow> fn \<in> {0x00, 0x02, 0x03, 0x04, 0x06, 0x07, 0x08, 0x09, 0x0d, 0x20, 0x21, 0x22,
     0x23, 0x24, 0x25, 0x26, 0x27, 0x2a, 0x2b}"

definition implemented_vec :: "u32 \<Rightarrow> bool" where
  "implemented_vec fn \<longleftrightarrow> fn \<in> {0x00, 0x04, 0x05, 0x06, 0x07, 0x08, 0x0d, 0x0e, 0x0f, 0x10, 0x11, 0x13, 0x14,
     0x15, 0x1d, 0x23, 0x24, 0x27, 0x28, 0x29, 0x2a, 0x2b, 0x2c, 0x2d}"

definition implemented :: "u32 \<Rightarrow> bool" where
  "implemented insn \<longleftrightarrow>
    (if f_op insn = 0x00 then implemented_special (f_fn insn)
     else if f_op insn = 0x10 then
       f_rs insn = 0 \<and> f_rd insn < 16 \<or> f_rs insn = 4 \<and> f_rd insn < 16 \<and> f_rd insn \<notin> {5, 6}
     else if f_op insn = 0x12 then
       (if bit insn 25 then implemented_vec (f_fn insn) else f_rs insn \<in> {0, 2, 4, 6})
     else if f_op insn = 0x32 then f_rd insn < 8 \<or> f_rd insn = 11 \<and> f_e7 insn < 2
     else if f_op insn = 0x3a then f_rd insn < 8
     else f_op insn \<in> {0x01, 0x02, 0x03, 0x04, 0x05, 0x06, 0x07, 0x08, 0x09, 0x0a, 0x0b, 0x0c, 0x0d, 0x0e, 0x0f,
       0x20, 0x21, 0x23, 0x24, 0x25, 0x28, 0x29, 0x2b})"

text \<open>A result that is an error at the pc of \<open>s\<close> exactly when \<open>ok\<close> does not hold.\<close>

definition dies_unless :: "rsp_t \<Rightarrow> bool \<Rightarrow> rsp_err + 'a \<Rightarrow> bool" where
  "dies_unless s ok res \<longleftrightarrow> (case res of Inl d \<Rightarrow> \<not> ok \<and> die_pc d = rsp_pc s | Inr _ \<Rightarrow> ok)"

lemma dies_unless_simps [simp]:
  "dies_unless s ok (Inr x) = ok" "dies_unless s ok (rsp_die s why) = (\<not> ok)"
  by (simp_all add: dies_unless_def rsp_die_def)

lemma dies_unless_if: "(c \<Longrightarrow> dies_unless s ok a) \<Longrightarrow> (\<not> c \<Longrightarrow> dies_unless s ok b) \<Longrightarrow> dies_unless s ok (if c then a else b)"
  by simp

lemma fall_through_dies: "dies_unless s ok res \<Longrightarrow> dies_unless s ok (fall_through res np)"
  by (cases res) (simp_all add: fall_through_def dies_unless_def)

lemma exec_special_dies: "dies_unless s (implemented_special (f_fn insn)) (exec_special s insn np)"
  unfolding exec_special_def Let_def
  by (intro dies_unless_if) (auto simp: implemented_special_def)

lemma mfc0_dies: "dies_unless s (rd < 16) (mfc0 s rd)"
  unfolding mfc0_def by (intro dies_unless_if) (auto simp: numeral_eq_Suc less_Suc_eq)

lemma mtc0_dies: "dies_unless s (rd < 16 \<and> rd \<notin> {5, 6}) (mtc0 s rd x)"
  unfolding mtc0_def by (intro dies_unless_if) (auto simp: numeral_eq_Suc less_Suc_eq)

lemma exec_cop0_dies:
  "dies_unless s (f_rs insn = 0 \<and> f_rd insn < 16 \<or> f_rs insn = 4 \<and> f_rd insn < 16 \<and> f_rd insn \<notin> {5, 6}) (exec_cop0 s insn)"
  using mfc0_dies [of s "f_rd insn"] mtc0_dies [of s "f_rd insn" "rsp_r s (f_rt insn)"]
  unfolding exec_cop0_def by (intro dies_unless_if) (auto simp: dies_unless_def rsp_die_def split: sum.splits)

lemma defined_if:
  "(c \<Longrightarrow> (a \<noteq> None) = ok) \<Longrightarrow> (\<not> c \<Longrightarrow> (b \<noteq> None) = ok) \<Longrightarrow> ((if c then a else b) \<noteq> None) = ok"
  by simp

lemma vec_op_implemented: "(vec_op fn e \<noteq> None) = implemented_vec fn"
  unfolding vec_op_def by (intro defined_if) (auto simp: implemented_vec_def)

lemma cop2_dies: "dies_unless s (if bit insn 25 then implemented_vec (f_fn insn) else f_rs insn \<in> {0, 2, 4, 6}) (cop2 s insn)"
proof -
  have b: "drop_bit 25 insn AND 1 = 0 \<longleftrightarrow> \<not> bit insn 25"
    using and_exp_eq_0_iff_not_bit [of "drop_bit 25 insn" 0] by (simp add: bit_simps)
  have move: "dies_unless s (f_rs insn \<in> {0, 2, 4, 6}) (cop2_move s insn)"
    unfolding cop2_move_def Let_def by (intro dies_unless_if) auto
  show ?thesis
  proof (cases "bit insn 25")
    case False
    with move b show ?thesis by (simp add: cop2_def)
  next
    case True
    show ?thesis
    proof (cases "vec_op (f_fn insn) (drop_bit 21 insn AND 15)")
      case (Some f)
      then have "implemented_vec (f_fn insn)" using vec_op_implemented by (metis option.distinct(1))
      moreover have "\<exists>t. cop2 s insn = Inr t"
        using cop2_op [of insn f s] Some True b by blast
      ultimately show ?thesis using True by auto
    next
      case None
      then have "\<not> implemented_vec (f_fn insn)" using vec_op_implemented by metis
      moreover have "cop2 s insn = rsp_die s (Die_vec_op (f_fn insn) insn)"
      proof -
        have "[0..<8] = 0 # [1..<8]" by (simp add: upt_rec)
        then show ?thesis using True b None by (simp add: cop2_def rsp_die_def Let_def)
      qed
      ultimately show ?thesis using True by simp
    qed
  qed
qed

lemma small_op: "(op :: nat) < 8 \<longleftrightarrow> op \<in> {0, 1, 2, 3, 4, 5, 6, 7}" by auto

lemma lwc2_dies: "dies_unless s (f_rd insn < 8 \<or> f_rd insn = 11 \<and> f_e7 insn < 2) (lwc2 s insn)"
  unfolding lwc2_def Let_def small_op by (intro dies_unless_if) (auto simp: drop_bit_eq_div)

lemma swc2_dies: "dies_unless s (f_rd insn < 8) (swc2 s insn)"
  unfolding swc2_def Let_def small_op by (intro dies_unless_if) auto


lemma exec_plain_implemented:
  "(exec_plain s insn \<noteq> None) \<longleftrightarrow> f_op insn \<in> {0x08, 0x09, 0x0a, 0x0b, 0x0c, 0x0d, 0x0e, 0x0f,
       0x20, 0x21, 0x23, 0x24, 0x25, 0x28, 0x29, 0x2b}"
  unfolding exec_plain_def Let_def by (intro defined_if) auto

lemma exec_dies: "dies_unless s (implemented insn) (exec s insn np)"
proof -
  have plain: "dies_unless s (implemented insn) (case exec_plain s insn of Some s \<Rightarrow> Inr (s, pc_after np)
      | None \<Rightarrow> rsp_die s (Die_opcode (f_op insn) insn))"
    if "f_op insn \<notin> {0x00, 0x01, 0x02, 0x03, 0x04, 0x05, 0x06, 0x07, 0x10, 0x12, 0x32, 0x3a}"
    using that exec_plain_implemented [of s insn]
    by (cases "exec_plain s insn") (auto simp: implemented_def)
  have i: "f_op insn = 0x00 \<Longrightarrow> implemented insn = implemented_special (f_fn insn)"
    "f_op insn = 0x10 \<Longrightarrow> implemented insn = (f_rs insn = 0 \<and> f_rd insn < 16 \<or>
       f_rs insn = 4 \<and> f_rd insn < 16 \<and> f_rd insn \<notin> {5, 6})"
    "f_op insn = 0x12 \<Longrightarrow> implemented insn = (if bit insn 25 then implemented_vec (f_fn insn) else f_rs insn \<in> {0, 2, 4, 6})"
    "f_op insn = 0x32 \<Longrightarrow> implemented insn = (f_rd insn < 8 \<or> f_rd insn = 11 \<and> f_e7 insn < 2)"
    "f_op insn = 0x3a \<Longrightarrow> implemented insn = (f_rd insn < 8)"
    by (simp_all add: implemented_def)
  have j: "f_op insn \<in> {0x01, 0x02, 0x03, 0x04, 0x05, 0x06, 0x07} \<Longrightarrow> implemented insn"
    by (auto simp: implemented_def)
  have k: "f_op insn = 0x10 \<Longrightarrow> dies_unless s (implemented insn) (fall_through (exec_cop0 s insn) np)"
    "f_op insn = 0x12 \<Longrightarrow> dies_unless s (implemented insn) (fall_through (cop2 s insn) np)"
    "f_op insn = 0x32 \<Longrightarrow> dies_unless s (implemented insn) (fall_through (lwc2 s insn) np)"
    "f_op insn = 0x3a \<Longrightarrow> dies_unless s (implemented insn) (fall_through (swc2 s insn) np)"
    "f_op insn = 0x00 \<Longrightarrow> dies_unless s (implemented insn) (exec_special s insn np)"
    by (simp only: i; intro fall_through_dies exec_cop0_dies cop2_dies lwc2_dies swc2_dies exec_special_dies)+
  show ?thesis
    unfolding exec_def Let_def
    by (intro dies_unless_if plain k) (auto simp: j exec_regimm_def exec_branch_def Let_def)
qed

text \<open>
  C6: Whether an instruction stops the program depends on its encoding alone, never on the state:
  \<open>exec\<close> fails exactly on the encodings outside the table, and reports the pc it is at.
\<close>

theorem exec_stops_exactly_on_unimplemented:
  "(case exec s insn next_pc of
      Inl d \<Rightarrow> \<not> implemented insn \<and> die_pc d = rsp_pc s
    | Inr _ \<Rightarrow> implemented insn)"
  using exec_dies unfolding dies_unless_def .

end
