(* ===== verification/Rsp_Func.thy ===== *)
theory Rsp_Func
  imports Llvm_Ir Rsp_Interp
begin

text \<open>
  The code generation context \<open>rspFunc\<close> (\<open>rspFunc.hh\<close>, \<open>rspFunc.cc\<close>) and the callbacks of
  \<open>rspbt.cc\<close>.  A method that emits code is modelled by what the code it emits does: it takes
  the run-time frame of the translated function (its stack slots and the machine it was called
  on) and returns the new one, each \<open>Create\<close> call being the LLVM instruction of that name.
  What the method decides while it generates code (the kind of access, an element, a
  constant) is an ordinary argument.
\<close>

subsection \<open>The frame of the translated function\<close>

datatype flag_t = VCO_L | VCO_H | VCC_L | VCC_H | VCE

record frame =
  gpr :: "nat \<Rightarrow> u32"                     \<comment> \<open>the slots gpr[1..31]\<close>
  vec :: "nat \<Rightarrow> nat \<Rightarrow> u16"              \<comment> \<open>vec[32], vectors of 8\<close>
  accs :: "nat \<Rightarrow> u64"                    \<comment> \<open>acc, a vector of 8\<close>
  flags :: "flag_t \<Rightarrow> nat \<Rightarrow> bool"         \<comment> \<open>flag[NUM_FLAGS], vectors of 8\<close>
  ret_slot :: u32                          \<comment> \<open>retSlot\<close>
  mach :: rsp_t                            \<comment> \<open>the state vState points to\<close>

subsection \<open>Callbacks into the interpreter\<close>

definition rspbt_mfc0 :: "rsp_t \<Rightarrow> u32 \<Rightarrow> rsp_err + u32" where
  "rspbt_mfc0 c rd = mfc0 c (unat rd)"

definition rspbt_mtc0 :: "rsp_t \<Rightarrow> u32 \<Rightarrow> u32 \<Rightarrow> rsp_err + u32 \<times> rsp_t" where
  "rspbt_mtc0 c rd x =
    (let gen = imem_gen c
     in case mtc0 c (unat rd) x of
          Inl d \<Rightarrow> Inl d
        | Inr c \<Rightarrow> Inr (if imem_gen c \<noteq> gen then 1 else 0, c))"

definition rspbt_lwc2 :: "rsp_t \<Rightarrow> u32 \<Rightarrow> rsp_err + rsp_t" where
  "rspbt_lwc2 c insn = lwc2 c insn"

definition rspbt_swc2 :: "rsp_t \<Rightarrow> u32 \<Rightarrow> rsp_err + rsp_t" where
  "rspbt_swc2 c insn = swc2 c insn"

definition rspbt_rd :: "rsp_t \<Rightarrow> u32 \<Rightarrow> u32 \<Rightarrow> u32" where
  "rspbt_rd c a n = (if n = 2 then ucast (rd16 c a) else rd32 c a)"

definition rspbt_wr :: "rsp_t \<Rightarrow> u32 \<Rightarrow> u32 \<Rightarrow> u32 \<Rightarrow> rsp_t" where
  "rspbt_wr c a x n = (if n = 2 then wr16 c a (ucast x) else wr32 c a x)"

subsection \<open>Guest state\<close>

definition getGPR :: "nat \<Rightarrow> frame \<Rightarrow> u32" where
  "getGPR r fr = (if r = 0 then 0 else gpr fr r)"

definition setGPR :: "nat \<Rightarrow> u32 \<Rightarrow> frame \<Rightarrow> frame" where
  "setGPR r x fr = (if r \<noteq> 0 then fr\<lparr>gpr := (gpr fr)(r := x)\<rparr> else fr)"

definition getVec :: "nat \<Rightarrow> frame \<Rightarrow> nat \<Rightarrow> u16" where
  "getVec r fr = vec fr r"

definition setVec :: "nat \<Rightarrow> (nat \<Rightarrow> u16) \<Rightarrow> frame \<Rightarrow> frame" where
  "setVec r x fr = fr\<lparr>vec := (vec fr)(r := x)\<rparr>"

definition getAcc :: "frame \<Rightarrow> nat \<Rightarrow> u64" where
  "getAcc fr = accs fr"

definition setAcc :: "(nat \<Rightarrow> u64) \<Rightarrow> frame \<Rightarrow> frame" where
  "setAcc x fr = fr\<lparr>accs := x\<rparr>"

definition getFlag :: "flag_t \<Rightarrow> frame \<Rightarrow> nat \<Rightarrow> bool" where
  "getFlag f fr = flags fr f"

definition setFlag :: "flag_t \<Rightarrow> (nat \<Rightarrow> bool) \<Rightarrow> frame \<Rightarrow> frame" where
  "setFlag f x fr = fr\<lparr>flags := (flags fr)(f := x)\<rparr>"

definition clearFlag :: "flag_t \<Rightarrow> frame \<Rightarrow> frame" where
  "clearFlag f fr = fr\<lparr>flags := (flags fr)(f := splat False)\<rparr>"

subsection \<open>Small idioms\<close>

definition vt_mask :: "u32 \<Rightarrow> int list" where
  "vt_mask e = map (\<lambda>i. uint (if e < 4 then (of_nat i AND NOT 1) OR (e AND 1)
     else if e < 8 then (of_nat i AND NOT 3) OR (e AND 3) else e AND (7 :: u32))) [0..<8]"

definition vtSelect :: "llvm \<Rightarrow> nat \<Rightarrow> u32 \<Rightarrow> frame \<Rightarrow> nat \<Rightarrow> u16" where
  "vtSelect L vt e fr = (let t = getVec vt fr in if e < 2 then t else shuffle16 L t (vt_mask e))"

definition sext48_ir :: "llvm \<Rightarrow> (nat \<Rightarrow> u64) \<Rightarrow> nat \<Rightarrow> u64" where
  "sext48_ir L a = lanes2 (bin64 L AShr) (lanes2 (bin64 L Shl) a (splat 16)) (splat 16)"

definition satMid :: "llvm \<Rightarrow> (nat \<Rightarrow> u64) \<Rightarrow> nat \<Rightarrow> u16" where
  "satMid L a =
    (let x = lanes2 (bin64 L AShr) a (splat 16);
         x = lanes2 (bin64 L SMax) x (splat (- 32768));
         x = lanes2 (bin64 L SMin) x (splat 32767)
     in lanes1 (trunc64_16 L) x)"

definition clampLow :: "llvm \<Rightarrow> (nat \<Rightarrow> u64) \<Rightarrow> nat \<Rightarrow> u16" where
  "clampLow L a =
    (let lt = lanes2 (cmp64 L SLT) a (splat (- 0x80000000));
         gt = lanes2 (cmp64 L SGT) a (splat 0x7fffffff);
         lo = lanes1 (trunc64_16 L) a;
         lo = lanes3 (sel16 L) gt (splat (- 1)) lo
     in lanes3 (sel16 L) lt (splat 0) lo)"

definition setAccLow :: "llvm \<Rightarrow> (nat \<Rightarrow> u16) \<Rightarrow> frame \<Rightarrow> frame" where
  "setAccLow L res fr =
    (let hi = lanes2 (bin64 L And) (getAcc fr) (splat (NOT 0xffff))
     in setAcc (lanes2 (bin64 L Or) hi (lanes1 (zext16_64 L) res)) fr)"

subsection \<open>Scalar memory\<close>

text \<open>\<open>dmemPtr(ea12)\<close> points at byte \<open>ea12\<close> of \<open>rsp_t::mem\<close>: reading and writing from there.\<close>

definition mem_at :: "u32 \<Rightarrow> frame \<Rightarrow> nat \<Rightarrow> u8" where
  "mem_at ea12 fr = (\<lambda>k. rsp_mem (mach fr) (unat ea12 + k))"

definition mem_put :: "u32 \<Rightarrow> nat \<Rightarrow> (nat \<Rightarrow> u8) \<Rightarrow> frame \<Rightarrow> frame" where
  "mem_put ea12 n bytes fr =
    fr\<lparr>mach := (mach fr)\<lparr>rsp_mem := (\<lambda>i. if unat ea12 \<le> i \<and> i < unat ea12 + n then bytes (i - unat ea12)
                                          else rsp_mem (mach fr) i)\<rparr>\<rparr>"

definition fitsInDmem :: "llvm \<Rightarrow> u32 \<Rightarrow> u32 \<Rightarrow> bool" where
  "fitsInDmem L ea nbytes = cmp32 L ULE (bin32 L And ea 0xfff) (0x1000 - nbytes)"

definition loadMem :: "llvm \<Rightarrow> u32 \<Rightarrow> u32 \<Rightarrow> frame \<Rightarrow> u32" where
  "loadMem L ea nbytes fr =
    (let ea12 = bin32 L And ea 0xfff
     in if nbytes = 1 then zext8_32 L (mem_at ea12 fr 0)
        else if fitsInDmem L ea nbytes then
          (if nbytes = 2 then zext16_32 L (bswap16 L (load16 L (mem_at ea12 fr)))
           else bswap32 L (load32 L (mem_at ea12 fr)))
        else rspbt_rd (mach fr) ea nbytes)"

definition storeMem :: "llvm \<Rightarrow> u32 \<Rightarrow> u32 \<Rightarrow> u32 \<Rightarrow> frame \<Rightarrow> frame" where
  "storeMem L ea val nbytes fr =
    (let ea12 = bin32 L And ea 0xfff
     in if nbytes = 1 then mem_put ea12 1 (\<lambda>_. trunc32_8 L val) fr
        else if fitsInDmem L ea nbytes then
          (if nbytes = 2 then mem_put ea12 2 (bytes16 L (bswap16 L (trunc32_16 L val))) fr
           else mem_put ea12 4 (bytes32 L (bswap32 L val)) fr)
        else fr\<lparr>mach := rspbt_wr (mach fr) ea val nbytes\<rparr>)"

subsection \<open>Vector memory\<close>

definition swapPairs :: "nat \<Rightarrow> int list" where
  "swapPairs nbytes = map (\<lambda>i. int (i XOR 1)) [0..<nbytes]"

text \<open>The bitcasts between \<open><8 x i16>\<close> and \<open><16 x i8>\<close> go through the host's byte order.\<close>

definition toBytes :: "llvm \<Rightarrow> (nat \<Rightarrow> u16) \<Rightarrow> nat \<Rightarrow> u8" where
  "toBytes L x =
    (let raw = (\<lambda>i. bytes16 L (x (i div 2)) (i mod 2))
     in shuffle8 L 16 raw raw (swapPairs 16))"

definition fromBytes :: "llvm \<Rightarrow> (nat \<Rightarrow> u8) \<Rightarrow> nat \<Rightarrow> u16" where
  "fromBytes L bytes =
    (let raw = shuffle8 L 16 bytes bytes (swapPairs 16)
     in (\<lambda>i. load16 L (\<lambda>k. raw (2 * i + k))))"

datatype vecMemKind = FIXED | ROW_LEFT | ROW_RIGHT

text \<open>The condition of the inline path; \<open>None\<close> where there is none.\<close>

definition vl_fast :: "llvm \<Rightarrow> u32 \<Rightarrow> nat \<Rightarrow> nat \<Rightarrow> vecMemKind \<Rightarrow> bool option" where
  "vl_fast L ea e nbytes kind =
    (let ea12 = bin32 L And ea 0xfff
     in if kind = FIXED \<and> e + nbytes \<le> 16 then Some (fitsInDmem L ea (of_nat nbytes))
        else if kind = ROW_LEFT \<and> e = 0 then Some (cmp32 L ULE ea12 0xff0)
        else if kind = ROW_RIGHT \<and> e = 0 then Some (cmp32 L UGE ea12 16)
        else None)"

definition vs_fast :: "llvm \<Rightarrow> u32 \<Rightarrow> nat \<Rightarrow> nat \<Rightarrow> vecMemKind \<Rightarrow> bool option" where
  "vs_fast L ea e nbytes kind =
    (let ea12 = bin32 L And ea 0xfff
     in if kind = FIXED \<and> e + nbytes \<le> 16 then Some (fitsInDmem L ea (of_nat nbytes))
        else if kind = ROW_LEFT \<and> e = 0 then Some (cmp32 L ULE ea12 0xff0)
        else None)"

definition widen_mask :: "nat \<Rightarrow> int list" where
  "widen_mask nbytes = map (\<lambda>i. if i < nbytes then int i else - 1) [0..<16]"

definition blend_mask :: "nat \<Rightarrow> nat \<Rightarrow> int list" where
  "blend_mask e nbytes = map (\<lambda>i. if e \<le> i \<and> i < e + nbytes then int (16 + i - e) else int i) [0..<16]"

definition vecLoad_inline :: "llvm \<Rightarrow> nat \<Rightarrow> u32 \<Rightarrow> nat \<Rightarrow> nat \<Rightarrow> vecMemKind \<Rightarrow> frame \<Rightarrow> frame" where
  "vecLoad_inline L vt ea e nbytes kind fr =
    (let ea12 = bin32 L And ea 0xfff;
         k = bin32 L And ea 15;
         old = toBytes L (getVec vt fr);
         res = (if kind = FIXED then
                  (let inp = mem_at ea12 fr
                   in if nbytes = 16 then inp
                      else shuffle8 L 16 old (shuffle8 L nbytes inp inp (widen_mask nbytes)) (blend_mask e nbytes))
                else
                  (let n8 = trunc32_8 L (bin32 L Sub 16 k);
                       win = (if kind = ROW_LEFT then ea12 else bin32 L Sub ea12 16);
                       inp = mem_at win fr;
                       take = (\<lambda>i. cmp8 L (if kind = ROW_LEFT then ULT else UGE) (of_nat i) n8)
                   in lanes3 (sel8 L) take inp old))
     in setVec vt (fromBytes L res) fr)"

text \<open>The registers the interpreter's routine reads are put back into the machine first.\<close>

definition spill :: "nat \<Rightarrow> nat \<Rightarrow> frame \<Rightarrow> frame" where
  "spill base vt fr =
    (let c = (if base \<noteq> 0 then set_r (mach fr) base (getGPR base fr) else mach fr)
     in fr\<lparr>mach := c\<lparr>rsp_v := (rsp_v c)(vt := (\<lambda>i. if i < 8 then getVec vt fr i else rsp_v c vt i))\<rparr>\<rparr>)"

definition vecLoad_slow :: "u32 \<Rightarrow> nat \<Rightarrow> nat \<Rightarrow> frame \<Rightarrow> rsp_err + frame" where
  "vecLoad_slow insn base vt fr =
    (let fr = spill base vt fr
     in case rspbt_lwc2 (mach fr) insn of
          Inl d \<Rightarrow> Inl d
        | Inr c \<Rightarrow> Inr (setVec vt (rsp_v c vt) (fr\<lparr>mach := c\<rparr>)))"

definition vecLoad :: "llvm \<Rightarrow> u32 \<Rightarrow> nat \<Rightarrow> nat \<Rightarrow> u32 \<Rightarrow> nat \<Rightarrow> nat \<Rightarrow> vecMemKind \<Rightarrow> frame \<Rightarrow> rsp_err + frame" where
  "vecLoad L insn base vt ea e nbytes kind fr =
    (if vl_fast L ea e nbytes kind = Some True then Inr (vecLoad_inline L vt ea e nbytes kind fr)
     else vecLoad_slow insn base vt fr)"

definition vecStore_inline :: "llvm \<Rightarrow> nat \<Rightarrow> u32 \<Rightarrow> nat \<Rightarrow> nat \<Rightarrow> vecMemKind \<Rightarrow> frame \<Rightarrow> frame" where
  "vecStore_inline L vt ea e nbytes kind fr =
    (let ea12 = bin32 L And ea 0xfff;
         bytes = toBytes L (getVec vt fr)
     in if kind = FIXED then
          (let out = (if nbytes = 16 then bytes
                      else shuffle8 L 16 bytes bytes (map (\<lambda>i. int (e + i)) [0..<nbytes]))
           in mem_put ea12 nbytes out fr)
        else
          (let n8 = trunc32_8 L (bin32 L Sub 16 (bin32 L And ea 15));
               cur = mem_at ea12 fr;
               take = (\<lambda>i. cmp8 L ULT (of_nat i) n8)
           in mem_put ea12 16 (lanes3 (sel8 L) take bytes cur) fr))"

definition vecStore_slow :: "u32 \<Rightarrow> nat \<Rightarrow> nat \<Rightarrow> frame \<Rightarrow> rsp_err + frame" where
  "vecStore_slow insn base vt fr =
    (let fr = spill base vt fr
     in case rspbt_swc2 (mach fr) insn of Inl d \<Rightarrow> Inl d | Inr c \<Rightarrow> Inr (fr\<lparr>mach := c\<rparr>))"

definition vecStore :: "llvm \<Rightarrow> u32 \<Rightarrow> nat \<Rightarrow> nat \<Rightarrow> u32 \<Rightarrow> nat \<Rightarrow> nat \<Rightarrow> vecMemKind \<Rightarrow> frame \<Rightarrow> rsp_err + frame" where
  "vecStore L insn base vt ea e nbytes kind fr =
    (if vs_fast L ea e nbytes kind = Some True then Inr (vecStore_inline L vt ea e nbytes kind fr)
     else vecStore_slow insn base vt fr)"

subsection \<open>Call strings and control\<close>

text \<open>
  \<open>contexts\<close> lists the call strings by id and \<open>contextIds\<close> finds the id of one.  A call string
  longer than \<open>MAX_CALL_DEPTH\<close> is not kept: the callee then runs in context 0.
\<close>

type_synonym blockKey = "u32 \<times> nat"

record ctxs =
  contexts :: "u32 list list"
  contextIds :: "u32 list \<rightharpoonup> nat"

definition ctxs_init :: ctxs where
  "ctxs_init = \<lparr>contexts = [[]], contextIds = [[] \<mapsto> 0]\<rparr>"

definition MAX_CALL_DEPTH :: nat where
  "MAX_CALL_DEPTH = 4"

definition pushCtx :: "nat \<Rightarrow> u32 \<Rightarrow> ctxs \<Rightarrow> nat \<times> ctxs" where
  "pushCtx ctxId link c =
    (let cs = contexts c ! ctxId
     in if MAX_CALL_DEPTH \<le> length cs then (0, c)
        else (let cs = cs @ [link]
              in case contextIds c cs of
                   Some i \<Rightarrow> (i, c)
                 | None \<Rightarrow>
                     (let i = length (contexts c)
                      in (i, c\<lparr>contexts := contexts c @ [cs], contextIds := (contextIds c)(cs \<mapsto> i)\<rparr>))))"

text \<open>\<open>None\<close>: \<open>contextIds.at\<close> throws.\<close>

definition popCtx :: "nat \<Rightarrow> ctxs \<Rightarrow> nat option" where
  "popCtx ctxId c = contextIds c (butlast (contexts c ! ctxId))"

text \<open>
  How control leaves a piece of translated code: it falls out of its end, branches to another
  block, returns to \<open>run\<close> through the exit block, or a callback ends the process.
\<close>

datatype outcome =
    Falls frame
  | Branches blockKey frame
  | Returns frame
  | Dies rsp_err

definition and_then :: "outcome \<Rightarrow> (frame \<Rightarrow> outcome) \<Rightarrow> outcome" where
  "and_then out k = (case out of Falls fr \<Rightarrow> k fr | _ \<Rightarrow> out)"

definition exitToInterp :: "u32 \<Rightarrow> frame \<Rightarrow> outcome" where
  "exitToInterp pc fr = Returns (fr\<lparr>ret_slot := pc\<rparr>)"

definition exitHalted :: "frame \<Rightarrow> outcome" where
  "exitHalted fr = Returns (fr\<lparr>mach := (mach fr)\<lparr>halted := True\<rparr>, ret_slot := 0xffffffff\<rparr>)"

text \<open>
  The switch of a devirtualized \<open>jr\<close>: inside a call context its one case is the return address
  on top of the call string; outside it has a case for every root.
\<close>

definition indirectJump :: "u32 list \<Rightarrow> ctxs \<Rightarrow> nat \<Rightarrow> u32 \<Rightarrow> frame \<Rightarrow> outcome" where
  "indirectJump roots c curCtx target fr =
    (if curCtx \<noteq> 0 then
       (let link = last (contexts c ! curCtx)
        in if target = link then
             (case popCtx curCtx c of
                Some up \<Rightarrow> Branches (link, up) fr
              | None \<Rightarrow> exitToInterp target fr)
           else exitToInterp target fr)
     else if target \<in> set roots then Branches (target, 0) fr
     else exitToInterp target fr)"

end
