(* ===== verification/Rsp_Insn.thy ===== *)
theory Rsp_Insn
  imports Rsp_Func
begin

text \<open>
  The instruction classes of the translator (\<open>rspInstruction.hh\<close>, \<open>rspInstruction.cc\<close>): one
  constructor for each class, \<open>decode\<close>, and what the code emitted by each \<open>generateIR\<close> does.
\<close>

subsection \<open>The classes\<close>

datatype rtype = Insn_add | Insn_sub | Insn_and | Insn_or | Insn_xor | Insn_nor | Insn_slt | Insn_sltu
  | Insn_sllv | Insn_srlv | Insn_srav

datatype shift = Insn_sll | Insn_srl | Insn_sra

datatype itype = Insn_addi | Insn_slti | Insn_sltiu | Insn_andi | Insn_ori | Insn_xori | Insn_lui

datatype memop = Insn_lb | Insn_lbu | Insn_lh | Insn_lhu | Insn_lw | Insn_sb | Insn_sh | Insn_sw

datatype branch = Insn_beq | Insn_bne | Insn_blez | Insn_bgtz | Insn_bltz | Insn_bgez

datatype vecop = Insn_vmulf | Insn_vmudl | Insn_vmudm | Insn_vmudn | Insn_vmudh | Insn_vmacf | Insn_vmadm
  | Insn_vmadn | Insn_vmadh | Insn_vadd | Insn_vsub | Insn_vaddc | Insn_vsar | Insn_vge | Insn_vcl
  | Insn_vand | Insn_vxor

datatype vecmem = Insn_lsv | Insn_llv | Insn_ldv | Insn_lqv | Insn_lrv | Insn_ssv | Insn_slv | Insn_sdv | Insn_sqv

datatype rsp_insn = RType rtype | Shift shift | IType itype | Mem memop | Insn_mfc0 | Insn_mtc0 | Insn_break
  | Branch branch | Insn_j | Insn_jal | Insn_jr | Insn_jalr | VecOp vecop | Insn_mfc2 | Insn_mtc2 | VecMem vecmem

subsection \<open>decode\<close>

definition decode_special :: "u32 \<Rightarrow> rsp_insn option" where
  "decode_special fn =
    (if fn = 0x00 then Some (Shift Insn_sll)
     else if fn = 0x02 then Some (Shift Insn_srl)
     else if fn = 0x03 then Some (Shift Insn_sra)
     else if fn = 0x04 then Some (RType Insn_sllv)
     else if fn = 0x06 then Some (RType Insn_srlv)
     else if fn = 0x07 then Some (RType Insn_srav)
     else if fn = 0x08 then Some Insn_jr
     else if fn = 0x09 then Some Insn_jalr
     else if fn = 0x0d then Some Insn_break
     else if fn = 0x20 \<or> fn = 0x21 then Some (RType Insn_add)
     else if fn = 0x22 \<or> fn = 0x23 then Some (RType Insn_sub)
     else if fn = 0x24 then Some (RType Insn_and)
     else if fn = 0x25 then Some (RType Insn_or)
     else if fn = 0x26 then Some (RType Insn_xor)
     else if fn = 0x27 then Some (RType Insn_nor)
     else if fn = 0x2a then Some (RType Insn_slt)
     else if fn = 0x2b then Some (RType Insn_sltu)
     else None)"

definition decode_vec :: "u32 \<Rightarrow> rsp_insn option" where
  "decode_vec fn =
    (if fn = 0x00 then Some (VecOp Insn_vmulf)
     else if fn = 0x04 then Some (VecOp Insn_vmudl)
     else if fn = 0x05 then Some (VecOp Insn_vmudm)
     else if fn = 0x06 then Some (VecOp Insn_vmudn)
     else if fn = 0x07 then Some (VecOp Insn_vmudh)
     else if fn = 0x08 then Some (VecOp Insn_vmacf)
     else if fn = 0x0d then Some (VecOp Insn_vmadm)
     else if fn = 0x0e then Some (VecOp Insn_vmadn)
     else if fn = 0x0f then Some (VecOp Insn_vmadh)
     else if fn = 0x10 then Some (VecOp Insn_vadd)
     else if fn = 0x11 then Some (VecOp Insn_vsub)
     else if fn = 0x14 then Some (VecOp Insn_vaddc)
     else if fn = 0x1d then Some (VecOp Insn_vsar)
     else if fn = 0x23 then Some (VecOp Insn_vge)
     else if fn = 0x24 then Some (VecOp Insn_vcl)
     else if fn = 0x28 then Some (VecOp Insn_vand)
     else if fn = 0x2c then Some (VecOp Insn_vxor)
     else None)"

definition decode_lwc2 :: "nat \<Rightarrow> rsp_insn option" where
  "decode_lwc2 rd =
    (if rd = 1 then Some (VecMem Insn_lsv)
     else if rd = 2 then Some (VecMem Insn_llv)
     else if rd = 3 then Some (VecMem Insn_ldv)
     else if rd = 4 then Some (VecMem Insn_lqv)
     else if rd = 5 then Some (VecMem Insn_lrv)
     else None)"

definition decode_swc2 :: "nat \<Rightarrow> rsp_insn option" where
  "decode_swc2 rd =
    (if rd = 1 then Some (VecMem Insn_ssv)
     else if rd = 2 then Some (VecMem Insn_slv)
     else if rd = 3 then Some (VecMem Insn_sdv)
     else if rd = 4 then Some (VecMem Insn_sqv)
     else None)"

definition decode :: "u32 \<Rightarrow> rsp_insn option" where
  "decode inst =
    (let op = f_op inst; fn = f_fn inst; rs = f_rs inst; rt = f_rt inst; rd = f_rd inst
     in if op = 0x00 then decode_special fn
        else if op = 0x01 then
          (if rt = 0 then Some (Branch Insn_bltz) else if rt = 1 then Some (Branch Insn_bgez) else None)
        else if op = 0x02 then Some Insn_j
        else if op = 0x03 then Some Insn_jal
        else if op = 0x04 then Some (Branch Insn_beq)
        else if op = 0x05 then Some (Branch Insn_bne)
        else if op = 0x06 then Some (Branch Insn_blez)
        else if op = 0x07 then Some (Branch Insn_bgtz)
        else if op = 0x08 \<or> op = 0x09 then Some (IType Insn_addi)
        else if op = 0x0a then Some (IType Insn_slti)
        else if op = 0x0b then Some (IType Insn_sltiu)
        else if op = 0x0c then Some (IType Insn_andi)
        else if op = 0x0d then Some (IType Insn_ori)
        else if op = 0x0e then Some (IType Insn_xori)
        else if op = 0x0f then Some (IType Insn_lui)
        else if op = 0x10 then (if rs = 0 then Some Insn_mfc0 else if rs = 4 then Some Insn_mtc0 else None)
        else if op = 0x12 then
          (if drop_bit 25 inst AND 1 = 0 then
             (if rs = 0 then Some Insn_mfc2 else if rs = 4 then Some Insn_mtc2 else None)
           else decode_vec fn)
        else if op = 0x20 then Some (Mem Insn_lb)
        else if op = 0x21 then Some (Mem Insn_lh)
        else if op = 0x23 then Some (Mem Insn_lw)
        else if op = 0x24 then Some (Mem Insn_lbu)
        else if op = 0x25 then Some (Mem Insn_lhu)
        else if op = 0x28 then Some (Mem Insn_sb)
        else if op = 0x29 then Some (Mem Insn_sh)
        else if op = 0x2b then Some (Mem Insn_sw)
        else if op = 0x32 then decode_lwc2 rd
        else if op = 0x3a then decode_swc2 rd
        else None)"

subsection \<open>What a class says about itself\<close>

fun isControl :: "rsp_insn \<Rightarrow> bool" where
  "isControl (Branch _) = True"
| "isControl Insn_j = True"
| "isControl Insn_jal = True"
| "isControl Insn_jr = True"
| "isControl Insn_jalr = True"
| "isControl _ = False"

definition isBreak :: "rsp_insn \<Rightarrow> bool" where
  "isBreak i \<longleftrightarrow> i = Insn_break"

definition fallsThrough :: "rsp_insn \<Rightarrow> bool" where
  "fallsThrough i \<longleftrightarrow> i \<notin> {Insn_j, Insn_jal, Insn_jr, Insn_jalr}"

definition isCall :: "rsp_insn \<Rightarrow> bool" where
  "isCall i \<longleftrightarrow> i = Insn_jal"

definition isIndirect :: "rsp_insn \<Rightarrow> bool" where
  "isIndirect i \<longleftrightarrow> i \<in> {Insn_jr, Insn_jalr}"

definition makesLinkRoot :: "rsp_insn \<Rightarrow> bool" where
  "makesLinkRoot i \<longleftrightarrow> i = Insn_jalr"

text \<open>The target addresses the constructors compute.\<close>

definition tAddr :: "u32 \<Rightarrow> u32 \<Rightarrow> u32" where
  "tAddr inst addr = (addr + 4 + push_bit 2 (f_simm inst)) AND 0xffc"

definition ntAddr :: "u32 \<Rightarrow> u32" where
  "ntAddr addr = (addr + 8) AND 0xffc"

definition jAddr :: "u32 \<Rightarrow> u32" where
  "jAddr inst = push_bit 2 inst AND 0xffc"

fun staticTargets :: "rsp_insn \<Rightarrow> u32 \<Rightarrow> u32 \<Rightarrow> u32 list" where
  "staticTargets (Branch _) inst addr = [tAddr inst addr]"
| "staticTargets Insn_j inst addr = [jAddr inst]"
| "staticTargets Insn_jal inst addr = [jAddr inst]"
| "staticTargets _ inst addr = []"

subsection \<open>The scalar core\<close>

definition effAddr :: "llvm \<Rightarrow> u32 \<Rightarrow> frame \<Rightarrow> u32" where
  "effAddr L inst fr = bin32 L Add (getGPR (f_rs inst) fr) (f_simm inst)"

fun rtype_doOp :: "llvm \<Rightarrow> rtype \<Rightarrow> u32 \<Rightarrow> u32 \<Rightarrow> u32" where
  "rtype_doOp L Insn_add a b = bin32 L Add a b"
| "rtype_doOp L Insn_sub a b = bin32 L Sub a b"
| "rtype_doOp L Insn_and a b = bin32 L And a b"
| "rtype_doOp L Insn_or a b = bin32 L Or a b"
| "rtype_doOp L Insn_xor a b = bin32 L Xor a b"
| "rtype_doOp L Insn_nor a b = bin32 L Xor (bin32 L Or a b) (- 1)"
| "rtype_doOp L Insn_slt a b = zext1_32 L (cmp32 L SLT a b)"
| "rtype_doOp L Insn_sltu a b = zext1_32 L (cmp32 L ULT a b)"
| "rtype_doOp L Insn_sllv a b = bin32 L Shl b (bin32 L And a 31)"
| "rtype_doOp L Insn_srlv a b = bin32 L LShr b (bin32 L And a 31)"
| "rtype_doOp L Insn_srav a b = bin32 L AShr b (bin32 L And a 31)"

definition gen_rtype :: "llvm \<Rightarrow> rtype \<Rightarrow> u32 \<Rightarrow> frame \<Rightarrow> frame" where
  "gen_rtype L k inst fr =
    setGPR (f_rd inst) (rtype_doOp L k (getGPR (f_rs inst) fr) (getGPR (f_rt inst) fr)) fr"

fun gen_shift :: "llvm \<Rightarrow> shift \<Rightarrow> u32 \<Rightarrow> frame \<Rightarrow> frame" where
  "gen_shift L Insn_sll inst fr = setGPR (f_rd inst) (bin32 L Shl (getGPR (f_rt inst) fr) (of_nat (f_sa inst))) fr"
| "gen_shift L Insn_srl inst fr = setGPR (f_rd inst) (bin32 L LShr (getGPR (f_rt inst) fr) (of_nat (f_sa inst))) fr"
| "gen_shift L Insn_sra inst fr = setGPR (f_rd inst) (bin32 L AShr (getGPR (f_rt inst) fr) (of_nat (f_sa inst))) fr"

fun gen_itype :: "llvm \<Rightarrow> itype \<Rightarrow> u32 \<Rightarrow> frame \<Rightarrow> frame" where
  "gen_itype L Insn_addi inst fr = setGPR (f_rt inst) (effAddr L inst fr) fr"
| "gen_itype L Insn_slti inst fr =
     setGPR (f_rt inst) (zext1_32 L (cmp32 L SLT (getGPR (f_rs inst) fr) (f_simm inst))) fr"
| "gen_itype L Insn_sltiu inst fr =
     setGPR (f_rt inst) (zext1_32 L (cmp32 L ULT (getGPR (f_rs inst) fr) (f_simm inst))) fr"
| "gen_itype L Insn_andi inst fr = setGPR (f_rt inst) (bin32 L And (getGPR (f_rs inst) fr) (f_uimm inst)) fr"
| "gen_itype L Insn_ori inst fr = setGPR (f_rt inst) (bin32 L Or (getGPR (f_rs inst) fr) (f_uimm inst)) fr"
| "gen_itype L Insn_xori inst fr = setGPR (f_rt inst) (bin32 L Xor (getGPR (f_rs inst) fr) (f_uimm inst)) fr"
| "gen_itype L Insn_lui inst fr = setGPR (f_rt inst) (push_bit 16 (f_uimm inst)) fr"

fun gen_mem :: "llvm \<Rightarrow> memop \<Rightarrow> u32 \<Rightarrow> frame \<Rightarrow> frame" where
  "gen_mem L Insn_lb inst fr =
     setGPR (f_rt inst) (sext8_32 L (trunc32_8 L (loadMem L (effAddr L inst fr) 1 fr))) fr"
| "gen_mem L Insn_lbu inst fr = setGPR (f_rt inst) (loadMem L (effAddr L inst fr) 1 fr) fr"
| "gen_mem L Insn_lh inst fr =
     setGPR (f_rt inst) (sext16_32 L (trunc32_16 L (loadMem L (effAddr L inst fr) 2 fr))) fr"
| "gen_mem L Insn_lhu inst fr = setGPR (f_rt inst) (loadMem L (effAddr L inst fr) 2 fr) fr"
| "gen_mem L Insn_lw inst fr = setGPR (f_rt inst) (loadMem L (effAddr L inst fr) 4 fr) fr"
| "gen_mem L Insn_sb inst fr = storeMem L (effAddr L inst fr) (getGPR (f_rt inst) fr) 1 fr"
| "gen_mem L Insn_sh inst fr = storeMem L (effAddr L inst fr) (getGPR (f_rt inst) fr) 2 fr"
| "gen_mem L Insn_sw inst fr = storeMem L (effAddr L inst fr) (getGPR (f_rt inst) fr) 4 fr"

definition gen_mfc0 :: "u32 \<Rightarrow> frame \<Rightarrow> outcome" where
  "gen_mfc0 inst fr =
    (case rspbt_mfc0 (mach fr) (of_nat (f_rd inst)) of
       Inl d \<Rightarrow> Dies d
     | Inr x \<Rightarrow> Falls (setGPR (f_rt inst) x fr))"

definition gen_mtc0 :: "llvm \<Rightarrow> u32 \<Rightarrow> u32 \<Rightarrow> frame \<Rightarrow> outcome" where
  "gen_mtc0 L inst addr fr =
    (case rspbt_mtc0 (mach fr) (of_nat (f_rd inst)) (getGPR (f_rt inst) fr) of
       Inl d \<Rightarrow> Dies d
     | Inr (changed, c) \<Rightarrow>
         (let fr = fr\<lparr>mach := c\<rparr>
          in if cmp32 L NE changed 0 then exitToInterp ((addr + 4) AND 0xffc) fr else Falls fr))"

subsection \<open>The vector unit\<close>

text \<open>A \<open>doOp\<close> takes the two operands and returns the result and the frame.\<close>

definition wideS :: "llvm \<Rightarrow> (nat \<Rightarrow> u16) \<Rightarrow> nat \<Rightarrow> u64" where
  "wideS L x = lanes1 (sext16_64 L) x"

definition wideU :: "llvm \<Rightarrow> (nat \<Rightarrow> u16) \<Rightarrow> nat \<Rightarrow> u64" where
  "wideU L x = lanes1 (zext16_64 L) x"

definition ir_vmulf :: "llvm \<Rightarrow> (nat \<Rightarrow> u16) \<Rightarrow> (nat \<Rightarrow> u16) \<Rightarrow> frame \<Rightarrow> (nat \<Rightarrow> u16) \<times> frame" where
  "ir_vmulf L s t fr =
    (let p = lanes2 (bin64 L Shl) (lanes2 (bin64 L Mul) (wideS L s) (wideS L t)) (splat 1);
         fr = setAcc (sext48_ir L (lanes2 (bin64 L Add) p (splat 0x8000))) fr
     in (satMid L (getAcc fr), fr))"

definition ir_vmudl :: "llvm \<Rightarrow> (nat \<Rightarrow> u16) \<Rightarrow> (nat \<Rightarrow> u16) \<Rightarrow> frame \<Rightarrow> (nat \<Rightarrow> u16) \<times> frame" where
  "ir_vmudl L s t fr =
    (let fr = setAcc (lanes2 (bin64 L LShr) (lanes2 (bin64 L Mul) (wideU L s) (wideU L t)) (splat 16)) fr
     in (clampLow L (getAcc fr), fr))"

definition ir_vmudm :: "llvm \<Rightarrow> (nat \<Rightarrow> u16) \<Rightarrow> (nat \<Rightarrow> u16) \<Rightarrow> frame \<Rightarrow> (nat \<Rightarrow> u16) \<times> frame" where
  "ir_vmudm L s t fr =
    (let fr = setAcc (sext48_ir L (lanes2 (bin64 L Mul) (wideS L s) (wideU L t))) fr
     in (satMid L (getAcc fr), fr))"

definition ir_vmudn :: "llvm \<Rightarrow> (nat \<Rightarrow> u16) \<Rightarrow> (nat \<Rightarrow> u16) \<Rightarrow> frame \<Rightarrow> (nat \<Rightarrow> u16) \<times> frame" where
  "ir_vmudn L s t fr =
    (let fr = setAcc (sext48_ir L (lanes2 (bin64 L Mul) (wideU L s) (wideS L t))) fr
     in (clampLow L (getAcc fr), fr))"

definition ir_vmudh :: "llvm \<Rightarrow> (nat \<Rightarrow> u16) \<Rightarrow> (nat \<Rightarrow> u16) \<Rightarrow> frame \<Rightarrow> (nat \<Rightarrow> u16) \<times> frame" where
  "ir_vmudh L s t fr =
    (let fr = setAcc (sext48_ir L (lanes2 (bin64 L Shl) (lanes2 (bin64 L Mul) (wideS L s) (wideS L t)) (splat 16))) fr
     in (satMid L (getAcc fr), fr))"

definition ir_vmacf :: "llvm \<Rightarrow> (nat \<Rightarrow> u16) \<Rightarrow> (nat \<Rightarrow> u16) \<Rightarrow> frame \<Rightarrow> (nat \<Rightarrow> u16) \<times> frame" where
  "ir_vmacf L s t fr =
    (let p = lanes2 (bin64 L Shl) (lanes2 (bin64 L Mul) (wideS L s) (wideS L t)) (splat 1);
         fr = setAcc (sext48_ir L (lanes2 (bin64 L Add) (getAcc fr) p)) fr
     in (satMid L (getAcc fr), fr))"

definition ir_vmadm :: "llvm \<Rightarrow> (nat \<Rightarrow> u16) \<Rightarrow> (nat \<Rightarrow> u16) \<Rightarrow> frame \<Rightarrow> (nat \<Rightarrow> u16) \<times> frame" where
  "ir_vmadm L s t fr =
    (let fr = setAcc (sext48_ir L (lanes2 (bin64 L Add) (getAcc fr) (lanes2 (bin64 L Mul) (wideS L s) (wideU L t)))) fr
     in (satMid L (getAcc fr), fr))"

definition ir_vmadn :: "llvm \<Rightarrow> (nat \<Rightarrow> u16) \<Rightarrow> (nat \<Rightarrow> u16) \<Rightarrow> frame \<Rightarrow> (nat \<Rightarrow> u16) \<times> frame" where
  "ir_vmadn L s t fr =
    (let fr = setAcc (sext48_ir L (lanes2 (bin64 L Add) (getAcc fr) (lanes2 (bin64 L Mul) (wideU L s) (wideS L t)))) fr
     in (clampLow L (getAcc fr), fr))"

definition ir_vmadh :: "llvm \<Rightarrow> (nat \<Rightarrow> u16) \<Rightarrow> (nat \<Rightarrow> u16) \<Rightarrow> frame \<Rightarrow> (nat \<Rightarrow> u16) \<times> frame" where
  "ir_vmadh L s t fr =
    (let p = lanes2 (bin64 L Shl) (lanes2 (bin64 L Mul) (wideS L s) (wideS L t)) (splat 16);
         fr = setAcc (sext48_ir L (lanes2 (bin64 L Add) (getAcc fr) p)) fr
     in (satMid L (getAcc fr), fr))"

text \<open>\<open>combine\<close> is \<open>Add\<close> for \<open>vadd\<close> and \<open>Sub\<close> for \<open>vsub\<close>.\<close>

definition ir_vadd :: "llvm \<Rightarrow> binop \<Rightarrow> (nat \<Rightarrow> u16) \<Rightarrow> (nat \<Rightarrow> u16) \<Rightarrow> frame \<Rightarrow> (nat \<Rightarrow> u16) \<times> frame" where
  "ir_vadd L combine s t fr =
    (let carry = lanes1 (zext1_64 L) (getFlag VCO_L fr);
         x = lanes2 (bin64 L combine) (lanes2 (bin64 L combine) (wideS L s) (wideS L t)) carry;
         hi = lanes2 (bin64 L And) (getAcc fr) (splat (NOT 0xffff));
         fr = setAcc (lanes2 (bin64 L Or) hi (lanes2 (bin64 L And) x (splat 0xffff))) fr;
         fr = clearFlag VCO_L fr;
         fr = clearFlag VCO_H fr;
         c = lanes2 (bin64 L SMax) x (splat (- 32768));
         c = lanes2 (bin64 L SMin) c (splat 32767)
     in (lanes1 (trunc64_16 L) c, fr))"

definition ir_vaddc :: "llvm \<Rightarrow> (nat \<Rightarrow> u16) \<Rightarrow> (nat \<Rightarrow> u16) \<Rightarrow> frame \<Rightarrow> (nat \<Rightarrow> u16) \<times> frame" where
  "ir_vaddc L s t fr =
    (let x = lanes2 (bin64 L Add) (wideU L s) (wideU L t);
         res = lanes1 (trunc64_16 L) x;
         fr = setAccLow L res fr;
         fr = setFlag VCO_L (lanes2 (cmp64 L NE) (lanes2 (bin64 L And) x (splat 0x10000)) (splat 0)) fr;
         fr = clearFlag VCO_H fr
     in (res, fr))"

text \<open>\<open>insn_vsar\<close> replaces \<open>generateIR\<close> itself; its operands are not read.\<close>

definition ir_vsar :: "llvm \<Rightarrow> u32 \<Rightarrow> frame \<Rightarrow> nat \<Rightarrow> u16" where
  "ir_vsar L e fr =
    (if 8 \<le> e \<and> e \<le> 10
     then lanes1 (trunc64_16 L) (lanes2 (bin64 L AShr) (getAcc fr) (splat (ucast (16 * (10 - e)))))
     else splat 0)"

definition ir_vge :: "llvm \<Rightarrow> (nat \<Rightarrow> u16) \<Rightarrow> (nat \<Rightarrow> u16) \<Rightarrow> frame \<Rightarrow> (nat \<Rightarrow> u16) \<times> frame" where
  "ir_vge L s t fr =
    (let gt = lanes2 (cmp16 L SGT) s t;
         eq = lanes2 (cmp16 L EQ) s t;
         both = lanes2 (bin1 L And) (getFlag VCO_H fr) (getFlag VCO_L fr);
         ge = lanes2 (bin1 L Or) gt (lanes2 (bin1 L And) eq (lanes2 (bin1 L Xor) both (splat True)));
         res = lanes3 (sel16 L) ge s t;
         fr = setAccLow L res fr;
         fr = setFlag VCC_L ge fr;
         fr = clearFlag VCC_H fr;
         fr = clearFlag VCO_L fr;
         fr = clearFlag VCO_H fr
     in (res, fr))"

definition ir_vcl :: "llvm \<Rightarrow> (nat \<Rightarrow> u16) \<Rightarrow> (nat \<Rightarrow> u16) \<Rightarrow> frame \<Rightarrow> (nat \<Rightarrow> u16) \<times> frame" where
  "ir_vcl L s t fr =
    (let vcoL = getFlag VCO_L fr;
         vcoH = getFlag VCO_H fr;
         nH = lanes2 (bin1 L Xor) vcoH (splat True);
         sum = lanes2 (bin32 L Add) (lanes1 (zext16_32 L) s) (lanes1 (zext16_32 L) t);
         le = lanes3 (sel1 L) (getFlag VCE fr) (lanes2 (cmp32 L ULE) sum (splat 0x10000))
                (lanes2 (cmp32 L EQ) sum (splat 0));
         vccL = lanes3 (sel1 L) (lanes2 (bin1 L And) vcoL nH) le (getFlag VCC_L fr);
         geu = lanes2 (cmp16 L UGE) s t;
         vccH = lanes3 (sel1 L) (lanes2 (bin1 L And) (lanes2 (bin1 L Xor) vcoL (splat True)) nH) geu (getFlag VCC_H fr);
         rCarry = lanes3 (sel16 L) vccL (lanes2 (bin16 L Sub) (splat 0) t) s;
         rPlain = lanes3 (sel16 L) vccH t s;
         res = lanes3 (sel16 L) vcoL rCarry rPlain;
         fr = setAccLow L res fr;
         fr = setFlag VCC_L vccL fr;
         fr = setFlag VCC_H vccH fr;
         fr = clearFlag VCO_L fr;
         fr = clearFlag VCO_H fr;
         fr = clearFlag VCE fr
     in (res, fr))"

definition ir_vand :: "llvm \<Rightarrow> (nat \<Rightarrow> u16) \<Rightarrow> (nat \<Rightarrow> u16) \<Rightarrow> frame \<Rightarrow> (nat \<Rightarrow> u16) \<times> frame" where
  "ir_vand L s t fr = (let res = lanes2 (bin16 L And) s t in (res, setAccLow L res fr))"

definition ir_vxor :: "llvm \<Rightarrow> (nat \<Rightarrow> u16) \<Rightarrow> (nat \<Rightarrow> u16) \<Rightarrow> frame \<Rightarrow> (nat \<Rightarrow> u16) \<times> frame" where
  "ir_vxor L s t fr = (let res = lanes2 (bin16 L Xor) s t in (res, setAccLow L res fr))"

fun vec_doOp :: "llvm \<Rightarrow> vecop \<Rightarrow> u32 \<Rightarrow> (nat \<Rightarrow> u16) \<Rightarrow> (nat \<Rightarrow> u16) \<Rightarrow> frame \<Rightarrow> (nat \<Rightarrow> u16) \<times> frame" where
  "vec_doOp L Insn_vmulf e s t fr = ir_vmulf L s t fr"
| "vec_doOp L Insn_vmudl e s t fr = ir_vmudl L s t fr"
| "vec_doOp L Insn_vmudm e s t fr = ir_vmudm L s t fr"
| "vec_doOp L Insn_vmudn e s t fr = ir_vmudn L s t fr"
| "vec_doOp L Insn_vmudh e s t fr = ir_vmudh L s t fr"
| "vec_doOp L Insn_vmacf e s t fr = ir_vmacf L s t fr"
| "vec_doOp L Insn_vmadm e s t fr = ir_vmadm L s t fr"
| "vec_doOp L Insn_vmadn e s t fr = ir_vmadn L s t fr"
| "vec_doOp L Insn_vmadh e s t fr = ir_vmadh L s t fr"
| "vec_doOp L Insn_vadd e s t fr = ir_vadd L Add s t fr"
| "vec_doOp L Insn_vsub e s t fr = ir_vadd L Sub s t fr"
| "vec_doOp L Insn_vaddc e s t fr = ir_vaddc L s t fr"
| "vec_doOp L Insn_vsar e s t fr = (ir_vsar L e fr, fr)"
| "vec_doOp L Insn_vge e s t fr = ir_vge L s t fr"
| "vec_doOp L Insn_vcl e s t fr = ir_vcl L s t fr"
| "vec_doOp L Insn_vand e s t fr = ir_vand L s t fr"
| "vec_doOp L Insn_vxor e s t fr = ir_vxor L s t fr"

definition f_e21 :: "u32 \<Rightarrow> u32" where
  "f_e21 inst = drop_bit 21 inst AND 15"

definition gen_vec :: "llvm \<Rightarrow> vecop \<Rightarrow> u32 \<Rightarrow> frame \<Rightarrow> frame" where
  "gen_vec L k inst fr =
    (let s = getVec (f_rd inst) fr;
         t = vtSelect L (f_rt inst) (f_e21 inst) fr;
         (res, fr) = vec_doOp L k (f_e21 inst) s t fr
     in setVec (f_sa inst) res fr)"

subsection \<open>Moves between the register files\<close>

definition ir_getByte :: "llvm \<Rightarrow> (nat \<Rightarrow> u16) \<Rightarrow> nat \<Rightarrow> u32" where
  "ir_getByte L v k =
    (let lane = zext16_32 L (v (drop_bit 1 (k AND 15)))
     in bin32 L And (if k AND 1 \<noteq> 0 then lane else bin32 L LShr lane 8) 0xff)"

definition ir_setByte :: "llvm \<Rightarrow> (nat \<Rightarrow> u16) \<Rightarrow> nat \<Rightarrow> u32 \<Rightarrow> nat \<Rightarrow> u16" where
  "ir_setByte L v k b8 =
    (let idx = drop_bit 1 (k AND 15);
         lane = zext16_32 L (v idx);
         byte = bin32 L And b8 0xff;
         n = (if k AND 1 \<noteq> 0 then bin32 L Or (bin32 L And lane 0xff00) byte
              else bin32 L Or (bin32 L And lane 0x00ff) (bin32 L Shl byte 8))
     in v(idx := trunc32_16 L n))"

definition gen_mfc2 :: "llvm \<Rightarrow> u32 \<Rightarrow> frame \<Rightarrow> frame" where
  "gen_mfc2 L inst fr =
    (let v = getVec (f_rd inst) fr; e = f_e7 inst;
         x = bin32 L Or (bin32 L Shl (ir_getByte L v e) 8) (ir_getByte L v (e + 1))
     in setGPR (f_rt inst) (sext16_32 L (trunc32_16 L x)) fr)"

definition gen_mtc2 :: "llvm \<Rightarrow> u32 \<Rightarrow> frame \<Rightarrow> frame" where
  "gen_mtc2 L inst fr =
    (let x = getGPR (f_rt inst) fr; e = f_e7 inst;
         v = ir_setByte L (getVec (f_rd inst) fr) e (bin32 L LShr x 8);
         v = (if e \<noteq> 15 then ir_setByte L v (e + 1) x else v)
     in setVec (f_rd inst) v fr)"

subsection \<open>Vector memory\<close>

definition ir_ea :: "llvm \<Rightarrow> u32 \<Rightarrow> nat \<Rightarrow> frame \<Rightarrow> u32" where
  "ir_ea L inst shift fr = bin32 L Add (getGPR (f_rs inst) fr) (push_bit shift (f_offs7 inst))"

fun gen_vecmem :: "llvm \<Rightarrow> vecmem \<Rightarrow> u32 \<Rightarrow> frame \<Rightarrow> rsp_err + frame" where
  "gen_vecmem L Insn_lsv inst fr = vecLoad L inst (f_rs inst) (f_rt inst) (ir_ea L inst 1 fr) (f_e7 inst) 2 FIXED fr"
| "gen_vecmem L Insn_llv inst fr = vecLoad L inst (f_rs inst) (f_rt inst) (ir_ea L inst 2 fr) (f_e7 inst) 4 FIXED fr"
| "gen_vecmem L Insn_ldv inst fr = vecLoad L inst (f_rs inst) (f_rt inst) (ir_ea L inst 3 fr) (f_e7 inst) 8 FIXED fr"
| "gen_vecmem L Insn_lqv inst fr = vecLoad L inst (f_rs inst) (f_rt inst) (ir_ea L inst 4 fr) (f_e7 inst) 16 ROW_LEFT fr"
| "gen_vecmem L Insn_lrv inst fr = vecLoad L inst (f_rs inst) (f_rt inst) (ir_ea L inst 4 fr) (f_e7 inst) 16 ROW_RIGHT fr"
| "gen_vecmem L Insn_ssv inst fr = vecStore L inst (f_rs inst) (f_rt inst) (ir_ea L inst 1 fr) (f_e7 inst) 2 FIXED fr"
| "gen_vecmem L Insn_slv inst fr = vecStore L inst (f_rs inst) (f_rt inst) (ir_ea L inst 2 fr) (f_e7 inst) 4 FIXED fr"
| "gen_vecmem L Insn_sdv inst fr = vecStore L inst (f_rs inst) (f_rt inst) (ir_ea L inst 3 fr) (f_e7 inst) 8 FIXED fr"
| "gen_vecmem L Insn_sqv inst fr = vecStore L inst (f_rs inst) (f_rt inst) (ir_ea L inst 4 fr) (f_e7 inst) 16 ROW_LEFT fr"

subsection \<open>generateIR\<close>

text \<open>The classes that may stand in a delay slot, and \<open>break\<close>.\<close>

fun gen_plain :: "llvm \<Rightarrow> rsp_insn \<Rightarrow> u32 \<Rightarrow> u32 \<Rightarrow> frame \<Rightarrow> outcome" where
  "gen_plain L (RType k) inst addr fr = Falls (gen_rtype L k inst fr)"
| "gen_plain L (Shift k) inst addr fr = Falls (gen_shift L k inst fr)"
| "gen_plain L (IType k) inst addr fr = Falls (gen_itype L k inst fr)"
| "gen_plain L (Mem k) inst addr fr = Falls (gen_mem L k inst fr)"
| "gen_plain L Insn_mfc0 inst addr fr = gen_mfc0 inst fr"
| "gen_plain L Insn_mtc0 inst addr fr = gen_mtc0 L inst addr fr"
| "gen_plain L (VecOp k) inst addr fr = Falls (gen_vec L k inst fr)"
| "gen_plain L Insn_mfc2 inst addr fr = Falls (gen_mfc2 L inst fr)"
| "gen_plain L Insn_mtc2 inst addr fr = Falls (gen_mtc2 L inst fr)"
| "gen_plain L (VecMem k) inst addr fr = (case gen_vecmem L k inst fr of Inl d \<Rightarrow> Dies d | Inr fr \<Rightarrow> Falls fr)"
| "gen_plain L _ inst addr fr = exitHalted fr"

fun ir_condition :: "llvm \<Rightarrow> branch \<Rightarrow> u32 \<Rightarrow> frame \<Rightarrow> bool" where
  "ir_condition L Insn_beq inst fr = cmp32 L EQ (getGPR (f_rs inst) fr) (getGPR (f_rt inst) fr)"
| "ir_condition L Insn_bne inst fr = cmp32 L NE (getGPR (f_rs inst) fr) (getGPR (f_rt inst) fr)"
| "ir_condition L Insn_blez inst fr = cmp32 L SLE (getGPR (f_rs inst) fr) 0"
| "ir_condition L Insn_bgtz inst fr = cmp32 L SGT (getGPR (f_rs inst) fr) 0"
| "ir_condition L Insn_bltz inst fr = cmp32 L SLT (getGPR (f_rs inst) fr) 0"
| "ir_condition L Insn_bgez inst fr = cmp32 L SGE (getGPR (f_rs inst) fr) 0"

text \<open>
  The control classes, given their delay slot.  The walk over the image has already pushed the
  context of every reachable \<open>jal\<close>, so \<open>pushCtx\<close> finds it in the call strings.
\<close>

fun gen_control :: "llvm \<Rightarrow> u32 list \<Rightarrow> ctxs \<Rightarrow> nat \<Rightarrow> rsp_insn \<Rightarrow> u32 \<Rightarrow> u32 \<Rightarrow> (frame \<Rightarrow> outcome) \<Rightarrow> frame \<Rightarrow> outcome" where
  "gen_control L roots c curCtx (Branch k) inst addr delay fr =
    (let vCMP = ir_condition L k inst fr
     in and_then (delay fr) (\<lambda>fr. Branches (if vCMP then tAddr inst addr else ntAddr addr, curCtx) fr))"
| "gen_control L roots c curCtx Insn_j inst addr delay fr =
    and_then (delay fr) (\<lambda>fr. Branches (jAddr inst, curCtx) fr)"
| "gen_control L roots c curCtx Insn_jal inst addr delay fr =
    (let link = ntAddr addr; fr = setGPR 31 link fr
     in and_then (delay fr) (\<lambda>fr. Branches (jAddr inst, fst (pushCtx curCtx link c)) fr))"
| "gen_control L roots c curCtx Insn_jr inst addr delay fr =
    (let vTgt = bin32 L And (getGPR (f_rs inst) fr) 0xffc
     in and_then (delay fr) (indirectJump roots c curCtx vTgt))"
| "gen_control L roots c curCtx Insn_jalr inst addr delay fr =
    (let vTgt = bin32 L And (getGPR (f_rs inst) fr) 0xffc; fr = setGPR (f_rd inst) (ntAddr addr) fr
     in and_then (delay fr) (indirectJump roots c curCtx vTgt))"
| "gen_control L roots c curCtx i inst addr delay fr = gen_plain L i inst addr fr"

end
