(* ===== verification/Rsp_Sim.thy ===== *)
theory Rsp_Sim
  imports Rsp_Insn
begin

text \<open>
  Translated code against the interpreter, one instruction at a time: what the code of a class
  does to its frame is what \<open>exec\<close> does to the machine the frame stands for.
\<close>

subsection \<open>The machine a frame stands for\<close>

text \<open>
  The entry block loads the registers of the machine into the frame (\<open>rspbt.cc\<close>, lines 226 to
  249) and the exit block writes them back (lines 282 to 293).
\<close>

definition load_frame :: "rsp_t \<Rightarrow> u32 \<Rightarrow> frame" where
  "load_frame c junk = \<lparr>gpr = rsp_r c, vec = rsp_v c, accs = rsp_acc c,
     flags = (\<lambda>f. case f of VCO_L \<Rightarrow> vco_l c | VCO_H \<Rightarrow> vco_h c | VCC_L \<Rightarrow> vcc_l c | VCC_H \<Rightarrow> vcc_h c | VCE \<Rightarrow> vce c),
     ret_slot = junk, mach = c\<rparr>"

definition over8 :: "(nat \<Rightarrow> 'a) \<Rightarrow> (nat \<Rightarrow> 'a) \<Rightarrow> nat \<Rightarrow> 'a" where
  "over8 f g = (\<lambda>i. if i < 8 then f i else g i)"

definition over_gpr :: "(nat \<Rightarrow> 'a) \<Rightarrow> (nat \<Rightarrow> 'a) \<Rightarrow> nat \<Rightarrow> 'a" where
  "over_gpr f g = (\<lambda>i. if 1 \<le> i \<and> i < 32 then f i else g i)"

definition over_vec :: "(nat \<Rightarrow> nat \<Rightarrow> 'a) \<Rightarrow> (nat \<Rightarrow> nat \<Rightarrow> 'a) \<Rightarrow> nat \<Rightarrow> nat \<Rightarrow> 'a" where
  "over_vec f g = (\<lambda>r. if r < 32 then over8 (f r) (g r) else g r)"

definition write_back :: "frame \<Rightarrow> rsp_t" where
  "write_back fr =
    (let c = mach fr
     in c\<lparr>rsp_r := over_gpr (gpr fr) (rsp_r c), rsp_v := over_vec (vec fr) (rsp_v c),
          rsp_acc := over8 (accs fr) (rsp_acc c),
          vco_l := over8 (flags fr VCO_L) (vco_l c), vco_h := over8 (flags fr VCO_H) (vco_h c),
          vcc_l := over8 (flags fr VCC_L) (vcc_l c), vcc_h := over8 (flags fr VCC_H) (vcc_h c),
          vce := over8 (flags fr VCE) (vce c)\<rparr>)"

lemma over8_simps [simp]: "i < 8 \<Longrightarrow> over8 f g i = f i" "8 \<le> i \<Longrightarrow> over8 f g i = g i" "over8 f f = f"
  by (auto simp: over8_def)

lemma over_same [simp]: "over_gpr f f = f" "over_vec h h = h"
  by (simp_all add: over_gpr_def over_vec_def fun_eq_iff)

lemma write_back_load_frame [simp]: "write_back (load_frame c junk) = c"
  by (simp add: write_back_def load_frame_def Let_def)

text \<open>Register 0 of the machine is never written by translated code; it has to start out zero.\<close>

definition frame_ok :: "frame \<Rightarrow> bool" where
  "frame_ok fr \<longleftrightarrow> rsp_r (mach fr) 0 = 0"

lemma write_back_r: "frame_ok fr \<Longrightarrow> r < 32 \<Longrightarrow> rsp_r (write_back fr) r = getGPR r fr"
  by (auto simp: write_back_def Let_def getGPR_def frame_ok_def over_gpr_def)

lemma write_back_rs [simp]:
  "frame_ok fr \<Longrightarrow> rsp_r (write_back fr) (f_rs inst) = getGPR (f_rs inst) fr"
  "frame_ok fr \<Longrightarrow> rsp_r (write_back fr) (f_rt inst) = getGPR (f_rt inst) fr"
  "frame_ok fr \<Longrightarrow> rsp_r (write_back fr) (f_rd inst) = getGPR (f_rd inst) fr"
  by (simp_all add: write_back_r)

lemma write_back_same [simp]:
  "rsp_mem (write_back fr) = rsp_mem (mach fr)" "imem_gen (write_back fr) = imem_gen (mach fr)"
  "sp_mem_addr (write_back fr) = sp_mem_addr (mach fr)" "sp_dram_addr (write_back fr) = sp_dram_addr (mach fr)"
  "sp_status (write_back fr) = sp_status (mach fr)" "rdram (write_back fr) = rdram (mach fr)"
  "halted (write_back fr) = halted (mach fr)" "rsp_pc (write_back fr) = rsp_pc (mach fr)"
  "n_insns (write_back fr) = n_insns (mach fr)"
  by (simp_all add: write_back_def Let_def)

lemma rd_write_back [simp]:
  "rd8 (write_back fr) a = rd8 (mach fr) a" "rd16 (write_back fr) a = rd16 (mach fr) a"
  "rd32 (write_back fr) a = rd32 (mach fr) a"
  by (simp_all add: rd8_def rd16_def rd32_def)

lemma frame_ok_setGPR [simp]: "frame_ok (setGPR r x fr) = frame_ok fr"
  by (simp add: frame_ok_def setGPR_def)

lemma mach_setGPR [simp]: "mach (setGPR r x fr) = mach fr"
  by (simp add: setGPR_def)

text \<open>Writing a register in the frame and in the machine, register 0 staying zero.\<close>

lemma write_back_setGPR:
  assumes "frame_ok fr" and "r < 32"
  shows "write_back (setGPR r x fr) = set_r (set_r (write_back fr) r x) 0 0"
proof -
  have "over_gpr ((gpr fr)(r := x)) (rsp_r (mach fr)) = ((over_gpr (gpr fr) (rsp_r (mach fr)))(r := x))(0 := 0)" if "r \<noteq> 0"
    using assms that by (auto simp: over_gpr_def frame_ok_def fun_eq_iff)
  moreover have "over_gpr (gpr fr) (rsp_r (mach fr)) = (over_gpr (gpr fr) (rsp_r (mach fr)))(0 := 0)"
    using assms(1) by (auto simp: over_gpr_def frame_ok_def fun_eq_iff)
  ultimately show ?thesis
    by (cases "r = 0") (simp_all add: set_r_def write_back_def Let_def setGPR_def)
qed

lemma write_back_r0: "frame_ok fr \<Longrightarrow> set_r (write_back fr) 0 0 = write_back fr"
  using write_back_setGPR [of fr 0] by (simp add: setGPR_def set_r_def)

text \<open>A change of the machine that leaves the registers of the vector unit and of the core alone.\<close>

definition core_same :: "rsp_t \<Rightarrow> rsp_t \<Rightarrow> bool" where
  "core_same c d \<longleftrightarrow> rsp_r d = rsp_r c \<and> rsp_v d = rsp_v c \<and> rsp_acc d = rsp_acc c \<and> vco_l d = vco_l c \<and>
     vco_h d = vco_h c \<and> vcc_l d = vcc_l c \<and> vcc_h d = vcc_h c \<and> vce d = vce c"

lemma write_back_mem: "write_back (fr\<lparr>mach := (mach fr)\<lparr>rsp_mem := m\<rparr>\<rparr>) = (write_back fr)\<lparr>rsp_mem := m\<rparr>"
  by (simp add: write_back_def Let_def)

lemma frame_ok_mem [simp]: "frame_ok (fr\<lparr>mach := (mach fr)\<lparr>rsp_mem := m\<rparr>\<rparr>) = frame_ok fr"
  by (simp add: frame_ok_def)

subsection \<open>Scalar memory\<close>

lemma mem_at_rd8: "unat ea mod 4096 + k < 4096 \<Longrightarrow> mem_at (ea AND 0xfff) fr k = rd8 (mach fr) (ea + of_nat k)"
proof -
  assume k: "unat ea mod 4096 + k < 4096"
  then have "unat ((ea + of_nat k) AND 0xfff) = unat ea mod 4096 + k"
    unfolding unat_and_0xfff unat_mod_add by (simp add: unat_of_nat) (metis mod_add_left_eq mod_less)
  then show ?thesis by (simp add: mem_at_def rd8_def unat_and_0xfff)
qed

lemma fits_iff:
  assumes "llvm_doc L" and "n \<le> 16"
  shows "fitsInDmem L ea (of_nat n) \<longleftrightarrow> unat ea mod 4096 + n \<le> 4096"
proof -
  have "unat (0x1000 - of_nat n :: u32) = 4096 - n"
    using assms(2) by (subst unat_sub) (simp_all add: word_le_nat_alt unat_of_nat)
  then show ?thesis
    using assms by (auto simp: fitsInDmem_def llvm_laws llvm_cmp word_le_nat_alt unat_and_0xfff)
qed

lemma bswap_load:
  "llvm_doc L \<Longrightarrow> bswap16 L (load16 L m) = push_bit 8 (ucast (m 0)) OR ucast (m 1)"
  "llvm_doc L \<Longrightarrow> bswap32 L (load32 L m) =
    push_bit 24 (ucast (m 0)) OR push_bit 16 (ucast (m 1)) OR push_bit 8 (ucast (m 2)) OR ucast (m 3)"
  by (simp_all add: llvm_bytes) (simp_all add: le16_def le32_def)

lemma loadMem_correct:
  assumes "llvm_doc L"
  shows "loadMem L ea 1 fr = ucast (rd8 (mach fr) ea)" "loadMem L ea 2 fr = ucast (rd16 (mach fr) ea)"
    "loadMem L ea 4 fr = rd32 (mach fr) ea"
proof -
  have m: "mem_at (ea AND 0xfff) fr 0 = rd8 (mach fr) ea"
    using mem_at_rd8 [of ea 0 fr] by simp
  show "loadMem L ea 1 fr = ucast (rd8 (mach fr) ea)"
    using assms by (simp add: loadMem_def Let_def llvm_laws llvm_casts m)
  show "loadMem L ea 2 fr = ucast (rd16 (mach fr) ea)"
  proof (cases "fitsInDmem L ea 2")
    case True
    then have "unat ea mod 4096 + 2 \<le> 4096" using fits_iff [OF assms, of 2 ea] by simp
    then have "mem_at (ea AND 0xfff) fr 1 = rd8 (mach fr) (ea + 1)" using mem_at_rd8 [of ea 1 fr] by simp
    then show ?thesis
      using assms True m by (simp add: loadMem_def Let_def llvm_laws llvm_casts bswap_load rd16_def)
  next
    case False
    then show ?thesis by (simp add: loadMem_def Let_def rspbt_rd_def)
  qed
  show "loadMem L ea 4 fr = rd32 (mach fr) ea"
  proof (cases "fitsInDmem L ea 4")
    case True
    then have "unat ea mod 4096 + 4 \<le> 4096" using fits_iff [OF assms, of 4 ea] by simp
    then have "mem_at (ea AND 0xfff) fr 1 = rd8 (mach fr) (ea + 1)" "mem_at (ea AND 0xfff) fr 2 = rd8 (mach fr) (ea + 2)"
      "mem_at (ea AND 0xfff) fr 3 = rd8 (mach fr) (ea + 3)"
      using mem_at_rd8 [of ea 1 fr] mem_at_rd8 [of ea 2 fr] mem_at_rd8 [of ea 3 fr] by simp_all
    then show ?thesis
      using assms True m by (simp add: loadMem_def Let_def llvm_laws bswap_load rd32_def)
  next
    case False
    then show ?thesis by (simp add: loadMem_def Let_def rspbt_rd_def)
  qed
qed

lemma cell_add:
  assumes "unat ea mod 4096 + k < 4096"
  shows "unat ((ea + of_nat k) AND 0xfff) = unat ((ea :: u32) AND 0xfff) + k"
  using assms unfolding unat_and_0xfff unat_mod_add by (simp add: unat_of_nat) (metis mod_add_left_eq mod_less)

lemma mem_put_1: "mem_put (ea AND 0xfff) 1 b fr = fr\<lparr>mach := wr8 (mach fr) ea (b 0)\<rparr>"
  by (simp add: mem_put_def wr8_def fun_eq_iff le_Suc_eq less_Suc_eq)

lemma mem_put_Suc:
  assumes "unat ea mod 4096 + n < 4096"
  shows "mem_put (ea AND 0xfff) (Suc n) b fr =
    (let fr = mem_put (ea AND 0xfff) n b fr in fr\<lparr>mach := wr8 (mach fr) (ea + of_nat n) (b n)\<rparr>)"
proof -
  have "(\<lambda>i. if unat (ea AND 0xfff) \<le> i \<and> i < unat (ea AND 0xfff) + Suc n then b (i - unat (ea AND 0xfff)) else m i) =
     (\<lambda>i. if unat (ea AND 0xfff) \<le> i \<and> i < unat (ea AND 0xfff) + n then b (i - unat (ea AND 0xfff)) else m i)
       (unat (ea AND 0xfff) + n := b n)" for m
    by (auto simp: fun_eq_iff)
  then show ?thesis
    by (simp add: mem_put_def wr8_def cell_add [OF assms] Let_def)
qed

lemma mem_put_2:
  assumes "unat ea mod 4096 + 2 \<le> 4096" and "b 0 = ucast (drop_bit 8 y)" and "b (Suc 0) = ucast y"
  shows "mem_put (ea AND 0xfff) 2 b fr = fr\<lparr>mach := wr16 (mach fr) ea y\<rparr>"
proof -
  have "mem_put (ea AND 0xfff) (Suc 1) b fr = fr\<lparr>mach := wr16 (mach fr) ea y\<rparr>"
    using assms by (subst mem_put_Suc) (simp_all only: mem_put_1 Let_def, simp_all add: wr16_def)
  then show ?thesis by (simp only: Suc_1)
qed

lemma mem_put_4:
  assumes "unat ea mod 4096 + 4 \<le> 4096"
    and "b 0 = ucast (drop_bit 24 x)" "b (Suc 0) = ucast (drop_bit 16 x)" "b 2 = ucast (drop_bit 8 x)" "b 3 = ucast x"
  shows "mem_put (ea AND 0xfff) 4 b fr = fr\<lparr>mach := wr32 (mach fr) ea x\<rparr>"
proof -
  have s: "Suc 1 = 2" "Suc 2 = 3" "Suc 3 = 4" by simp_all
  note put = mem_put_1 [of ea b fr] mem_put_Suc [of ea 1 b fr] mem_put_Suc [of ea 2 b fr] mem_put_Suc [of ea 3 b fr]
  from assms(1) have "unat ea mod 4096 + 1 < 4096" "unat ea mod 4096 + 2 < 4096" "unat ea mod 4096 + 3 < 4096"
    by simp_all
  then show ?thesis
    using put(2-4) unfolding s put(1) Let_def by (simp add: wr32_def Let_def assms)
qed

lemma bswap_bytes:
  "llvm_doc L \<Longrightarrow> bytes16 L (bswap16 L h) 0 = ucast (drop_bit 8 h)" "llvm_doc L \<Longrightarrow> bytes16 L (bswap16 L h) 1 = ucast h"
  "llvm_doc L \<Longrightarrow> bytes32 L (bswap32 L w) 0 = ucast (drop_bit 24 w)" "llvm_doc L \<Longrightarrow> bytes32 L (bswap32 L w) 1 = ucast (drop_bit 16 w)"
  "llvm_doc L \<Longrightarrow> bytes32 L (bswap32 L w) 2 = ucast (drop_bit 8 w)" "llvm_doc L \<Longrightarrow> bytes32 L (bswap32 L w) 3 = ucast w"
  by (simp_all add: llvm_bytes) (simp_all add: byte_of_def)

lemma storeMem_correct:
  assumes "llvm_doc L"
  shows "storeMem L ea x 1 fr = fr\<lparr>mach := wr8 (mach fr) ea (ucast x)\<rparr>"
    "storeMem L ea x 2 fr = fr\<lparr>mach := wr16 (mach fr) ea (ucast x)\<rparr>"
    "storeMem L ea x 4 fr = fr\<lparr>mach := wr32 (mach fr) ea x\<rparr>"
proof -
  show "storeMem L ea x 1 fr = fr\<lparr>mach := wr8 (mach fr) ea (ucast x)\<rparr>"
    using assms mem_put_1 by (simp add: storeMem_def Let_def llvm_laws llvm_casts)
  have "mem_put (ea AND 0xfff) 2 (bytes16 L (bswap16 L (ucast x))) fr = fr\<lparr>mach := wr16 (mach fr) ea (ucast x)\<rparr>"
    if "fitsInDmem L ea 2"
    using that fits_iff [OF assms, of 2 ea] by (intro mem_put_2) (simp_all add: bswap_bytes [OF assms, simplified])
  then show "storeMem L ea x 2 fr = fr\<lparr>mach := wr16 (mach fr) ea (ucast x)\<rparr>"
    using assms by (simp add: storeMem_def Let_def llvm_laws llvm_casts rspbt_wr_def)
  have "mem_put (ea AND 0xfff) 4 (bytes32 L (bswap32 L x)) fr = fr\<lparr>mach := wr32 (mach fr) ea x\<rparr>"
    if "fitsInDmem L ea 4"
    using that fits_iff [OF assms, of 4 ea] by (intro mem_put_4) (simp_all add: bswap_bytes [OF assms, simplified])
  then show "storeMem L ea x 4 fr = fr\<lparr>mach := wr32 (mach fr) ea x\<rparr>"
    using assms by (simp add: storeMem_def Let_def llvm_laws llvm_casts rspbt_wr_def)
qed

subsection \<open>Register files swapped out\<close>

text \<open>The machine \<open>c\<close> with the registers of \<open>q\<close>: what memory operations and DMA do not look at.\<close>

definition with_regs :: "rsp_t \<Rightarrow> rsp_t \<Rightarrow> rsp_t" where
  "with_regs q c = c\<lparr>rsp_r := rsp_r q, rsp_v := rsp_v q, rsp_acc := rsp_acc q, vco_l := vco_l q, vco_h := vco_h q,
     vcc_l := vcc_l q, vcc_h := vcc_h q, vce := vce q\<rparr>"

lemma write_back_with_regs: "write_back fr = with_regs (write_back fr) (mach fr)"
  by (simp add: write_back_def with_regs_def Let_def)

lemma write_back_mach: "core_same (mach fr) c \<Longrightarrow> write_back (fr\<lparr>mach := c\<rparr>) = with_regs (write_back fr) c"
  by (simp add: write_back_def with_regs_def Let_def core_same_def)

lemma with_regs_store:
  "wr8 (with_regs q c) a b = with_regs q (wr8 c a b)" "wr16 (with_regs q c) a y = with_regs q (wr16 c a y)"
  "wr32 (with_regs q c) a x = with_regs q (wr32 c a x)"
  by (simp_all add: with_regs_def wr8_def wr16_def wr32_def Let_def)

lemma core_same_store: "core_same c (wr8 c a b)" "core_same c (wr16 c a y)" "core_same c (wr32 c a x)"
  by (simp_all add: core_same_def wr8_def wr16_def wr32_def Let_def)

lemma write_back_store:
  "write_back (fr\<lparr>mach := wr8 (mach fr) a b\<rparr>) = wr8 (write_back fr) a b"
  "write_back (fr\<lparr>mach := wr16 (mach fr) a y\<rparr>) = wr16 (write_back fr) a y"
  "write_back (fr\<lparr>mach := wr32 (mach fr) a x\<rparr>) = wr32 (write_back fr) a x"
  by (simp_all add: write_back_mach core_same_store with_regs_store flip: write_back_with_regs)
   (metis with_regs_store write_back_with_regs)+

subsection \<open>Agreement of translated code with the interpreter\<close>

text \<open>
  \<open>agrees addr s res out\<close>: the code of the instruction at \<open>addr\<close>, started on a frame that stands
  for \<open>s\<close>, ends the way the interpreter's \<open>res\<close> says.  It falls through to the next instruction with
  a frame for the new machine; a \<open>break\<close> returns the marker of a halted machine; when instruction
  memory changed it returns the address of the next instruction, for \<open>run\<close> to retranslate.
\<close>

definition next_addr :: "u32 \<Rightarrow> u32" where
  "next_addr addr = (addr + 4) AND 0xffc"

fun agrees :: "u32 \<Rightarrow> rsp_t \<Rightarrow> rsp_err + rsp_t \<times> u32 \<Rightarrow> outcome \<Rightarrow> bool" where
  "agrees addr s (Inl d) out \<longleftrightarrow> out = Dies d"
| "agrees addr s (Inr (t, after)) out \<longleftrightarrow> after = pc_after (next_addr addr) \<and>
    (case out of
       Falls fr \<Rightarrow> frame_ok fr \<and> write_back fr = set_r t 0 0 \<and> \<not> halted t \<and> imem_gen t = imem_gen s
     | Returns fr \<Rightarrow> frame_ok fr \<and> write_back fr = set_r t 0 0 \<and>
         (if halted t then ret_slot fr = 0xffffffff
          else imem_gen t \<noteq> imem_gen s \<and> ret_slot fr = next_addr addr)
     | _ \<Rightarrow> False)"

text \<open>A frame in a translated function: the machine it was called on has not halted.\<close>

definition live :: "frame \<Rightarrow> bool" where
  "live fr \<longleftrightarrow> frame_ok fr \<and> \<not> halted (mach fr)"

lemma live_simps [simp]: "live fr \<Longrightarrow> frame_ok fr" "live fr \<Longrightarrow> \<not> halted (mach fr)"
  by (simp_all add: live_def)

lemma agrees_setGPR:
  assumes "live fr" and "r < 32" and "x = y"
  shows "agrees addr (write_back fr) (Inr (set_r (write_back fr) r x, pc_after (next_addr addr))) (Falls (setGPR r y fr))"
  using assms by (simp add: write_back_setGPR)

lemma agrees_store:
  assumes "live fr"
  shows "agrees addr (write_back fr) (Inr (wr8 (write_back fr) a b, pc_after (next_addr addr))) (Falls (fr\<lparr>mach := wr8 (mach fr) a b\<rparr>))"
    "agrees addr (write_back fr) (Inr (wr16 (write_back fr) a y, pc_after (next_addr addr))) (Falls (fr\<lparr>mach := wr16 (mach fr) a y\<rparr>))"
    "agrees addr (write_back fr) (Inr (wr32 (write_back fr) a x, pc_after (next_addr addr))) (Falls (fr\<lparr>mach := wr32 (mach fr) a x\<rparr>))"
proof -
  have s: "set_r (wr8 s a b) 0 0 = wr8 (set_r s 0 0) a b" "set_r (wr16 s a y) 0 0 = wr16 (set_r s 0 0) a y"
    "set_r (wr32 s a x) 0 0 = wr32 (set_r s 0 0) a x" for s
    by (simp_all add: wr8_def wr16_def wr32_def Let_def set_r_def)
  have h: "halted (wr8 s a b) = halted s" "halted (wr16 s a y) = halted s" "halted (wr32 s a x) = halted s"
    "imem_gen (wr8 s a b) = imem_gen s" "imem_gen (wr16 s a y) = imem_gen s" "imem_gen (wr32 s a x) = imem_gen s"
    "rsp_r (wr8 s a b) = rsp_r s" "rsp_r (wr16 s a y) = rsp_r s" "rsp_r (wr32 s a x) = rsp_r s" for s
    by (simp_all add: wr8_def wr16_def wr32_def Let_def)
  show "agrees addr (write_back fr) (Inr (wr8 (write_back fr) a b, pc_after (next_addr addr))) (Falls (fr\<lparr>mach := wr8 (mach fr) a b\<rparr>))"
    "agrees addr (write_back fr) (Inr (wr16 (write_back fr) a y, pc_after (next_addr addr))) (Falls (fr\<lparr>mach := wr16 (mach fr) a y\<rparr>))"
    "agrees addr (write_back fr) (Inr (wr32 (write_back fr) a x, pc_after (next_addr addr))) (Falls (fr\<lparr>mach := wr32 (mach fr) a x\<rparr>))"
    using assms
    by (simp_all add: s h write_back_store frame_ok_def live_def write_back_r0)
qed

text \<open>A predicate on the value of \<open>decode\<close>, taken apart along its conditions.\<close>

definition on_Some :: "('a \<Rightarrow> bool) \<Rightarrow> 'a option \<Rightarrow> bool" where
  "on_Some P x = (case x of None \<Rightarrow> True | Some r \<Rightarrow> P r)"

lemma on_Some_simps [simp]: "on_Some P None" "on_Some P (Some r) = P r"
  by (simp_all add: on_Some_def)

lemma on_Some_if: "(c \<Longrightarrow> on_Some P a) \<Longrightarrow> (\<not> c \<Longrightarrow> on_Some P b) \<Longrightarrow> on_Some P (if c then a else b)"
  by simp

lemma rtype_values:
  assumes "llvm_doc L"
  shows "rtype_doOp L Insn_add a b = a + b" "rtype_doOp L Insn_sub a b = a - b" "rtype_doOp L Insn_and a b = a AND b"
    "rtype_doOp L Insn_or a b = a OR b" "rtype_doOp L Insn_xor a b = a XOR b" "rtype_doOp L Insn_nor a b = NOT (a OR b)"
    "rtype_doOp L Insn_slt a b = bool_u32 (a <s b)" "rtype_doOp L Insn_sltu a b = bool_u32 (a < b)"
    "rtype_doOp L Insn_sllv a b = push_bit (unat (a AND 31)) b" "rtype_doOp L Insn_srlv a b = drop_bit (unat (a AND 31)) b"
    "rtype_doOp L Insn_srav a b = signed_drop_bit (unat (a AND 31)) b"
  using assms by (simp_all add: llvm_laws llvm_cmp llvm_casts bool_u32_def)

definition sim_at :: "llvm \<Rightarrow> u32 \<Rightarrow> u32 \<Rightarrow> frame \<Rightarrow> rsp_insn \<Rightarrow> bool" where
  "sim_at L inst addr fr i \<longleftrightarrow> isControl i \<or>
    agrees addr (write_back fr) (exec (write_back fr) inst (next_addr addr)) (gen_plain L i inst addr fr)"

lemma sim_break: "live fr \<Longrightarrow> agrees addr (write_back fr) (Inr ((write_back fr)\<lparr>halted := True\<rparr>, pc_after (next_addr addr))) (exitHalted fr)"
  by (simp add: exitHalted_def frame_ok_def live_def write_back_def Let_def set_r_def)
    (simp add: over_gpr_def fun_eq_iff)

lemma sim_special:
  assumes "llvm_doc L" and "live fr" and "f_op inst = 0"
  shows "on_Some (sim_at L inst addr fr) (decode_special (f_fn inst))"
proof -
  have u: "unat (of_nat (f_sa inst) :: u32) = f_sa inst"
    using f_sa_less [of inst] by (simp add: unat_of_nat del: f_sa_less)
  have sh: "bin32 L Shl x (of_nat (f_sa inst)) = push_bit (f_sa inst) x"
    "bin32 L LShr x (of_nat (f_sa inst)) = drop_bit (f_sa inst) x"
    "bin32 L AShr x (of_nat (f_sa inst)) = signed_drop_bit (f_sa inst) x" for x
    using llvm_laws(12-14) [OF assms(1), of "of_nat (f_sa inst)" x] by (simp_all add: u)
  have e: "exec (write_back fr) inst np = exec_special (write_back fr) inst np" for np
    using assms(3) by (simp add: exec_def)
  show ?thesis
    unfolding decode_special_def
    by (intro on_Some_if; auto simp: sim_at_def e exec_special_def Let_def gen_rtype_def assms sim_break rtype_values sh
        simp del: agrees.simps rtype_doOp.simps intro!: agrees_setGPR)
qed

lemma bool_u32_of_bool: "bool_u32 = of_bool"
  by (simp add: bool_u32_def fun_eq_iff)

lemma decode_plain:
  "f_op inst = 0x08 \<or> f_op inst = 0x09 \<Longrightarrow> decode inst = Some (IType Insn_addi)"
  "f_op inst = 0x0a \<Longrightarrow> decode inst = Some (IType Insn_slti)" "f_op inst = 0x0b \<Longrightarrow> decode inst = Some (IType Insn_sltiu)"
  "f_op inst = 0x0c \<Longrightarrow> decode inst = Some (IType Insn_andi)" "f_op inst = 0x0d \<Longrightarrow> decode inst = Some (IType Insn_ori)"
  "f_op inst = 0x0e \<Longrightarrow> decode inst = Some (IType Insn_xori)" "f_op inst = 0x0f \<Longrightarrow> decode inst = Some (IType Insn_lui)"
  "f_op inst = 0x20 \<Longrightarrow> decode inst = Some (Mem Insn_lb)" "f_op inst = 0x21 \<Longrightarrow> decode inst = Some (Mem Insn_lh)"
  "f_op inst = 0x23 \<Longrightarrow> decode inst = Some (Mem Insn_lw)" "f_op inst = 0x24 \<Longrightarrow> decode inst = Some (Mem Insn_lbu)"
  "f_op inst = 0x25 \<Longrightarrow> decode inst = Some (Mem Insn_lhu)" "f_op inst = 0x28 \<Longrightarrow> decode inst = Some (Mem Insn_sb)"
  "f_op inst = 0x29 \<Longrightarrow> decode inst = Some (Mem Insn_sh)" "f_op inst = 0x2b \<Longrightarrow> decode inst = Some (Mem Insn_sw)"
  by (auto simp: decode_def)

lemma load_casts:
  "(scast (ucast (ucast (b :: u8) :: u32) :: u8) :: u32) = scast b" "(scast (ucast (ucast (h :: u16) :: u32) :: u16) :: u32) = scast h"
proof -
  have "(ucast (ucast b :: u32) :: u8) = b" "(ucast (ucast h :: u32) :: u16) = h"
    by (rule bit_word_eqI; simp add: bit_simps)+
  then show "(scast (ucast (ucast b :: u32) :: u8) :: u32) = scast b" "(scast (ucast (ucast h :: u32) :: u16) :: u32) = scast h"
    by simp_all
qed

text \<open>Any of the opcodes without a control effect, scalar loads and stores included.\<close>

lemma sim_plain:
  assumes "llvm_doc L" and "live fr" and "exec_plain (write_back fr) inst \<noteq> None"
  shows "on_Some (sim_at L inst addr fr) (decode inst)"
proof -
  have op: "f_op inst \<in> {0x08, 0x09, 0x0a, 0x0b, 0x0c, 0x0d, 0x0e, 0x0f, 0x20, 0x21, 0x23, 0x24, 0x25, 0x28, 0x29, 0x2b}"
    using assms(3) unfolding exec_plain_def Let_def by (simp split: if_split_asm) auto
  note rules = exec_def exec_plain_def Let_def sim_at_def effAddr_def bool_u32_of_bool llvm_laws [OF assms(1)] llvm_cmp [OF assms(1)]
    llvm_casts [OF assms(1)] loadMem_correct [OF assms(1)] storeMem_correct [OF assms(1)] load_casts
  show ?thesis
    using op by (elim insertE emptyE; simp add: decode_plain rules assms(2) agrees_setGPR agrees_store del: agrees.simps)
qed

subsection \<open>COP0\<close>

lemma with_regs_dma_row:
  "dma_row to_rsp len skip bank (off, dram, with_regs q s) =
    map_prod id (map_prod id (with_regs q)) (dma_row to_rsp len skip bank (off, dram, s))"
  by (simp add: dma_row_def Let_def with_regs_def)

lemma with_regs_dma_rows:
  "dma_rows n to_rsp len skip bank (off, dram, with_regs q s) =
    map_prod id (map_prod id (with_regs q)) (dma_rows n to_rsp len skip bank (off, dram, s))"
proof (induction n arbitrary: off dram s)
  case 0
  then show ?case by simp
next
  case (Suc n)
  then show ?case
    by (cases "dma_row to_rsp len skip bank (off, dram, s)") (simp add: with_regs_dma_row)
qed

lemma with_regs_dma: "dma (with_regs q s) x to_rsp = with_regs q (dma s x to_rsp)"
proof -
  have "sp_mem_addr (with_regs q s) = sp_mem_addr s" "sp_dram_addr (with_regs q s) = sp_dram_addr s"
    by (simp_all add: with_regs_def)
  then show ?thesis
    by (simp add: dma_def Let_def with_regs_dma_rows split: prod.splits) (simp add: with_regs_def)
qed

lemma with_regs_mtc0: "mtc0 (with_regs q s) rd x = map_sum id (with_regs q) (mtc0 s rd x)"
  by (simp add: mtc0_def with_regs_dma rsp_die_def) (simp add: with_regs_def apply_status_write_def)

lemma with_regs_mfc0: "mfc0 (with_regs q s) rd = mfc0 s rd"
  by (simp add: mfc0_def rsp_die_def with_regs_def)

lemma core_same_with_regs: "core_same q (with_regs q c)"
  by (simp add: core_same_def with_regs_def)

lemma core_same_dma: "core_same s (dma s x to_rsp)"
proof -
  have "dma s x to_rsp = with_regs s (dma s x to_rsp)"
    using with_regs_dma [of s s x to_rsp] by (simp add: with_regs_def)
  then show ?thesis using core_same_with_regs by metis
qed


lemma core_same_mtc0: "mtc0 s rd x = Inr t \<Longrightarrow> core_same s t"
  by (auto simp: mtc0_def core_same_dma rsp_die_def split: if_splits) (simp_all add: core_same_def apply_status_write_def)

lemma mtc0_halted: "mtc0 s rd x = Inr t \<Longrightarrow> halted t = halted s"
  using op_frame_mtc0 by (simp add: op_frame_def)

lemma f_rd_u32: "unat (of_nat (f_rd inst) :: u32) = f_rd inst"
  using f_rd_less [of inst] by (simp add: unat_of_nat del: f_rd_less)

lemma sim_mfc0:
  assumes "llvm_doc L" and "live fr" and "f_op inst = 0x10" and "f_rs inst = 0"
  shows "sim_at L inst addr fr Insn_mfc0"
proof -
  have "exec (write_back fr) inst np = fall_through (map_sum id (set_r (write_back fr) (f_rt inst)) (mfc0 (write_back fr) (f_rd inst))) np" for np
    using assms(3,4) by (simp add: exec_def exec_cop0_def split: sum.splits)
  moreover have "mfc0 (write_back fr) (f_rd inst) = mfc0 (mach fr) (f_rd inst)"
    by (subst write_back_with_regs) (rule with_regs_mfc0)
  ultimately show ?thesis
    using assms(2) by (cases "mfc0 (mach fr) (f_rd inst)")
      (auto simp: sim_at_def gen_mfc0_def rspbt_mfc0_def f_rd_u32 fall_through_def simp del: agrees.simps(2) intro!: agrees_setGPR)
qed

lemma sim_mtc0:
  assumes "llvm_doc L" and "live fr" and "f_op inst = 0x10" and "f_rs inst = 4"
  shows "sim_at L inst addr fr Insn_mtc0"
proof -
  let ?x = "getGPR (f_rt inst) fr"
  have e: "exec (write_back fr) inst np = fall_through (mtc0 (write_back fr) (f_rd inst) ?x) np" for np
    using assms(2-4) by (simp add: exec_def exec_cop0_def)
  have m: "mtc0 (write_back fr) (f_rd inst) ?x = map_sum id (with_regs (write_back fr)) (mtc0 (mach fr) (f_rd inst) ?x)"
    by (subst write_back_with_regs) (rule with_regs_mtc0)
  show ?thesis
  proof (cases "mtc0 (mach fr) (f_rd inst) ?x")
    case (Inl d)
    then show ?thesis
      by (simp add: sim_at_def gen_mtc0_def rspbt_mtc0_def f_rd_u32 e m fall_through_def)
  next
    case (Inr c)
    note same = core_same_mtc0 [OF Inr]
    have r0: "rsp_r (mach fr) 0 = 0" "rsp_r c 0 = 0" "rsp_r (write_back fr) 0 = 0"
      using assms(2) same by (simp_all add: live_def frame_ok_def core_same_def write_back_def over_gpr_def Let_def)
    have wb: "write_back (fr\<lparr>mach := c\<rparr>) = set_r (with_regs (write_back fr) c) 0 0"
      "write_back (fr\<lparr>mach := c, ret_slot := p\<rparr>) = set_r (with_regs (write_back fr) c) 0 0" for p
    proof -
      show "write_back (fr\<lparr>mach := c\<rparr>) = set_r (with_regs (write_back fr) c) 0 0"
        using r0(3) unfolding write_back_mach [OF same] by (intro rsp_t.equality) (simp_all add: set_r_def with_regs_def fun_upd_idem)
      then show "write_back (fr\<lparr>mach := c, ret_slot := p\<rparr>) = set_r (with_regs (write_back fr) c) 0 0"
        by (simp add: write_back_def Let_def)
    qed
    have h: "\<not> halted c" "halted (with_regs q c) = halted c" "imem_gen (with_regs q c) = imem_gen c" for q
      using mtc0_halted [OF Inr] assms(2) by (simp_all add: with_regs_def)
    show ?thesis
      using r0(2) h assms(1) by (simp add: sim_at_def gen_mtc0_def rspbt_mtc0_def f_rd_u32 e m Inr fall_through_def Let_def
          llvm_cmp exitToInterp_def wb frame_ok_def next_addr_def)
  qed
qed

end
