(* ===== verification/Rsp_Sim_Vec.thy ===== *)
theory Rsp_Sim_Vec
  imports Rsp_Sim
begin

text \<open>
  The vector half of the simulation: an operation of the vector unit in translated code is the
  interpreter's operation in every lane, and the moves between the register files are the same.
\<close>


subsection \<open>Vector operations, lane by lane\<close>

definition frame_lane :: "frame \<Rightarrow> nat \<Rightarrow> lane" where
  "frame_lane fr i = \<lparr>ln_acc = accs fr i, ln_vco_l = flags fr VCO_L i, ln_vco_h = flags fr VCO_H i,
     ln_vcc_l = flags fr VCC_L i, ln_vcc_h = flags fr VCC_H i, ln_vce = flags fr VCE i\<rparr>"

text \<open>
  What a \<open>doOp\<close> leaves behind is one application of the interpreter's operation \<open>f\<close> in every
  lane, and nothing but the accumulator and the flags has changed.
\<close>

definition lanewise :: "(u16 \<Rightarrow> u16 \<Rightarrow> lane \<Rightarrow> u16 \<times> lane) \<Rightarrow> (nat \<Rightarrow> u16) \<Rightarrow> (nat \<Rightarrow> u16) \<Rightarrow> frame \<Rightarrow> (nat \<Rightarrow> u16) \<times> frame \<Rightarrow> bool" where
  "lanewise f s t fr = (\<lambda>(res, fr').
     (\<forall>i. f (s i) (t i) (frame_lane fr i) = (res i, frame_lane fr' i)) \<and>
     gpr fr' = gpr fr \<and> vec fr' = vec fr \<and> mach fr' = mach fr)"

lemma frame_lane_simps [simp]:
  "ln_acc (frame_lane fr i) = accs fr i" "ln_vco_l (frame_lane fr i) = flags fr VCO_L i"
  "ln_vco_h (frame_lane fr i) = flags fr VCO_H i" "ln_vcc_l (frame_lane fr i) = flags fr VCC_L i"
  "ln_vcc_h (frame_lane fr i) = flags fr VCC_H i" "ln_vce (frame_lane fr i) = flags fr VCE i"
  by (simp_all add: frame_lane_def)

lemma frame_lane_setAcc: "frame_lane (setAcc x fr) i = (frame_lane fr i)\<lparr>ln_acc := x i\<rparr>"
  by (simp add: frame_lane_def setAcc_def)

lemma frame_lane_setFlag:
  "frame_lane (setFlag VCO_L x fr) i = (frame_lane fr i)\<lparr>ln_vco_l := x i\<rparr>"
  "frame_lane (setFlag VCO_H x fr) i = (frame_lane fr i)\<lparr>ln_vco_h := x i\<rparr>"
  "frame_lane (setFlag VCC_L x fr) i = (frame_lane fr i)\<lparr>ln_vcc_l := x i\<rparr>"
  "frame_lane (setFlag VCC_H x fr) i = (frame_lane fr i)\<lparr>ln_vcc_h := x i\<rparr>"
  "frame_lane (setFlag VCE x fr) i = (frame_lane fr i)\<lparr>ln_vce := x i\<rparr>"
  by (simp_all add: frame_lane_def setFlag_def)

lemma clearFlag_set: "clearFlag f fr = setFlag f (\<lambda>_. False) fr"
  by (simp add: clearFlag_def setFlag_def splat_def)

lemma set_frame [simp]:
  "gpr (setAcc x fr) = gpr fr" "vec (setAcc x fr) = vec fr" "mach (setAcc x fr) = mach fr" "flags (setAcc x fr) = flags fr"
  "accs (setAcc x fr) = x"
  "gpr (setFlag f y fr) = gpr fr" "vec (setFlag f y fr) = vec fr" "mach (setFlag f y fr) = mach fr" "accs (setFlag f y fr) = accs fr"
  "flags (setFlag f y fr) = (flags fr)(f := y)"
  by (simp_all add: setAcc_def setFlag_def)

lemma setAccLow_eq: "llvm_doc L \<Longrightarrow> setAccLow L res fr = setAcc (\<lambda>i. (accs fr i AND NOT 0xffff) OR ucast (res i)) fr"
  by (simp add: setAccLow_def lane_defs getAcc_def llvm_laws llvm_casts)

lemma sint_32767: "sint x = 32767 \<longleftrightarrow> x = (32767 :: u64)"
  using signed_word_eqI [of x 32767] by auto

lemma satMid_eq:
  assumes "llvm_doc L"
  shows "satMid L a i = clamp_s16 (signed_drop_bit 16 (a i))"
proof -
  show ?thesis
    using assms by (auto simp: sint_32767 satMid_def lane_defs Let_def llvm_laws llvm_casts clamp_s16_def word_sless_alt)
qed

lemma low_16: "ucast ((x :: u64) AND 0xffff) = (ucast x :: u16)"
  unfolding and_16_ucast by (rule bit_word_eqI) (simp add: bit_simps)

lemma clampLow_eq: "llvm_doc L \<Longrightarrow> clampLow L a i = clamp_acc_low (a i)"
  by (simp add: low_16 clampLow_def lane_defs Let_def llvm_cmp llvm_casts clamp_acc_low_def)

lemma sext48_ir_eq: "llvm_doc L \<Longrightarrow> sext48_ir L a i = sext48 (a i)"
  by (simp add: sext48_ir_def lane_defs llvm_laws sext48_def)

lemmas ir_simps = getAcc_def getFlag_def lane_defs Let_def llvm_laws llvm_cmp llvm_casts wideS_def wideU_def
  frame_lane_setAcc frame_lane_setFlag clearFlag_set setAccLow_eq satMid_eq clampLow_eq sext48_ir_eq

lemma push_1: "push_bit (Suc 0) x = x * (2 :: u64)"
  by (simp add: push_bit_eq_mult)

lemma vmudl_shift: "drop_bit 16 (ucast (s :: u16) * ucast (t :: u16) :: u64) = signed_drop_bit 16 (ucast s * ucast t)"
proof -
  have "uint (ucast s * ucast t :: u64) < 2 ^ 32"
    using u16_prod_bounds(4,5) [of s t] by (simp add: mul_words unsigned_of_int take_bit_int_eq_self del: of_int_mult)
  then have "take_bit 32 (ucast s * ucast t :: u64) = ucast s * ucast t"
    by (simp add: word_uint_eq_iff unsigned_take_bit_eq take_bit_int_eq_self)
  then have "\<not> bit (ucast s * ucast t :: u64) n" if "32 \<le> n" for n
    using that by (metis bit_take_bit_iff not_le)
  then show ?thesis
    by (intro bit_word_eqI) (auto simp: bit_simps)
qed

lemma lanewise_multiplies:
  assumes "llvm_doc L"
  shows "lanewise vmulf s t fr (ir_vmulf L s t fr)" "lanewise vmudl s t fr (ir_vmudl L s t fr)"
    "lanewise vmudm s t fr (ir_vmudm L s t fr)" "lanewise vmudn s t fr (ir_vmudn L s t fr)"
    "lanewise vmudh s t fr (ir_vmudh L s t fr)" "lanewise vmacf s t fr (ir_vmacf L s t fr)"
    "lanewise vmadm s t fr (ir_vmadm L s t fr)" "lanewise vmadn s t fr (ir_vmadn L s t fr)"
    "lanewise vmadh s t fr (ir_vmadh L s t fr)"
  using assms
  by (simp_all add: lanewise_def ir_vmulf_def ir_vmudl_def ir_vmudm_def ir_vmudn_def ir_vmudh_def ir_vmacf_def ir_vmadm_def
      ir_vmadn_def ir_vmadh_def vmulf_def vmudl_def vmudm_def vmudn_def vmudh_def vmacf_def vmadm_def vmadn_def vmadh_def
      ir_simps push_1 vmudl_shift)


lemma carry_bit: "signed_drop_bit 16 x AND 1 \<noteq> 0 \<longleftrightarrow> (x :: u64) AND 0x10000 \<noteq> 0"
  using and_exp_eq_0_iff_not_bit [of x 16] and_exp_eq_0_iff_not_bit [of "signed_drop_bit 16 x" 0]
  by (simp add: bit_simps)

lemma sat_select: "ucast (if (if x <s - 32768 then - 32768 else x) <s 32767 then (if x <s - 32768 then - 32768 else x) else 32767)
    = clamp_s16 (x :: u64)"
  by (auto simp: clamp_s16_def word_sless_alt sint_32767)

lemma lanewise_adds:
  assumes "llvm_doc L"
  shows "lanewise vadd s t fr (ir_vadd L Add s t fr)" "lanewise vsub s t fr (ir_vadd L Sub s t fr)"
    "lanewise vaddc s t fr (ir_vaddc L s t fr)"
  using assms
  by (simp_all add: lanewise_def ir_vadd_def ir_vaddc_def vadd_def vsub_def vaddc_def acc_low_def sat_select ir_simps carry_bit
      low_16) (simp add: and_16_ucast)

lemma neg_low: "(ucast (- (ucast (t :: u16) :: u64)) :: u16) = - t"
  using u16_bounds(3,4) [of t]
  by (intro word_uint_eqI) (simp add: unsigned_ucast_eq uint_word_ariths take_bit_eq_mod mod_mod_cancel mod_pos_pos_trivial)

lemma vcl_sum:
  "(ucast (s :: u16) + ucast (t :: u16) :: u32) \<le> 0x10000 \<longleftrightarrow> (ucast s + ucast t :: u64) <=s 0x10000"
  "(ucast s + ucast t :: u32) = 0 \<longleftrightarrow> (ucast s + ucast t :: u64) = 0"
  "t \<le> s \<longleftrightarrow> 0 <=s (ucast s - ucast t :: u64)"
  "ucast (- (ucast t :: u64)) = - t"
proof -
  note b = u16_bounds [of s] u16_bounds [of t]
  have w: "(ucast s + ucast t :: u32) = word_of_int (uint s + uint t)" "(ucast s + ucast t :: u64) = word_of_int (uint s + uint t)"
    "(ucast s - ucast t :: u64) = word_of_int (uint s - uint t)"
    by simp_all
  have u: "uint (ucast s + ucast t :: u32) = uint s + uint t" "uint (ucast s + ucast t :: u64) = uint s + uint t"
    "sint (ucast s + ucast t :: u64) = uint s + uint t" "sint (ucast s - ucast t :: u64) = uint s - uint t"
  proof -
    show "uint (ucast s + ucast t :: u32) = uint s + uint t" "uint (ucast s + ucast t :: u64) = uint s + uint t"
      unfolding w using b by (simp_all add: unsigned_of_int take_bit_int_eq_self del: of_int_add)
    show "sint (ucast s + ucast t :: u64) = uint s + uint t" "sint (ucast s - ucast t :: u64) = uint s - uint t"
      unfolding w by (rule sint_small_of_int; use b in \<open>simp; linarith\<close>)+
  qed
  show "(ucast s + ucast t :: u32) \<le> 0x10000 \<longleftrightarrow> (ucast s + ucast t :: u64) <=s 0x10000"
    unfolding word_le_def word_sle_eq u by simp
  show "(ucast s + ucast t :: u32) = 0 \<longleftrightarrow> (ucast s + ucast t :: u64) = 0"
    unfolding word_uint_eq_iff [where 'a = 32] word_uint_eq_iff [where 'a = 64] u by simp
  show "t \<le> s \<longleftrightarrow> 0 <=s (ucast s - ucast t :: u64)"
    unfolding word_le_def word_sle_eq u by simp
  show "ucast (- (ucast t :: u64)) = - t"
    by (rule neg_low)
qed

lemma vsar_elements: "8 \<le> e \<and> e \<le> 10 \<longleftrightarrow> e = 8 \<or> e = 9 \<or> e = (10 :: u32)"
  by (auto simp: word_le_nat_alt word_unat_eq_iff)

lemma lanewise_selects:
  assumes "llvm_doc L"
  shows "lanewise vge s t fr (ir_vge L s t fr)" "lanewise vcl s t fr (ir_vcl L s t fr)"
    "lanewise vand s t fr (ir_vand L s t fr)" "lanewise vxor s t fr (ir_vxor L s t fr)"
    "lanewise (vsar e) s t fr (ir_vsar L e fr, fr)"
proof -
  show "lanewise vge s t fr (ir_vge L s t fr)" 
    "lanewise vand s t fr (ir_vand L s t fr)" "lanewise vxor s t fr (ir_vxor L s t fr)"
    using assms by (simp_all add: lanewise_def ir_vge_def ir_vand_def ir_vxor_def vge_def vand_def vxor_def vlogic_def acc_low_def ir_simps)
  show "lanewise (vsar e) s t fr (ir_vsar L e fr, fr)"
    using assms by (auto simp: lanewise_def ir_vsar_def vsar_def vsar_elements ir_simps)
  show "lanewise vcl s t fr (ir_vcl L s t fr)"
    using assms by (auto simp: lanewise_def ir_vcl_def vcl_def acc_low_def ir_simps vcl_sum frame_lane_def)
qed


subsection \<open>One vector instruction\<close>

text \<open>The interpreter's operation for each class.\<close>

fun vec_sem :: "vecop \<Rightarrow> u32 \<Rightarrow> u16 \<Rightarrow> u16 \<Rightarrow> lane \<Rightarrow> u16 \<times> lane" where
  "vec_sem Insn_vmulf e = vmulf" | "vec_sem Insn_vmudl e = vmudl" | "vec_sem Insn_vmudm e = vmudm"
| "vec_sem Insn_vmudn e = vmudn" | "vec_sem Insn_vmudh e = vmudh" | "vec_sem Insn_vmacf e = vmacf"
| "vec_sem Insn_vmadm e = vmadm" | "vec_sem Insn_vmadn e = vmadn" | "vec_sem Insn_vmadh e = vmadh"
| "vec_sem Insn_vadd e = vadd" | "vec_sem Insn_vsub e = vsub" | "vec_sem Insn_vaddc e = vaddc"
| "vec_sem Insn_vsar e = vsar e" | "vec_sem Insn_vge e = vge" | "vec_sem Insn_vcl e = vcl"
| "vec_sem Insn_vand e = vand" | "vec_sem Insn_vxor e = vxor"

lemma vec_doOp_lanewise: "llvm_doc L \<Longrightarrow> lanewise (vec_sem k e) s t fr (vec_doOp L k e s t fr)"
  by (cases k) (simp_all add: lanewise_multiplies lanewise_adds lanewise_selects)

lemma decode_vec_op: "decode_vec fn = Some i \<Longrightarrow> \<exists>k. i = VecOp k \<and> vec_op fn e = Some (vec_sem k e)"
  unfolding decode_vec_def by (simp split: if_split_asm) (auto simp: vec_op_def)

lemma vt_lane_less: "i < 8 \<Longrightarrow> unat (vt_lane e (of_nat i)) < 8"
proof -
  assume i: "i < 8"
  have t: "unat x < 8" if "take_bit 3 x = x" for x :: u32
  proof -
    have "unat (take_bit 3 x) < 2 ^ 3" unfolding unat_take_bit by simp
    then show ?thesis using that by simp
  qed
  have "take_bit 3 i = i" using i by (simp add: take_bit_nat_eq_self)
  then have b: "n < 3" if "bit i n" for n
    using that by (metis bit_take_bit_iff)
  have m: "(1 :: u32) = mask 1" "(3 :: u32) = mask 2" "(7 :: u32) = mask 3"
    by (simp_all add: mask_eq_exp_minus_1)
  show ?thesis
    unfolding vt_lane_def m
    by (rule t, rule bit_word_eqI) (auto simp: bit_simps dest: b)
qed

lemma vtSelect_eq:
  assumes "llvm_doc L" and "i < 8"
  shows "vtSelect L vt e fr i = getVec vt fr (unat (vt_lane e (of_nat i)))"
proof -
  have m: "vt_mask e ! i = uint (vt_lane e (of_nat i))" if "\<not> e < 2"
    using assms(2) that unfolding vt_mask_def vt_lane_def by (subst nth_map) (simp_all only: length_upt nth_upt if_False add_0 minus_nat.diff_0 cong: if_cong)
  have "uint (vt_lane e (of_nat i)) < 8"
  proof -
    have "uint (vt_lane e (of_nat i)) = int (unat (vt_lane e (of_nat i)))" by simp
    then show ?thesis using vt_lane_less [OF assms(2), of e] by linarith
  qed
  then have b: "0 \<le> vt_mask e ! i" "vt_mask e ! i < 8" if "\<not> e < 2"
    using m [OF that] by simp_all
  have l: "i < length (vt_mask e)" using assms(2) by (simp add: vt_mask_def)
  show ?thesis
  proof (cases "e < 2")
    case True
    then show ?thesis using assms(2) by (simp add: vtSelect_def vt_lane_def unat_of_nat)
  next
    case False
    then have "vtSelect L vt e fr i = shuffle16 L (getVec vt fr) (vt_mask e) i" by (simp add: vtSelect_def)
    also have "\<dots> = getVec vt fr (nat (vt_mask e ! i))"
      by (rule llvm_shuffles(1) [OF assms(1) l b(1) [OF False] b(2) [OF False]])
    also have "\<dots> = getVec vt fr (unat (vt_lane e (of_nat i)))"
      by (simp only: m [OF False] unat_eq_nat_uint)
    finally show ?thesis .
  qed
qed


lemma write_back_vec: "r < 32 \<Longrightarrow> i < 8 \<Longrightarrow> rsp_v (write_back fr) r i = getVec r fr i"
  by (simp add: write_back_def Let_def over_vec_def getVec_def)

lemma write_back_lane: "get_lane (write_back fr) i = (if i < 8 then frame_lane fr i else get_lane (mach fr) i)"
  by (simp add: get_lane_def write_back_def Let_def frame_lane_def)

lemma get_lane_eq_iff: "get_lane s = get_lane t \<longleftrightarrow> rsp_acc s = rsp_acc t \<and> vco_l s = vco_l t \<and> vco_h s = vco_h t \<and>
    vcc_l s = vcc_l t \<and> vcc_h s = vcc_h t \<and> vce s = vce t"
  by (auto simp: get_lane_def fun_eq_iff)

lemma machine_eqI:
  assumes "non_vector s = non_vector t" and "rsp_v s = rsp_v t" and "get_lane s = get_lane t"
  shows "s = t"
  using assms(2,3) arg_cong [OF assms(1), of rsp_r] arg_cong [OF assms(1), of rsp_pc] arg_cong [OF assms(1), of rsp_mem]
    arg_cong [OF assms(1), of sp_mem_addr] arg_cong [OF assms(1), of sp_dram_addr] arg_cong [OF assms(1), of sp_status]
    arg_cong [OF assms(1), of imem_gen] arg_cong [OF assms(1), of halted] arg_cong [OF assms(1), of rdram]
    arg_cong [OF assms(1), of n_insns]
  unfolding get_lane_eq_iff by (intro rsp_t.equality) (simp_all add: non_vector_def)

lemma sim_vec:
  assumes "llvm_doc L" and "live fr" and "f_op inst = 0x12" and "drop_bit 25 inst AND 1 \<noteq> (0 :: u32)"
    and "decode_vec (f_fn inst) = Some i"
  shows "sim_at L inst addr fr i"
proof -
  obtain k where k: "i = VecOp k" "vec_op (f_fn inst) (f_e21 inst) = Some (vec_sem k (f_e21 inst))"
    using decode_vec_op [OF assms(5)] by blast
  let ?s = "getVec (f_rd inst) fr" and ?t = "vtSelect L (f_rt inst) (f_e21 inst) fr" and ?f = "vec_sem k (f_e21 inst)"
  obtain res fr' where r: "vec_doOp L k (f_e21 inst) ?s ?t fr = (res, fr')" by fastforce
  from vec_doOp_lanewise [OF assms(1), of k "f_e21 inst" ?s ?t fr] have lanes: "lanewise ?f ?s ?t fr (res, fr')"
    by (simp add: r)
  obtain t where t: "cop2 (write_back fr) inst = Inr t" "non_vector t = non_vector (write_back fr)"
    "\<forall>i. i < 8 \<longrightarrow> rsp_v t (f_sa inst) i = fst (lane_result ?f inst (write_back fr) i) \<and>
                  get_lane t i = snd (lane_result ?f inst (write_back fr) i)"
    "\<forall>i. 8 \<le> i \<longrightarrow> rsp_v t (f_sa inst) i = rsp_v (write_back fr) (f_sa inst) i \<and> get_lane t i = get_lane (write_back fr) i"
    "\<forall>vr. vr \<noteq> f_sa inst \<longrightarrow> rsp_v t vr = rsp_v (write_back fr) vr"
    using cop2_op [OF assms(4) k(2) [unfolded f_e21_def], of "write_back fr"] unfolding f_e21_def by blast
  have res: "lane_result ?f inst (write_back fr) j = (res j, frame_lane fr' j)" if "j < 8" for j
  proof -
    have "?f (?s j) (?t j) (frame_lane fr j) = (res j, frame_lane fr' j)"
      using lanes by (auto simp: lanewise_def)
    then show ?thesis
      using vt_lane_less [OF that, of "f_e21 inst"] that
      by (simp add: lane_result_def write_back_vec write_back_lane vtSelect_eq [OF assms(1) that] flip: f_e21_def)
  qed
  have same: "gpr fr' = gpr fr" "vec fr' = vec fr" "mach fr' = mach fr"
    using lanes by (simp_all add: lanewise_def)
  have "write_back (setVec (f_sa inst) res fr') = t"
  proof (rule machine_eqI)
    show "non_vector (write_back (setVec (f_sa inst) res fr')) = non_vector t"
      unfolding t(2) by (simp add: non_vector_def write_back_def Let_def setVec_def same)
    show "get_lane (write_back (setVec (f_sa inst) res fr')) = get_lane t"
    proof
      fix j
      have "frame_lane (setVec (f_sa inst) res fr') j = frame_lane fr' j" "mach (setVec (f_sa inst) res fr') = mach fr"
        by (simp_all add: frame_lane_def setVec_def same)
      then show "get_lane (write_back (setVec (f_sa inst) res fr')) j = get_lane t j"
        using t(3,4) res by (simp add: write_back_lane)
    qed
    show "rsp_v (write_back (setVec (f_sa inst) res fr')) = rsp_v t"
    proof (intro ext)
      fix vr j
      show "rsp_v (write_back (setVec (f_sa inst) res fr')) vr j = rsp_v t vr j"
        using t(3,4,5) res
        by (cases "vr = f_sa inst"; cases "j < 8") (simp_all add: write_back_def Let_def over_vec_def setVec_def same)
    qed
  qed
  moreover have "mach (setVec (f_sa inst) res fr') = mach fr" "frame_ok (setVec (f_sa inst) res fr')"
    using assms(2) by (simp_all add: setVec_def same frame_ok_def live_def)
  moreover have "set_r t 0 0 = t" if "write_back g = t" "frame_ok g" for g
    using write_back_r0 [OF that(2)] that(1) by simp
  ultimately show ?thesis
    using assms(2,3) t(1) unfolding k(1) by (auto simp: sim_at_def exec_def fall_through_def gen_vec_def Let_def r)
qed

subsection \<open>Moves\<close>

lemma getByte_eq:
  assumes "llvm_doc L" and "vd < 32"
  shows "ir_getByte L (getVec vd fr) k = ucast (vbyte (write_back fr) vd k)"
proof -
  have "drop_bit 1 (k AND 15) < 8" unfolding byte_index by simp
  then have v: "rsp_v (write_back fr) vd (drop_bit 1 (k AND 15)) = getVec vd fr (drop_bit 1 (k AND 15))"
    by (rule write_back_vec [OF assms(2)])
  have b: "ucast (x :: u16) AND 0xff = (ucast (ucast x :: u8) :: u32)" "drop_bit 8 (ucast x) AND 0xff = (ucast (ucast (drop_bit 8 x) :: u8) :: u32)" for x
    unfolding mask_eq_exp_minus_1 [of 8, where 'a = "32 word", simplified, symmetric]
    by (rule bit_word_eqI; auto simp: bit_simps)+
  show ?thesis
    using assms(1) by (simp add: ir_getByte_def vbyte_def Let_def llvm_laws llvm_casts v [simplified] b [simplified])
qed

lemma setByte_eq:
  assumes "llvm_doc L" and "vd < 32"
  shows "write_back (setVec vd (ir_setByte L (getVec vd fr) k x) fr) = set_vbyte (write_back fr) vd k (ucast x)"
proof -
  let ?j = "drop_bit 1 (k AND 15)"
  have j: "?j < 8" unfolding byte_index by simp
  have v: "rsp_v (write_back fr) vd ?j = getVec vd fr ?j"
    by (rule write_back_vec [OF assms(2) j])
  have b: "ucast ((ucast (y :: u16) AND 0xff00) OR (x AND 0xff) :: u32) = (y AND 0xff00) OR (ucast (ucast x :: u8) :: u16)"
    "ucast ((ucast (y :: u16) AND 0x00ff) OR push_bit 8 (x AND 0xff) :: u32) = (y AND 0x00ff) OR (push_bit 8 (ucast (ucast x :: u8) :: u16))" for y
  proof -
    have m: "(0xff :: u32) = mask 8" "(0xff00 :: u32) = push_bit 8 (mask 8)"
      by (simp_all add: mask_eq_exp_minus_1)
    show "ucast ((ucast (y :: u16) AND 0xff00) OR (x AND 0xff) :: u32) = (y AND 0xff00) OR (ucast (ucast x :: u8) :: u16)"
      "ucast ((ucast (y :: u16) AND 0x00ff) OR push_bit 8 (x AND 0xff) :: u32) = (y AND 0x00ff) OR (push_bit 8 (ucast (ucast x :: u8) :: u16))"
      unfolding m u16_masks by (rule bit_word_eqI; auto simp: bit_simps)+
  qed
  have "over_vec ((vec fr)(vd := (getVec vd fr)(?j := z))) g = (over_vec (vec fr) g)(vd := (over_vec (vec fr) g vd)(?j := z))" for z g
    using assms(2) j by (auto simp: over_vec_def over8_def getVec_def fun_eq_iff)
  then have "write_back (setVec vd ((getVec vd fr)(?j := z)) fr) = set_v (write_back fr) vd ?j z" for z
    by (simp add: set_v_def write_back_def Let_def setVec_def)
  then show ?thesis
    using assms(1) by (simp add: ir_setByte_def set_vbyte_def Let_def llvm_laws llvm_casts v [simplified] b [simplified])
qed

lemma setVec_simps [simp]: "getVec r (setVec r x fr) = x" "setVec r y (setVec r x fr) = setVec r y fr"
  "mach (setVec r x fr) = mach fr" "frame_ok (setVec r x fr) = frame_ok fr"
  by (simp_all add: getVec_def setVec_def frame_ok_def)

lemma agrees_regs:
  assumes "live fr" and "write_back fr' = t" and "mach fr' = mach fr"
  shows "agrees addr (write_back fr) (Inr (t, pc_after (next_addr addr))) (Falls fr')"
proof -
  have "frame_ok fr'" "\<not> halted t" "imem_gen t = imem_gen (write_back fr)"
    using assms by (auto simp: frame_ok_def live_def)
  then show ?thesis using write_back_r0 [of fr'] assms(2) by simp
qed

lemma sim_moves:
  assumes "llvm_doc L" and "live fr" and "f_op inst = 0x12" and "drop_bit 25 inst AND 1 = (0 :: u32)"
  shows "f_rs inst = 0 \<Longrightarrow> sim_at L inst addr fr Insn_mfc2" "f_rs inst = 4 \<Longrightarrow> sim_at L inst addr fr Insn_mtc2"
proof -
  assume "f_rs inst = 0"
  moreover have "ucast (push_bit 8 (ucast (a :: u8)) OR ucast (b :: u8) :: u32) = (push_bit 8 (ucast a) OR ucast b :: u16)" for a b
    by (rule bit_word_eqI) (auto simp: bit_simps)
  ultimately show "sim_at L inst addr fr Insn_mfc2"
    using assms by (simp add: sim_at_def exec_def cop2_def cop2_move_def fall_through_def gen_mfc2_def Let_def getByte_eq
        llvm_laws llvm_casts agrees_setGPR del: agrees.simps)
next
  assume rs: "f_rs inst = 4"
  let ?x = "getGPR (f_rt inst) fr"
  have e: "exec (write_back fr) inst np = Inr ((let s = set_vbyte (write_back fr) (f_rd inst) (f_e7 inst) (ucast (drop_bit 8 ?x))
      in if f_e7 inst \<noteq> 15 then set_vbyte s (f_rd inst) (f_e7 inst + 1) (ucast ?x) else s), pc_after np)" for np
    using assms(2-4) rs by (simp add: exec_def cop2_def cop2_move_def fall_through_def Let_def)
  have "write_back (gen_mtc2 L inst fr) = (let s = set_vbyte (write_back fr) (f_rd inst) (f_e7 inst) (ucast (drop_bit 8 ?x))
      in if f_e7 inst \<noteq> 15 then set_vbyte s (f_rd inst) (f_e7 inst + 1) (ucast ?x) else s)"
    using assms(1) setByte_eq [OF assms(1) f_rd_less, of inst fr "f_e7 inst" "drop_bit 8 ?x"]
      setByte_eq [OF assms(1) f_rd_less, of inst "setVec (f_rd inst) (ir_setByte L (getVec (f_rd inst) fr) (f_e7 inst) (drop_bit 8 ?x)) fr"
        "f_e7 inst + 1" ?x]
    by (cases "f_e7 inst = 15") (simp_all add: gen_mtc2_def Let_def llvm_laws)
  moreover have "mach (gen_mtc2 L inst fr) = mach fr"
    by (simp add: gen_mtc2_def Let_def)
  ultimately show "sim_at L inst addr fr Insn_mtc2"
    using assms(2) by (simp add: sim_at_def e agrees_regs del: agrees.simps)
qed

end
