(* ===== verification/Rsp_Sim_Vmem.thy ===== *)
theory Rsp_Sim_Vmem
  imports Rsp_Sim_Vec
begin

text \<open>
  Vector loads and stores in translated code: the inline paths, which move a whole register
  through the host's byte order, and the calls back into the interpreter's routines.
\<close>


subsection \<open>A register as sixteen bytes in the host's order\<close>

lemma swap_pairs: "j < 16 \<Longrightarrow> swapPairs 16 ! j = int (if even j then j + 1 else j - 1)" "length (swapPairs 16) = 16"
proof -
  have "(j :: nat) XOR 1 = (if even j then j + 1 else j - 1)" by (simp only: xor_one_eq) auto
  then show "j < 16 \<Longrightarrow> swapPairs 16 ! j = int (if even j then j + 1 else j - 1)"
    unfolding swapPairs_def by (simp only: nth_map length_upt nth_upt add_0 diff_zero)
qed (simp add: swapPairs_def)

lemma shuffle_swap:
  assumes "llvm_doc L" and "j < 16"
  shows "shuffle8 L 16 b b (swapPairs 16) j = b (if even j then j + 1 else j - 1)"
proof -
  have "(if even j then j + 1 else j - 1) < 16" using assms(2) by (auto elim!: evenE)
  then show ?thesis
    using llvm_shuffles(2) [OF assms(1), of j "swapPairs 16" 16 b b] assms(2) by (simp add: swap_pairs)
qed

lemma toBytes_eq:
  assumes "llvm_doc L" and "vt < 32" and "j < 16"
  shows "toBytes L (getVec vt fr) j = vbyte (write_back fr) vt j"
proof -
  have "j div 2 < 8" using assms(3) by simp
  then have v: "rsp_v (write_back fr) vt (j div 2) = getVec vt fr (j div 2)" by (rule write_back_vec [OF assms(2)])
  have b: "vbyte (write_back fr) vt j = (if odd j then ucast (getVec vt fr (j div 2)) else ucast (drop_bit 8 (getVec vt fr (j div 2))))"
    using assms(3) by (simp add: vbyte_eq v)
  show ?thesis
    unfolding toBytes_def Let_def shuffle_swap [OF assms(1,3)] b
    using assms(1) by (auto simp: llvm_bytes byte_of_def elim!: evenE oddE)
qed

lemma fromBytes_lane:
  assumes "llvm_doc L" and "i < 8"
  shows "fromBytes L b i = push_bit 8 (ucast (b (2 * i))) OR ucast (b (2 * i + 1))"
proof -
  have "2 * i < 16" "2 * i + 1 < 16" using assms(2) by simp_all
  then show ?thesis
    using assms(1) by (simp add: fromBytes_def Let_def llvm_bytes shuffle_swap le16_def)
qed

lemma vbyte_fromBytes:
  assumes "llvm_doc L" and "vt < 32" and "j < 16"
  shows "vbyte (write_back (setVec vt (fromBytes L b) fr)) vt j = b j"
proof -
  have i: "j div 2 < 8" using assms(3) by simp
  have v: "rsp_v (write_back (setVec vt (fromBytes L b) fr)) vt (j div 2) = fromBytes L b (j div 2)"
    by (simp add: write_back_vec [OF assms(2) i])
  have w: "ucast (push_bit 8 (ucast x) OR ucast y :: u16) = y" "ucast (drop_bit 8 (push_bit 8 (ucast x) OR ucast y :: u16)) = x" for x y :: u8
    by (rule bit_word_eqI; auto simp: bit_simps dest: bit_u8_less)+
  show ?thesis
    using assms(3) by (cases "odd j") (auto simp: vbyte_eq v fromBytes_lane [OF assms(1) i] w w [simplified] elim!: evenE oddE)
qed

text \<open>Machines that differ in the eight lanes of one vector register only.\<close>

definition same_but_vreg :: "nat \<Rightarrow> rsp_t \<Rightarrow> rsp_t \<Rightarrow> bool" where
  "same_but_vreg vt s t \<longleftrightarrow> s\<lparr>rsp_v := rsp_v t\<rparr> = t \<and> (\<forall>r i. r \<noteq> vt \<or> 8 \<le> i \<longrightarrow> rsp_v s r i = rsp_v t r i)"

lemma same_but_vreg_refl [simp]: "same_but_vreg vt s s"
  by (simp add: same_but_vreg_def)

lemma same_but_vreg_set_vbyte: "same_but_vreg vt s t \<Longrightarrow> same_but_vreg vt s (set_vbyte t vt k b)"
proof -
  assume s: "same_but_vreg vt s t"
  have k: "drop_bit 1 (k AND 15) < 8" unfolding byte_index by simp
  have "s\<lparr>rsp_v := w\<rparr> = t\<lparr>rsp_v := w\<rparr>" for w
    using s unfolding same_but_vreg_def by (metis rsp_t.update_convs(4) rsp_t.surjective)
  then show ?thesis
    using s k by (auto simp: same_but_vreg_def set_vbyte_def Let_def set_v_def simp del: One_nat_def)
qed

lemma same_but_vreg_setVec: "vt < 32 \<Longrightarrow> same_but_vreg vt (write_back fr) (write_back (setVec vt x fr))"
  by (auto simp: same_but_vreg_def write_back_def Let_def setVec_def over_vec_def)

lemma same_vbytes:
  assumes "same_but_vreg vt u s" and "same_but_vreg vt u t" and "\<And>j. j < 16 \<Longrightarrow> vbyte s vt j = vbyte t vt j"
  shows "s = t"
proof -
  have "rsp_v s vt i = rsp_v t vt i" if "i < 8" for i
    using that assms(3) [of "2 * i"] assms(3) [of "2 * i + 1"] lane_of_bytes [OF that, of s vt] lane_of_bytes [OF that, of t vt]
    by simp
  then have "rsp_v s r i = rsp_v t r i" for r i
    using assms(1,2) by (cases "r = vt"; cases "i < 8") (auto simp: same_but_vreg_def)
  then have "rsp_v s = rsp_v t" by (intro ext)
  then show ?thesis using assms(1,2) unfolding same_but_vreg_def by metis
qed

subsection \<open>Inline loads\<close>

lemma load_same_but_vreg:
  "same_but_vreg vt s (load_bytes vt e ea n s)" "same_but_vreg vt s (load_right vt e ea s)"
  unfolding load_bytes_def load_right_def Let_def
  by (rule copy_loop_inv; simp add: same_but_vreg_set_vbyte)+

text \<open>An inline load is determined by the sixteen bytes it puts together.\<close>

lemma inline_load:
  assumes "llvm_doc L" and "vt < 32" and "same_but_vreg vt (write_back fr) t"
    and "\<And>j. j < 16 \<Longrightarrow> res j = vbyte t vt j"
  shows "write_back (setVec vt (fromBytes L res) fr) = t"
  using assms by (intro same_vbytes [OF same_but_vreg_setVec [OF assms(2)] assms(3)]) (simp add: vbyte_fromBytes)

lemma blend_eq:
  assumes "llvm_doc L" and "e + n \<le> 16" and "j < 16"
  shows "shuffle8 L 16 old (shuffle8 L n inp inp (widen_mask n)) (blend_mask e n) j =
    (if e \<le> j \<and> j < e + n then inp (j - e) else old j)"
proof -
  have m: "blend_mask e n ! j = (if e \<le> j \<and> j < e + n then int (16 + j - e) else int j)" "length (blend_mask e n) = 16"
    using assms(3) by (simp_all add: blend_mask_def del: upt_rec_numeral)
  have w: "widen_mask n ! i = int i" if "i < n" for i
    using that assms(2) by (simp add: widen_mask_def del: upt_rec_numeral)
  have d: "nat (int j - int e) = j - e" by linarith
  have "shuffle8 L n inp inp (widen_mask n) (j - e) = inp (j - e)" if "e \<le> j" "j < e + n"
    using llvm_shuffles(2) [OF assms(1), of "j - e" "widen_mask n" n inp inp] that assms(2) w [of "j - e"] d
    by (auto simp: widen_mask_def simp del: upt_rec_numeral)
  moreover have "nat (16 + int j - int e) - 16 = j - e" if "e \<le> j" using that by linarith
  ultimately show ?thesis
    using llvm_shuffles(2) [OF assms(1), of j "blend_mask e n" 16 old "shuffle8 L n inp inp (widen_mask n)"] assms(2,3)
    by (auto simp: m)
qed

lemma fixed_load:
  assumes "llvm_doc L" and "vt < 32" and "e + n \<le> 16" and "n = 16 \<longrightarrow> e = 0" and "fitsInDmem L ea (of_nat n)"
  shows "write_back (vecLoad_inline L vt ea e n FIXED fr) = load_bytes vt e ea n (write_back fr)"
proof -
  let ?inp = "mem_at (ea AND 0xfff) fr" and ?old = "toBytes L (getVec vt fr)"
  let ?res = "if n = 16 then ?inp else shuffle8 L 16 ?old (shuffle8 L n ?inp ?inp (widen_mask n)) (blend_mask e n)"
  have fits: "unat ea mod 4096 + n \<le> 4096"
    using fits_iff [OF assms(1), of n ea] assms(3,5) by simp
  have inp: "?inp k = rd8 (write_back fr) (ea + of_nat k)" if "k < n" for k
    using mem_at_rd8 [of ea k fr] fits that by simp
  have "?res j = vbyte (load_bytes vt e ea n (write_back fr)) vt j" if "j < 16" for j
  proof (cases "e \<le> j \<and> j < e + n")
    case True
    then show ?thesis
      using load_bytes_read [of e "j - e" n vt ea "write_back fr"] assms(3,4) that inp [of "j - e"]
      by (auto simp: blend_eq [OF assms(1,3) that])
  next
    case False
    then show ?thesis
      using load_bytes_frame [OF that, of e n vt ea "write_back fr"] assms(3,4) that
      by (auto simp: blend_eq [OF assms(1,3) that] toBytes_eq [OF assms(1,2) that])
  qed
  moreover have "vecLoad_inline L vt ea e n FIXED fr = setVec vt (fromBytes L ?res) fr"
    using assms(1) by (simp add: vecLoad_inline_def Let_def llvm_laws)
  ultimately show ?thesis
    using inline_load [OF assms(1,2) load_same_but_vreg(1)] by metis
qed

lemma row_n8:
  assumes "llvm_doc L"
  shows "unat (trunc32_8 L (bin32 L Sub 16 (bin32 L And ea 15))) = row_rest ea"
proof -
  have "row_rest ea < 256" by (simp add: row_rest_eq)
  then show ?thesis
    using assms by (simp add: llvm_laws llvm_casts unsigned_ucast_eq row_rest_def take_bit_nat_eq_self)
qed

lemma of_nat_u8: "i < 16 \<Longrightarrow> unat (of_nat i :: u8) = i"
  by (simp add: unat_of_nat)

lemma left_load:
  assumes "llvm_doc L" and "vt < 32" and "ea AND 0xfff \<le> 0xff0"
  shows "write_back (vecLoad_inline L vt ea 0 16 ROW_LEFT fr) = load_bytes vt 0 ea (row_rest ea) (write_back fr)"
proof -
  let ?n8 = "trunc32_8 L (bin32 L Sub 16 (bin32 L And ea 15))"
  let ?res = "lanes3 (sel8 L) (\<lambda>i. cmp8 L ULT (of_nat i) ?n8) (mem_at (ea AND 0xfff) fr) (toBytes L (getVec vt fr))"
  have fits: "unat ea mod 4096 + 16 \<le> 4096"
    using assms(3) by (simp add: word_le_nat_alt unat_and_0xfff)
  have "?res j = vbyte (load_bytes vt 0 ea (row_rest ea) (write_back fr)) vt j" if "j < 16" for j
  proof -
    have "?res j = (if j < row_rest ea then mem_at (ea AND 0xfff) fr j else toBytes L (getVec vt fr) j)"
      using assms(1) that by (simp add: lanes3_def llvm_cmp llvm_casts(13) word_less_nat_alt row_n8 of_nat_u8)
    then show ?thesis
      using load_bytes_read [of 0 j "row_rest ea" vt ea "write_back fr"] load_bytes_frame [OF that, of 0 "row_rest ea" vt ea "write_back fr"]
        mem_at_rd8 [of ea j fr] fits that by (simp add: toBytes_eq [OF assms(1,2)])
  qed
  moreover have "vecLoad_inline L vt ea 0 16 ROW_LEFT fr = setVec vt (fromBytes L ?res) fr"
    using assms(1) by (simp add: vecLoad_inline_def Let_def llvm_laws)
  ultimately show ?thesis
    using inline_load [OF assms(1,2) load_same_but_vreg(1)] by metis
qed

lemma window_below:
  assumes "16 \<le> unat (ea :: u32) mod 4096"
  shows "(ea AND 0xfff) - 16 = (ea - 16) AND 0xfff" "unat (ea - 16) mod 4096 = unat ea mod 4096 - 16"
proof -
  define q r where "q = unat ea div 4096" and "r = unat ea mod 4096"
  have u: "unat ea = 4096 * q + r" and r: "16 \<le> r" "r < 4096"
    using assms unfolding q_def r_def by simp_all
  have "unat (ea - 16) = 4096 * q + (r - 16)"
    using u r by (simp add: unat_sub word_le_nat_alt)
  moreover have "(4096 * q + (r - 16)) mod 4096 = r - 16"
    using r by (simp only: mod_mult_self4) simp
  ultimately show m: "unat (ea - 16) mod 4096 = unat ea mod 4096 - 16"
    by (simp only: r_def)
  have "unat ((ea AND 0xfff) - 16) = unat ea mod 4096 - 16"
    using assms by (simp add: unat_sub word_le_nat_alt unat_and_0xfff)
  then show "(ea AND 0xfff) - 16 = (ea - 16) AND 0xfff"
    by (simp add: word_unat_eq_iff unat_and_0xfff m)
qed

lemma right_load:
  assumes "llvm_doc L" and "vt < 32" and "16 \<le> ea AND 0xfff"
  shows "write_back (vecLoad_inline L vt ea 0 16 ROW_RIGHT fr) = load_right vt 0 ea (write_back fr)"
proof -
  let ?n8 = "trunc32_8 L (bin32 L Sub 16 (bin32 L And ea 15))"
  let ?res = "lanes3 (sel8 L) (\<lambda>i. cmp8 L UGE (of_nat i) ?n8) (mem_at ((ea AND 0xfff) - 16) fr) (toBytes L (getVec vt fr))"
  have low: "16 \<le> unat ea mod 4096"
    using assms(3) by (simp add: word_le_nat_alt unat_and_0xfff)
  have win: "(ea AND 0xfff) - 16 = (ea - 16) AND 0xfff" "unat (ea - 16) mod 4096 + 16 \<le> 4096"
    using window_below [OF low] low mod_less_divisor [of 4096 "unat ea"] by auto
  have "?res j = vbyte (load_right vt 0 ea (write_back fr)) vt j" if "j < 16" for j
  proof -
    have r: "?res j = (if row_rest ea \<le> j then mem_at ((ea - 16) AND 0xfff) fr j else toBytes L (getVec vt fr) j)"
      using assms(1) that by (simp add: lanes3_def llvm_cmp llvm_casts(13) word_le_nat_alt row_n8 of_nat_u8 win)
    have a: "ea - 16 + of_nat j = ea - of_nat (16 - j)"
      using that by (simp add: of_nat_diff)
    show ?thesis
      using load_right_read [of 0 ea j vt "write_back fr"] load_right_frame [of 0 j ea vt "write_back fr"]
        mem_at_rd8 [of "ea - 16" j fr] win(2) that unfolding r by (auto simp: toBytes_eq [OF assms(1,2)] a row_rest_eq)
  qed
  moreover have "vecLoad_inline L vt ea 0 16 ROW_RIGHT fr = setVec vt (fromBytes L ?res) fr"
    using assms(1) by (simp add: vecLoad_inline_def Let_def llvm_laws)
  ultimately show ?thesis
    using inline_load [OF assms(1,2) load_same_but_vreg(2)] by metis
qed

subsection \<open>Inline stores\<close>

lemma mach_mem_cong: "(\<And>i. f i = g i) \<Longrightarrow> fr\<lparr>mach := c\<lparr>rsp_mem := f\<rparr>\<rparr> = fr\<lparr>mach := c\<lparr>rsp_mem := g\<rparr>\<rparr>"
  by (rule arg_cong [of _ _ "\<lambda>f. fr\<lparr>mach := c\<lparr>rsp_mem := f\<rparr>\<rparr>"]) (rule ext)

lemma mem_put_cong: "(\<And>i. i < n \<Longrightarrow> b i = c i) \<Longrightarrow> mem_put a n b fr = mem_put a n c fr"
  unfolding mem_put_def by (rule mach_mem_cong) auto

lemma mem_put_row: "r \<le> n \<Longrightarrow> mem_put a n (\<lambda>i. if i < r then b i else mem_at a fr i) fr = mem_put a r b fr"
  unfolding mem_put_def by (rule mach_mem_cong) (auto simp: mem_at_def)

lemma mem_put_0: "mem_put a 0 b fr = fr"
proof -
  have "mem_put a 0 b fr = fr\<lparr>mach := (mach fr)\<lparr>rsp_mem := rsp_mem (mach fr)\<rparr>\<rparr>"
    unfolding mem_put_def by (rule mach_mem_cong) auto
  then show ?thesis by simp
qed

text \<open>Writing bytes at a pointer that stays inside DMEM is storing them one by one.\<close>

lemma mem_put_fold:
  assumes "unat ea mod 4096 + n \<le> 4096"
  shows "mem_put (ea AND 0xfff) n b fr = fr\<lparr>mach := fold (\<lambda>i c. wr8 c (ea + of_nat i) (b i)) [0..<n] (mach fr)\<rparr>"
  using assms
proof (induction n)
  case 0
  then show ?case by (simp add: mem_put_0)
next
  case (Suc n)
  then show ?case by (simp add: mem_put_Suc Let_def)
qed

lemma write_back_fold_store:
  "write_back (fr\<lparr>mach := fold (\<lambda>i c. wr8 c (f i) (b i)) is (mach fr)\<rparr>) = fold (\<lambda>i c. wr8 c (f i) (b i)) is (write_back fr)"
proof (induction "is" arbitrary: fr)
  case Nil
  then show ?case by simp
next
  case (Cons i "is")
  from Cons [of "fr\<lparr>mach := wr8 (mach fr) (f i) (b i)\<rparr>"] show ?case
    by (simp add: write_back_store)
qed

lemma store_bytes_fold: "store_bytes vt e ea n s = fold (\<lambda>i c. wr8 c (ea + of_nat i) (vbyte s vt (e + i))) [0..<n] s"
proof -
  have "fold (\<lambda>i c. wr8 c (ea + of_nat i) (vbyte c vt (e + i))) is t = fold (\<lambda>i c. wr8 c (ea + of_nat i) (vbyte s vt (e + i))) is t"
    if "\<forall>k. vbyte t vt k = vbyte s vt k" for "is" t
    using that by (induction "is" arbitrary: t) simp_all
  then show ?thesis by (simp add: store_bytes_def copy_loop_def)
qed

lemma inline_store:
  assumes "unat ea mod 4096 + n \<le> 4096" and "\<And>i. i < n \<Longrightarrow> b i = vbyte (write_back fr) vt (e + i)"
  shows "write_back (mem_put (ea AND 0xfff) n b fr) = store_bytes vt e ea n (write_back fr)"
proof -
  have "mem_put (ea AND 0xfff) n b fr = mem_put (ea AND 0xfff) n (\<lambda>i. vbyte (write_back fr) vt (e + i)) fr"
    by (rule mem_put_cong) (rule assms(2))
  then show ?thesis
    by (simp only: mem_put_fold [OF assms(1)] write_back_fold_store store_bytes_fold)
qed

lemma fixed_store:
  assumes "llvm_doc L" and "vt < 32" and "e + n \<le> 16" and "n = 16 \<longrightarrow> e = 0" and "fitsInDmem L ea (of_nat n)"
  shows "write_back (vecStore_inline L vt ea e n FIXED fr) = store_bytes vt e ea n (write_back fr)"
proof -
  let ?bytes = "toBytes L (getVec vt fr)"
  let ?out = "if n = 16 then ?bytes else shuffle8 L 16 ?bytes ?bytes (map (\<lambda>i. int (e + i)) [0..<n])"
  have fits: "unat ea mod 4096 + n \<le> 4096"
    using fits_iff [OF assms(1), of n ea] assms(3,5) by simp
  have "?out i = vbyte (write_back fr) vt (e + i)" if "i < n" for i
  proof -
    have "shuffle8 L 16 ?bytes ?bytes (map (\<lambda>i. int (e + i)) [0..<n]) i = ?bytes (e + i)"
    proof -
      have "map (\<lambda>i. int (e + i)) [0..<n] ! i = int (e + i)" using that by (simp del: upt_rec_numeral)
      moreover have "e + i < 16" using that assms(3) by simp
      ultimately show ?thesis
        using llvm_shuffles(2) [OF assms(1), of i "map (\<lambda>i. int (e + i)) [0..<n]" 16 ?bytes ?bytes] that
        by (simp only: length_map length_upt nat_int) simp
    qed
    then show ?thesis
      using toBytes_eq [OF assms(1,2), of "e + i" fr] assms(3,4) that by auto
  qed
  moreover have "vecStore_inline L vt ea e n FIXED fr = mem_put (ea AND 0xfff) n ?out fr"
    using assms(1) by (simp add: vecStore_inline_def Let_def llvm_laws)
  ultimately show ?thesis
    using inline_store [OF fits] by metis
qed

lemma left_store:
  assumes "llvm_doc L" and "vt < 32" and "ea AND 0xfff \<le> 0xff0"
  shows "write_back (vecStore_inline L vt ea 0 16 ROW_LEFT fr) = store_bytes vt 0 ea (row_rest ea) (write_back fr)"
proof -
  let ?n8 = "trunc32_8 L (bin32 L Sub 16 (bin32 L And ea 15))" and ?bytes = "toBytes L (getVec vt fr)"
  let ?out = "lanes3 (sel8 L) (\<lambda>i. cmp8 L ULT (of_nat i) ?n8) ?bytes (mem_at (ea AND 0xfff) fr)"
  have row: "row_rest ea \<le> 16" by (simp add: row_rest_eq)
  have fits: "unat ea mod 4096 + row_rest ea \<le> 4096"
    using assms(3) row by (simp add: word_le_nat_alt unat_and_0xfff)
  have "vecStore_inline L vt ea 0 16 ROW_LEFT fr = mem_put (ea AND 0xfff) 16 ?out fr"
    using assms(1) by (simp add: vecStore_inline_def Let_def llvm_laws)
  also have "\<dots> = mem_put (ea AND 0xfff) 16 (\<lambda>i. if i < row_rest ea then ?bytes i else mem_at (ea AND 0xfff) fr i) fr"
    using assms(1) by (intro mem_put_cong) (simp add: lanes3_def llvm_cmp llvm_casts(13) word_less_nat_alt row_n8 of_nat_u8)
  also have "\<dots> = mem_put (ea AND 0xfff) (row_rest ea) ?bytes fr"
    by (rule mem_put_row [OF row])
  finally show ?thesis
    using inline_store [OF fits, of ?bytes fr vt 0] toBytes_eq [OF assms(1,2)] row by simp
qed

subsection \<open>The calls into the interpreter\<close>

lemma copy_loop_rel:
  assumes "R s t" and "\<And>s t x. R s t \<Longrightarrow> R (put s (f x) (src s (g x))) (put t (f x) (src t (g x)))"
  shows "R (copy_loop put src f g xs s) (copy_loop put src f g xs t)"
  using assms(1) by (induction xs arbitrary: s t) (auto simp: copy_loop_Cons intro: assms(2))

text \<open>What the routines read: one base register, one vector register, the memory.\<close>

definition same_for :: "nat \<Rightarrow> rsp_t \<Rightarrow> rsp_t \<Rightarrow> bool" where
  "same_for vt s t \<longleftrightarrow> rsp_v s vt = rsp_v t vt \<and> rsp_mem s = rsp_mem t"

lemma same_for_loops:
  assumes "same_for vt s t"
  shows "same_for vt (load_bytes vt e ea n s) (load_bytes vt e ea n t)" "same_for vt (load_right vt e ea s) (load_right vt e ea t)"
    "same_for vt (store_bytes vt e ea n s) (store_bytes vt e ea n t)"
  using assms unfolding load_bytes_def load_right_def store_bytes_def Let_def
  by (rule copy_loop_rel; simp add: same_for_def set_vbyte_def set_v_def wr8_def rd8_def vbyte_def Let_def)+

lemma store_bytes_mem: "store_bytes vt e ea n s = s\<lparr>rsp_mem := rsp_mem (store_bytes vt e ea n s)\<rparr>"
proof -
  have "\<exists>m. store_bytes vt e ea n s = s\<lparr>rsp_mem := m\<rparr>"
    unfolding store_bytes_def
  proof (rule copy_loop_inv)
    show "\<exists>m. s = s\<lparr>rsp_mem := m\<rparr>" by (rule exI [of _ "rsp_mem s"]) simp
  qed (auto simp: wr8_def)
  then show ?thesis by auto
qed

lemma spill_mach:
  assumes "frame_ok fr" and "base < 32" and "vt < 32"
  shows "rsp_r (mach (spill base vt fr)) base = rsp_r (write_back fr) base" "same_for vt (mach (spill base vt fr)) (write_back fr)"
    "rsp_r (mach (spill base vt fr)) 0 = 0" "gpr (spill base vt fr) = gpr fr" "vec (spill base vt fr) = vec fr"
    "r \<noteq> vt \<Longrightarrow> rsp_v (mach (spill base vt fr)) r = rsp_v (mach fr) r"
    "over_gpr (gpr fr) (rsp_r (mach (spill base vt fr))) = over_gpr (gpr fr) (rsp_r (mach fr))"
    "write_back (spill base vt fr) = write_back fr"
proof -
  have r: "rsp_r (mach (spill base vt fr)) = (if base = 0 then rsp_r (mach fr) else (rsp_r (mach fr))(base := gpr fr base))"
    by (simp add: spill_def getGPR_def Let_def)
  have v: "rsp_v (mach (spill base vt fr)) = (rsp_v (mach fr))(vt := over8 (vec fr vt) (rsp_v (mach fr) vt))"
    by (simp add: spill_def Let_def over8_def getVec_def cong: if_cong)
  show "rsp_r (mach (spill base vt fr)) base = rsp_r (write_back fr) base"
    using assms unfolding r write_back_r [OF assms(1,2)] by (simp add: getGPR_def frame_ok_def)
  show "same_for vt (mach (spill base vt fr)) (write_back fr)"
    using assms(3) unfolding same_for_def v by (simp add: write_back_def over_vec_def Let_def spill_def)
  show "rsp_r (mach (spill base vt fr)) 0 = 0" using assms(1) unfolding r by (simp add: frame_ok_def)
  show "gpr (spill base vt fr) = gpr fr" "vec (spill base vt fr) = vec fr" by (simp_all add: spill_def Let_def)
  show "r \<noteq> vt \<Longrightarrow> rsp_v (mach (spill base vt fr)) r = rsp_v (mach fr) r" unfolding v by simp
  show g: "over_gpr (gpr fr) (rsp_r (mach (spill base vt fr))) = over_gpr (gpr fr) (rsp_r (mach fr))"
    using assms(2) unfolding r by (auto simp: over_gpr_def fun_eq_iff)
  have w: "over_vec (vec fr) (rsp_v (mach (spill base vt fr))) = over_vec (vec fr) (rsp_v (mach fr))"
    using assms(3) unfolding v by (auto simp: over_vec_def over8_def fun_eq_iff)
  show "write_back (spill base vt fr) = write_back fr"
    using g w by (intro rsp_t.equality) (simp_all add: write_back_def Let_def spill_def set_r_def)
qed

text \<open>A routine of the interpreter run on the spilled machine has the effect it has on the whole one.\<close>

lemma slow_load:
  assumes "frame_ok fr" and "base < 32" and "vt < 32"
    and "same_but_vreg vt (mach (spill base vt fr)) d" and "same_but_vreg vt (write_back fr) t" and "same_for vt d t"
  shows "write_back (setVec vt (rsp_v d vt) ((spill base vt fr)\<lparr>mach := d\<rparr>)) = t"
    "frame_ok (setVec vt (rsp_v d vt) ((spill base vt fr)\<lparr>mach := d\<rparr>))"
proof -
  let ?c = "mach (spill base vt fr)"
  note sp = spill_mach [OF assms(1-3)]
  have d: "d = ?c\<lparr>rsp_v := rsp_v d\<rparr>" and t: "t = (write_back fr)\<lparr>rsp_v := rsp_v t\<rparr>"
    using assms(4,5) by (simp_all add: same_but_vreg_def)
  have rd: "rsp_r d = rsp_r ?c" using arg_cong [OF d, of rsp_r] by simp
  have "over_vec ((vec fr)(vt := rsp_v d vt)) (rsp_v d) r = rsp_v t r" for r
  proof (cases "r = vt")
    case True
    then show ?thesis using assms(3,6) by (simp add: over_vec_def same_for_def)
  next
    case False
    then have "rsp_v d r = rsp_v (mach fr) r" "rsp_v t r = over_vec (vec fr) (rsp_v (mach fr)) r"
      using assms(4,5) sp(6) by (auto simp: same_but_vreg_def fun_eq_iff write_back_def Let_def)
    then show ?thesis using False by (simp add: over_vec_def)
  qed
  then have v: "over_vec ((vec fr)(vt := rsp_v d vt)) (rsp_v d) = rsp_v t" by (rule ext)
  have "write_back (setVec vt (rsp_v d vt) ((spill base vt fr)\<lparr>mach := ?c\<lparr>rsp_v := rsp_v d\<rparr>\<rparr>)) = (write_back fr)\<lparr>rsp_v := rsp_v t\<rparr>"
    unfolding sp(8) [symmetric] using v by (simp add: write_back_def Let_def setVec_def sp)
  then show "write_back (setVec vt (rsp_v d vt) ((spill base vt fr)\<lparr>mach := d\<rparr>)) = t"
    using d t by simp
  show "frame_ok (setVec vt (rsp_v d vt) ((spill base vt fr)\<lparr>mach := d\<rparr>))"
    using sp(3) by (simp add: frame_ok_def rd)
qed

lemma slow_store:
  assumes "frame_ok fr" and "base < 32" and "vt < 32"
  shows "write_back ((spill base vt fr)\<lparr>mach := store_bytes vt e ea n (mach (spill base vt fr))\<rparr>) = store_bytes vt e ea n (write_back fr)"
    "frame_ok ((spill base vt fr)\<lparr>mach := store_bytes vt e ea n (mach (spill base vt fr))\<rparr>)"
proof -
  note sp = spill_mach [OF assms]
  let ?c = "mach (spill base vt fr)"
  have same: "rsp_mem (store_bytes vt e ea n ?c) = rsp_mem (store_bytes vt e ea n (write_back fr))"
    using same_for_loops(3) [OF sp(2)] by (simp add: same_for_def)
  have "write_back ((spill base vt fr)\<lparr>mach := ?c\<lparr>rsp_mem := m\<rparr>\<rparr>) = (write_back fr)\<lparr>rsp_mem := m\<rparr>" for m
    unfolding write_back_mem sp(8) ..
  then show "write_back ((spill base vt fr)\<lparr>mach := store_bytes vt e ea n ?c\<rparr>) = store_bytes vt e ea n (write_back fr)"
    by (metis same store_bytes_mem)
  show "frame_ok ((spill base vt fr)\<lparr>mach := store_bytes vt e ea n ?c\<rparr>)"
    using sp(3) arg_cong [OF store_bytes_mem [of vt e ea n ?c], of rsp_r] by (simp add: frame_ok_def)
qed


subsection \<open>One vector load or store\<close>

lemma agrees_falls:
  assumes "live fr" and "write_back fr' = t" and "frame_ok fr'" and "halted t = halted (write_back fr)" and "imem_gen t = imem_gen (write_back fr)"
  shows "agrees addr (write_back fr) (Inr (t, pc_after (next_addr addr))) (Falls fr')"
proof -
  have "set_r t 0 0 = t" using write_back_r0 [OF assms(3)] by (simp only: assms(2))
  moreover have "\<not> halted (write_back fr)" using assms(1) by simp
  ultimately show ?thesis
    using assms(3-5) by (simp only: agrees.simps outcome.case assms(2)) simp
qed

lemma ir_ea_eq: "llvm_doc L \<Longrightarrow> frame_ok fr \<Longrightarrow> ir_ea L inst k fr = vmem_ea (write_back fr) inst k"
  by (simp add: ir_ea_def vmem_ea_def llvm_laws)

lemma vmem_ea_spill: "frame_ok fr \<Longrightarrow> vt < 32 \<Longrightarrow> vmem_ea (mach (spill (f_rs inst) vt fr)) inst k = vmem_ea (write_back fr) inst k"
  by (simp only: vmem_ea_def spill_mach(1) [OF _ f_rs_less])

text \<open>What both paths of a load promise, for the routine \<open>F\<close> the interpreter runs.\<close>

definition loads_as :: "u32 \<Rightarrow> nat \<Rightarrow> (u32 \<Rightarrow> rsp_t \<Rightarrow> rsp_t) \<Rightarrow> bool" where
  "loads_as inst k F \<longleftrightarrow>
    (\<forall>s. lwc2 s inst = Inr (F (vmem_ea s inst k) s)) \<and> (\<forall>ea s. same_but_vreg (f_rt inst) s (F ea s)) \<and>
    (\<forall>ea s t. same_for (f_rt inst) s t \<longrightarrow> same_for (f_rt inst) (F ea s) (F ea t))"

definition stores_as :: "u32 \<Rightarrow> nat \<Rightarrow> (u32 \<Rightarrow> nat) \<Rightarrow> bool" where
  "stores_as inst k n \<longleftrightarrow> (\<forall>s. swc2 s inst = (let ea = vmem_ea s inst k in Inr (store_bytes (f_rt inst) (f_e7 inst) ea (n ea) s)))"

lemma sim_load:
  assumes "llvm_doc L" and "live fr" and "f_op inst = 0x32" and "loads_as inst k F"
    and "vl_fast L (ir_ea L inst k fr) e n kind = Some True \<Longrightarrow>
      write_back (vecLoad_inline L (f_rt inst) (ir_ea L inst k fr) e n kind fr) = F (ir_ea L inst k fr) (write_back fr)"
  shows "agrees addr (write_back fr) (exec (write_back fr) inst (next_addr addr))
    (case vecLoad L inst (f_rs inst) (f_rt inst) (ir_ea L inst k fr) e n kind fr of Inl d \<Rightarrow> Dies d | Inr fr \<Rightarrow> Falls fr)"
proof -
  have ok: "frame_ok fr" using assms(2) by simp
  let ?t = "F (ir_ea L inst k fr) (write_back fr)" and ?sp = "spill (f_rs inst) (f_rt inst) fr"
  have ea: "ir_ea L inst k fr = vmem_ea (write_back fr) inst k" by (rule ir_ea_eq [OF assms(1) ok])
  have e: "exec (write_back fr) inst (next_addr addr) = Inr (?t, pc_after (next_addr addr))"
    using assms(3,4) by (simp add: exec_def fall_through_def loads_as_def ea)
  have t: "same_but_vreg (f_rt inst) (write_back fr) ?t" using assms(4) by (simp add: loads_as_def)
  have h: "halted ?t = halted (write_back fr)" "imem_gen ?t = imem_gen (write_back fr)"
    using arg_cong [OF conjunct1 [OF t [unfolded same_but_vreg_def]], of halted]
      arg_cong [OF conjunct1 [OF t [unfolded same_but_vreg_def]], of imem_gen] by simp_all
  obtain fr' where fr': "vecLoad L inst (f_rs inst) (f_rt inst) (ir_ea L inst k fr) e n kind fr = Inr fr'"
    "write_back fr' = ?t" "frame_ok fr'"
  proof (cases "vl_fast L (ir_ea L inst k fr) e n kind = Some True")
    case True
    have "frame_ok (vecLoad_inline L (f_rt inst) (ir_ea L inst k fr) e n kind fr)"
      using ok by (simp add: vecLoad_inline_def Let_def)
    then show ?thesis using that True assms(5) by (simp add: vecLoad_def)
  next
    case False
    let ?d = "F (ir_ea L inst k fr) (mach ?sp)"
    have "lwc2 (mach ?sp) inst = Inr ?d"
      using assms(4) vmem_ea_spill [OF ok f_rt_less] by (simp add: loads_as_def ea)
    then have "vecLoad L inst (f_rs inst) (f_rt inst) (ir_ea L inst k fr) e n kind fr =
        Inr (setVec (f_rt inst) (rsp_v ?d (f_rt inst)) (?sp\<lparr>mach := ?d\<rparr>))"
      using False by (simp add: vecLoad_def vecLoad_slow_def Let_def rspbt_lwc2_def)
    moreover have "same_but_vreg (f_rt inst) (mach ?sp) ?d" "same_for (f_rt inst) ?d ?t"
      using assms(4) spill_mach(2) [OF ok f_rs_less f_rt_less] by (simp_all add: loads_as_def)
    ultimately show ?thesis
      using that slow_load [OF ok f_rs_less f_rt_less _ t] by blast
  qed
  show ?thesis
    unfolding e fr'(1) using agrees_falls [OF assms(2) fr'(2,3) h] by simp
qed

lemma sim_store:
  assumes "llvm_doc L" and "live fr" and "f_op inst = 0x3a" and "stores_as inst k m"
    and "vs_fast L (ir_ea L inst k fr) e n kind = Some True \<Longrightarrow>
      write_back (vecStore_inline L (f_rt inst) (ir_ea L inst k fr) e n kind fr) =
        store_bytes (f_rt inst) (f_e7 inst) (ir_ea L inst k fr) (m (ir_ea L inst k fr)) (write_back fr)"
  shows "agrees addr (write_back fr) (exec (write_back fr) inst (next_addr addr))
    (case vecStore L inst (f_rs inst) (f_rt inst) (ir_ea L inst k fr) e n kind fr of Inl d \<Rightarrow> Dies d | Inr fr \<Rightarrow> Falls fr)"
proof -
  have ok: "frame_ok fr" using assms(2) by simp
  let ?ea = "ir_ea L inst k fr"
  let ?t = "store_bytes (f_rt inst) (f_e7 inst) ?ea (m ?ea) (write_back fr)" and ?sp = "spill (f_rs inst) (f_rt inst) fr"
  have ea: "?ea = vmem_ea (write_back fr) inst k" by (rule ir_ea_eq [OF assms(1) ok])
  have e: "exec (write_back fr) inst (next_addr addr) = Inr (?t, pc_after (next_addr addr))"
    using assms(3,4) by (simp add: exec_def fall_through_def stores_as_def ea Let_def)
  have h: "halted ?t = halted (write_back fr)" "imem_gen ?t = imem_gen (write_back fr)"
    by (subst store_bytes_mem, simp)+
  obtain fr' where fr': "vecStore L inst (f_rs inst) (f_rt inst) ?ea e n kind fr = Inr fr'" "write_back fr' = ?t" "frame_ok fr'"
  proof (cases "vs_fast L ?ea e n kind = Some True")
    case True
    have "frame_ok (vecStore_inline L (f_rt inst) ?ea e n kind fr)"
      using ok by (simp add: vecStore_inline_def Let_def mem_put_def frame_ok_def)
    then show ?thesis using that True assms(5) by (simp add: vecStore_def)
  next
    case False
    have "swc2 (mach ?sp) inst = Inr (store_bytes (f_rt inst) (f_e7 inst) ?ea (m ?ea) (mach ?sp))"
      using assms(4) vmem_ea_spill [OF ok f_rt_less] by (simp add: stores_as_def ea Let_def)
    then have "vecStore L inst (f_rs inst) (f_rt inst) ?ea e n kind fr =
        Inr (?sp\<lparr>mach := store_bytes (f_rt inst) (f_e7 inst) ?ea (m ?ea) (mach ?sp)\<rparr>)"
      using False by (simp add: vecStore_def vecStore_slow_def Let_def rspbt_swc2_def)
    then show ?thesis using that slow_store [OF ok f_rs_less f_rt_less] by blast
  qed
  show ?thesis
    unfolding e fr'(1) using agrees_falls [OF assms(2) fr'(2,3) h] by simp
qed

lemma loads_as_bytes:
  "f_rd inst \<in> {1, 2, 3} \<Longrightarrow> loads_as inst (f_rd inst) (\<lambda>ea. load_bytes (f_rt inst) (f_e7 inst) ea (2 ^ f_rd inst))"
  "f_rd inst = 4 \<Longrightarrow> loads_as inst 4 (\<lambda>ea. load_bytes (f_rt inst) (f_e7 inst) ea (row_rest ea))"
  "f_rd inst = 5 \<Longrightarrow> loads_as inst 4 (load_right (f_rt inst) (f_e7 inst))"
  by (auto simp: loads_as_def lwc2_def Let_def load_same_but_vreg same_for_loops)

lemma stores_as_bytes:
  "f_rd inst \<in> {1, 2, 3} \<Longrightarrow> stores_as inst (f_rd inst) (\<lambda>ea. 2 ^ f_rd inst)" "f_rd inst = 4 \<Longrightarrow> stores_as inst 4 row_rest"
  by (auto simp: stores_as_def swc2_def Let_def)

lemma fast_conditions:
  assumes "llvm_doc L"
  shows "vl_fast L ea e n FIXED = Some True \<longleftrightarrow> e + n \<le> 16 \<and> fitsInDmem L ea (of_nat n)"
    "vs_fast L ea e n FIXED = Some True \<longleftrightarrow> e + n \<le> 16 \<and> fitsInDmem L ea (of_nat n)"
    "vl_fast L ea e n ROW_LEFT = Some True \<longleftrightarrow> e = 0 \<and> ea AND 0xfff \<le> 0xff0"
    "vs_fast L ea e n ROW_LEFT = Some True \<longleftrightarrow> e = 0 \<and> ea AND 0xfff \<le> 0xff0"
    "vl_fast L ea e n ROW_RIGHT = Some True \<longleftrightarrow> e = 0 \<and> 16 \<le> ea AND 0xfff"
  using assms by (simp_all add: vl_fast_def vs_fast_def Let_def llvm_laws llvm_cmp)

lemma sim_vecload:
  assumes "llvm_doc L" and "live fr" and "f_op inst = 0x32"
  shows "on_Some (sim_at L inst addr fr) (decode_lwc2 (f_rd inst))"
proof -
  have fixed: "agrees addr (write_back fr) (exec (write_back fr) inst (next_addr addr))
    (case vecLoad L inst (f_rs inst) (f_rt inst) (ir_ea L inst (f_rd inst) fr) (f_e7 inst) (2 ^ f_rd inst) FIXED fr of
       Inl d \<Rightarrow> Dies d | Inr fr \<Rightarrow> Falls fr)" if "f_rd inst \<in> {1, 2, 3}"
    using that by (intro sim_load [OF assms loads_as_bytes(1) [OF that]] fixed_load [OF assms(1) f_rt_less])
      (auto simp: fast_conditions [OF assms(1)])
  have left: "agrees addr (write_back fr) (exec (write_back fr) inst (next_addr addr))
    (case vecLoad L inst (f_rs inst) (f_rt inst) (ir_ea L inst 4 fr) (f_e7 inst) 16 ROW_LEFT fr of
       Inl d \<Rightarrow> Dies d | Inr fr \<Rightarrow> Falls fr)" if "f_rd inst = 4"
    using left_load [OF assms(1) f_rt_less, of "ir_ea L inst 4 fr" inst fr]
    by (intro sim_load [OF assms loads_as_bytes(2) [OF that]]) (auto simp: fast_conditions [OF assms(1)])
  have right: "agrees addr (write_back fr) (exec (write_back fr) inst (next_addr addr))
    (case vecLoad L inst (f_rs inst) (f_rt inst) (ir_ea L inst 4 fr) (f_e7 inst) 16 ROW_RIGHT fr of
       Inl d \<Rightarrow> Dies d | Inr fr \<Rightarrow> Falls fr)" if "f_rd inst = 5"
    using right_load [OF assms(1) f_rt_less, of "ir_ea L inst 4 fr" inst fr]
    by (intro sim_load [OF assms loads_as_bytes(3) [OF that]]) (auto simp: fast_conditions [OF assms(1)])
  show ?thesis
    unfolding decode_lwc2_def
    by (intro on_Some_if; (simp only: on_Some_simps)?; use fixed left right in \<open>simp add: sim_at_def del: agrees.simps\<close>)
qed

lemma sim_vecstore:
  assumes "llvm_doc L" and "live fr" and "f_op inst = 0x3a"
  shows "on_Some (sim_at L inst addr fr) (decode_swc2 (f_rd inst))"
proof -
  have fixed: "agrees addr (write_back fr) (exec (write_back fr) inst (next_addr addr))
    (case vecStore L inst (f_rs inst) (f_rt inst) (ir_ea L inst (f_rd inst) fr) (f_e7 inst) (2 ^ f_rd inst) FIXED fr of
       Inl d \<Rightarrow> Dies d | Inr fr \<Rightarrow> Falls fr)" if "f_rd inst \<in> {1, 2, 3}"
    using that by (intro sim_store [OF assms stores_as_bytes(1) [OF that]] fixed_store [OF assms(1) f_rt_less])
      (auto simp: fast_conditions [OF assms(1)])
  have left: "agrees addr (write_back fr) (exec (write_back fr) inst (next_addr addr))
    (case vecStore L inst (f_rs inst) (f_rt inst) (ir_ea L inst 4 fr) (f_e7 inst) 16 ROW_LEFT fr of
       Inl d \<Rightarrow> Dies d | Inr fr \<Rightarrow> Falls fr)" if "f_rd inst = 4"
    using left_store [OF assms(1) f_rt_less, of "ir_ea L inst 4 fr" inst fr]
    by (intro sim_store [OF assms stores_as_bytes(2) [OF that]]) (auto simp: fast_conditions [OF assms(1)])
  show ?thesis
    unfolding decode_swc2_def
    by (intro on_Some_if; (simp only: on_Some_simps)?; use fixed left in \<open>simp add: sim_at_def del: agrees.simps\<close>)
qed

end
