(* ===== verification/Rsp_Translate.thy ===== *)
theory Rsp_Translate
  imports Rsp_Sim_Vmem
begin

text \<open>
  The translator's correctness: every instruction it decodes, alone and with a delay slot,
  against the interpreter.
\<close>


subsection \<open>Any instruction that is not a jump or a branch\<close>

lemma decode_cop0: "f_op inst = 0x10 \<Longrightarrow> decode inst = (if f_rs inst = 0 then Some Insn_mfc0 else if f_rs inst = 4 then Some Insn_mtc0 else None)"
  by (simp add: decode_def Let_def)

lemma decode_cop2: "f_op inst = 0x12 \<Longrightarrow> decode inst = (if drop_bit 25 inst AND 1 = 0 then
    (if f_rs inst = 0 then Some Insn_mfc2 else if f_rs inst = 4 then Some Insn_mtc2 else None) else decode_vec (f_fn inst))"
  by (simp add: decode_def Let_def)

lemma decode_vmem: "f_op inst = 0x32 \<Longrightarrow> decode inst = decode_lwc2 (f_rd inst)" "f_op inst = 0x3a \<Longrightarrow> decode inst = decode_swc2 (f_rd inst)"
  by (simp_all add: decode_def Let_def)

lemma decode_special: "f_op inst = 0 \<Longrightarrow> decode inst = decode_special (f_fn inst)"
  by (simp add: decode_def Let_def)

lemma decode_ops:
  "decode inst = Some i \<Longrightarrow> \<not> isControl i \<Longrightarrow> f_op inst \<in> {0x00, 0x08, 0x09, 0x0a, 0x0b, 0x0c, 0x0d, 0x0e, 0x0f,
     0x10, 0x12, 0x20, 0x21, 0x23, 0x24, 0x25, 0x28, 0x29, 0x2b, 0x32, 0x3a}"
  unfolding decode_def Let_def by (simp split: if_split_asm) auto

lemma exec_plain_ops:
  "f_op inst \<in> {0x08, 0x09, 0x0a, 0x0b, 0x0c, 0x0d, 0x0e, 0x0f, 0x20, 0x21, 0x23, 0x24, 0x25, 0x28, 0x29, 0x2b} \<Longrightarrow>
    exec_plain s inst \<noteq> None"
  by (auto simp: exec_plain_def Let_def)

lemma simulates:
  assumes "llvm_doc L" and "live fr" and "decode inst = Some i" and "\<not> isControl i"
  shows "agrees addr (write_back fr) (exec (write_back fr) inst (next_addr addr)) (gen_plain L i inst addr fr)"
proof -
  have vec: "on_Some (sim_at L inst addr fr) (decode_vec (f_fn inst))" if "f_op inst = 0x12" "drop_bit 25 inst AND 1 \<noteq> (0 :: u32)"
    using sim_vec [OF assms(1,2) that] by (cases "decode_vec (f_fn inst)") simp_all
  have "f_op inst \<in> {0x00, 0x10, 0x12, 0x32, 0x3a} \<or> exec_plain (write_back fr) inst \<noteq> None"
    using decode_ops [OF assms(3,4)] exec_plain_ops by (auto simp del: not_None_eq)
  then have "on_Some (sim_at L inst addr fr) (decode inst)"
  proof (elim disjE insertE emptyE)
    assume "f_op inst = 0"
    then show ?thesis by (simp add: decode_special sim_special [OF assms(1,2)])
  next
    assume "f_op inst = 0x10"
    then show ?thesis by (simp add: decode_cop0 sim_mfc0 [OF assms(1,2)] sim_mtc0 [OF assms(1,2)])
  next
    assume "f_op inst = 0x12"
    then show ?thesis by (simp add: decode_cop2 sim_moves [OF assms(1,2)] vec)
  next
    assume "f_op inst = 0x32"
    then show ?thesis by (simp add: decode_vmem sim_vecload [OF assms(1,2)])
  next
    assume "f_op inst = 0x3a"
    then show ?thesis by (simp add: decode_vmem sim_vecstore [OF assms(1,2)])
  qed (rule sim_plain [OF assms(1,2)])
  then show ?thesis using assms(3,4) by (simp add: sim_at_def)
qed

text \<open>
  C11: Whatever instruction the translator decodes that is not a jump or a branch, the code it
  generates does to the registers, the flags, the accumulator and the memories exactly what the
  interpreter does, for any LLVM that computes what its reference says: it falls through, or it
  stops with the interpreter's error, or it returns because of \<open>break\<close> or of a DMA into
  instruction memory.
\<close>

theorem translated_instruction_agrees:
  assumes "llvm_doc L" and "decode inst = Some i" and "\<not> isControl i" and "frame_ok fr" and "\<not> halted (mach fr)"
  shows "agrees addr (write_back fr) (exec (write_back fr) inst (next_addr addr)) (gen_plain L i inst addr fr)"
  by (rule simulates [OF assms(1) _ assms(2,3)]) (simp add: live_def assms(4,5))

subsection \<open>Word addresses inside IMEM\<close>

lemma and_0xffc: "(x :: u32) AND 0xffc = push_bit 2 (take_bit 10 (drop_bit 2 x))"
proof -
  have m: "(0xffc :: u32) = push_bit 2 (mask 10)" by (simp add: mask_eq_exp_minus_1)
  have "Suc (Suc (n - 2)) = n" if "2 \<le> n" for n
    using that by simp
  then show ?thesis unfolding m by (intro bit_word_eqI) (auto simp: bit_simps)
qed

lemma drop_add: "take_bit 10 (drop_bit 2 ((x :: u32) + push_bit 2 y)) = take_bit 10 (drop_bit 2 x + y)"
proof -
  have d: "uint (drop_bit 2 z) = drop_bit 2 (uint z)" for z :: u32
    using take_bit_int_eq_self [of "uint z" 32] uint_lt2p [of z] by (simp add: unsigned_drop_bit_eq)
  have p: "uint (x + push_bit 2 y) = take_bit 32 (uint x + 4 * uint y)"
    by (simp add: uint_word_ariths take_bit_eq_mod push_bit_eq_mult mod_simps mult.commute)
  have "take_bit 10 (drop_bit 2 (take_bit 32 (uint x + 4 * uint y))) = take_bit 10 (drop_bit 2 (uint x + 4 * uint y))"
    by (simp add: drop_bit_take_bit)
  also have "drop_bit 2 (uint x + 4 * uint y) = drop_bit 2 (uint x) + uint y"
    by (simp add: drop_bit_eq_div)
  finally have "uint (take_bit 10 (drop_bit 2 (x + push_bit 2 y))) = take_bit 10 (uint (drop_bit 2 x) + uint y)"
    by (simp only: unsigned_take_bit_eq d p)
  also have "\<dots> = uint (take_bit 10 (drop_bit 2 x + y))"
    unfolding unsigned_take_bit_eq uint_word_ariths by (simp add: take_bit_eq_mod mod_mod_cancel)
  finally show ?thesis by (simp only: word_uint_eq_iff)
qed

lemma masked_add: "((x AND 0xffc) + push_bit 2 y) AND 0xffc = ((x :: u32) + push_bit 2 y) AND 0xffc"
proof -
  have "take_bit 10 (drop_bit 2 (x AND 0xffc) + y) = take_bit 10 (drop_bit 2 x + y)"
  proof -
    have "drop_bit 2 (x AND 0xffc) = take_bit 10 (drop_bit 2 x)"
      unfolding and_0xffc by (rule bit_word_eqI) (auto simp: bit_simps)
    moreover have "take_bit 10 (take_bit 10 z + y) = take_bit 10 (z + y)" for z :: u32
      by (simp add: word_uint_eq_iff unsigned_take_bit_eq uint_word_ariths flip: take_bit_eq_mod)
        (simp add: take_bit_eq_mod mod_mod_cancel mod_simps)
    ultimately show ?thesis by (simp only:)
  qed
  then show ?thesis
    unfolding and_0xffc [of "_ + _"] drop_add by (simp only:)
qed

lemma targets:
  "ntAddr addr = pc_after (next_addr addr)" "tAddr inst addr = branch_target inst (next_addr addr)"
  "jAddr inst = jump_target inst" "next_addr (next_addr addr) = pc_after (next_addr addr)"
proof -
  have "(4 :: u32) = push_bit 2 1" by simp
  then have m: "((x AND 0xffc) + 4) AND 0xffc = (x + 4) AND 0xffc" for x :: u32
    using masked_add [of x 1] by simp
  show "ntAddr addr = pc_after (next_addr addr)"
    using m [of "addr + 4"] by (simp add: ntAddr_def pc_after_def next_addr_def add.assoc)
  show "tAddr inst addr = branch_target inst (next_addr addr)"
    using masked_add [of "addr + 4" "f_simm inst"] by (simp add: tAddr_def branch_target_def next_addr_def)
  show "jAddr inst = jump_target inst" by (simp add: jAddr_def jump_target_def)
  show "next_addr (next_addr addr) = pc_after (next_addr addr)" by (simp add: next_addr_def pc_after_def)
qed

subsection \<open>A control instruction and its delay slot\<close>

text \<open>Two turns of the interpreter: the state after the slot, and where control goes.\<close>

definition exec_pair :: "rsp_t \<Rightarrow> u32 \<Rightarrow> u32 \<Rightarrow> u32 \<Rightarrow> rsp_err + rsp_t \<times> u32" where
  "exec_pair s inst slot addr =
    (case exec s inst (next_addr addr) of
       Inl d \<Rightarrow> Inl d
     | Inr (t, target) \<Rightarrow>
         (case exec (set_r t 0 0) slot target of
            Inl d \<Rightarrow> Inl d
          | Inr (u, _) \<Rightarrow> Inr (u, target)))"

text \<open>Code that ends a block: it reaches the block of the target, or \<open>run\<close> is told where to go on.\<close>

fun agrees_jump :: "rsp_err + rsp_t \<times> u32 \<Rightarrow> outcome \<Rightarrow> bool" where
  "agrees_jump (Inl d) out \<longleftrightarrow> out = Dies d"
| "agrees_jump (Inr (u, target)) out \<longleftrightarrow>
    (case out of
       Branches (a, ctx) fr \<Rightarrow> frame_ok fr \<and> write_back fr = set_r u 0 0 \<and> \<not> halted u \<and> a = target
     | Returns fr \<Rightarrow> frame_ok fr \<and> write_back fr = set_r u 0 0 \<and> ret_slot fr = (if halted u then 0xffffffff else target)
     | _ \<Rightarrow> False)"

definition goes_to :: "u32 \<Rightarrow> frame \<Rightarrow> outcome \<Rightarrow> bool" where
  "goes_to target fr out \<longleftrightarrow> (\<exists>ctx. out = Branches (target, ctx) fr) \<or> out = Returns (fr\<lparr>ret_slot := target\<rparr>)"

lemma goes_to_indirect: "goes_to target fr (indirectJump roots c cx target fr)"
  by (auto simp: goes_to_def indirectJump_def exitToInterp_def Let_def split: option.splits)

text \<open>The encodings of the control classes.\<close>

definition control_code :: "u32 \<Rightarrow> rsp_insn \<Rightarrow> bool" where
  "control_code inst i \<longleftrightarrow>
    (f_op inst = 0 \<and> f_fn inst = 8 \<and> i = Insn_jr) \<or> (f_op inst = 0 \<and> f_fn inst = 9 \<and> i = Insn_jalr) \<or>
    (f_op inst = 1 \<and> f_rt inst = 0 \<and> i = Branch Insn_bltz) \<or> (f_op inst = 1 \<and> f_rt inst = 1 \<and> i = Branch Insn_bgez) \<or>
    (f_op inst = 2 \<and> i = Insn_j) \<or> (f_op inst = 3 \<and> i = Insn_jal) \<or>
    (f_op inst = 4 \<and> i = Branch Insn_beq) \<or> (f_op inst = 5 \<and> i = Branch Insn_bne) \<or>
    (f_op inst = 6 \<and> i = Branch Insn_blez) \<or> (f_op inst = 7 \<and> i = Branch Insn_bgtz)"

lemma decode_control: "on_Some (\<lambda>i. isControl i \<longrightarrow> control_code inst i) (decode inst)"
proof -
  have d: "on_Some (\<lambda>i. isControl i \<longrightarrow> control_code inst i) (decode_special (f_fn inst))" if "f_op inst = 0"
    using that unfolding decode_special_def by (intro on_Some_if; simp add: control_code_def)
  have n: "on_Some (\<lambda>i. isControl i \<longrightarrow> control_code inst i) (decode_vec (f_fn inst))"
    "on_Some (\<lambda>i. isControl i \<longrightarrow> control_code inst i) (decode_lwc2 (f_rd inst))"
    "on_Some (\<lambda>i. isControl i \<longrightarrow> control_code inst i) (decode_swc2 (f_rd inst))"
    unfolding decode_vec_def decode_lwc2_def decode_swc2_def by (intro on_Some_if; simp)+
  show ?thesis
    unfolding decode_def Let_def
    by (intro on_Some_if d n; assumption?; simp add: control_code_def)
qed

text \<open>
  What the head of a control instruction does: it runs the delay slot on the frame \<open>fr1\<close>, which
  stands for the machine with the link register written, and goes to the target it fixed before.
\<close>

definition control_heads :: "llvm \<Rightarrow> u32 \<Rightarrow> u32 \<Rightarrow> frame \<Rightarrow> ((frame \<Rightarrow> outcome) \<Rightarrow> outcome) \<Rightarrow> bool" where
  "control_heads L inst addr fr code \<longleftrightarrow>
    (\<exists>t target fr1 k. exec (write_back fr) inst (next_addr addr) = Inr (t, target) \<and> write_back fr1 = set_r t 0 0 \<and>
      live fr1 \<and> imem_gen t = imem_gen (mach fr) \<and> (\<forall>delay. code delay = and_then (delay fr1) k) \<and> (\<forall>fr'. goes_to target fr' (k fr')))"

lemma control_headsI:
  assumes "exec (write_back fr) inst (next_addr addr) = Inr (t, target)" and "write_back fr1 = set_r t 0 0" and "live fr1"
    and "imem_gen t = imem_gen (mach fr)" and "\<And>delay. code delay = and_then (delay fr1) k" and "\<And>fr'. goes_to target fr' (k fr')"
  shows "control_heads L inst addr fr code"
  unfolding control_heads_def using assms by blast

lemma goes_to_Branches: "goes_to target fr (Branches (target, cx) fr)"
  by (simp add: goes_to_def)

lemma branch_head:
  assumes "live fr" and "\<And>np. exec (write_back fr) inst np =
      Inr (write_back fr, if ir_condition L k inst fr then branch_target inst np else pc_after np)"
  shows "control_heads L inst addr fr (\<lambda>delay. gen_control L roots c cx (Branch k) inst addr delay fr)"
proof (rule control_headsI [OF assms(2)])
  show "write_back fr = set_r (write_back fr) 0 0"
    using assms(1) by (intro write_back_r0 [symmetric]) simp
  show "gen_control L roots c cx (Branch k) inst addr delay fr = and_then (delay fr)
      (\<lambda>fr'. Branches (if ir_condition L k inst fr then branch_target inst (next_addr addr) else pc_after (next_addr addr), cx) fr')" for delay
    by (simp only: gen_control.simps Let_def targets)
qed (simp_all add: assms(1) goes_to_Branches)

lemma control_head:
  assumes "llvm_doc L" and "live fr" and "decode inst = Some i" and "isControl i"
  shows "control_heads L inst addr fr (\<lambda>delay. gen_control L roots c cx i inst addr delay fr)"
proof -
  have ok1: "frame_ok fr" using assms(2) by simp
  note ok = ok1 write_back_r0 [OF ok1, symmetric]
  have link: "write_back (setGPR r x fr) = set_r (set_r (write_back fr) r x) 0 0" "live (setGPR r x fr)" if "r < 32" for r x
    using write_back_setGPR [OF ok1 that] assms(2) by (simp_all add: live_def del: live_simps)
  note e = exec_def exec_special_def exec_regimm_def exec_branch_def Let_def
  show ?thesis
    using decode_control [of inst] assms(3,4) unfolding control_code_def
  proof (simp only: on_Some_simps simp_thms, elim disjE conjE)
    assume "f_op inst = 0" "f_fn inst = 8" "i = Insn_jr"
    then show ?thesis
      using assms(1) ok(1) by (intro control_headsI [OF _ ok(2) assms(2), where target = "getGPR (f_rs inst) fr AND 0xffc"
            and k = "indirectJump roots c cx (getGPR (f_rs inst) fr AND 0xffc)"]) (simp_all add: e llvm_laws goes_to_indirect)
  next
    assume "f_op inst = 0" "f_fn inst = 9" "i = Insn_jalr"
    then show ?thesis
      using assms(1) ok(1) by (intro control_headsI [OF _ link [OF f_rd_less], where target = "getGPR (f_rs inst) fr AND 0xffc"
            and k = "indirectJump roots c cx (getGPR (f_rs inst) fr AND 0xffc)"]) (simp_all add: e llvm_laws goes_to_indirect targets)
  next
    assume "f_op inst = 2" "i = Insn_j"
    then show ?thesis
      by (intro control_headsI [OF _ ok(2) assms(2), where target = "jump_target inst" and k = "Branches (jump_target inst, cx)"]) (simp_all add: e targets goes_to_Branches)
  next
    assume "f_op inst = 3" "i = Insn_jal"
    then show ?thesis
      by (intro control_headsI [OF _ link, where target = "jump_target inst"
          and k = "Branches (jump_target inst, fst (pushCtx cx (pc_after (next_addr addr)) c))"]) (simp_all add: e targets goes_to_Branches)
  qed (simp only:, rule branch_head [OF assms(2)], simp add: e ok(1) llvm_cmp [OF assms(1)] not_le word_sle_eq word_sless_alt)+
qed


text \<open>An instruction that is not a jump or branch does the same wherever it stands.\<close>

definition forget_next :: "rsp_err + rsp_t \<times> u32 \<Rightarrow> rsp_err + rsp_t" where
  "forget_next = map_sum id fst"

lemma exec_anywhere:
  assumes "decode inst = Some i" and "\<not> isControl i"
  shows "forget_next (exec s inst p) = forget_next (exec s inst q)"
proof -
  have ft: "forget_next (fall_through res p) = forget_next (fall_through res q)" for res
    by (cases res) (simp_all add: forget_next_def fall_through_def)
  have "on_Some (\<lambda>i. \<not> isControl i \<longrightarrow> forget_next (exec_special s inst p) = forget_next (exec_special s inst q))
      (decode_special (f_fn inst))"
    unfolding decode_special_def by (intro on_Some_if; auto simp: exec_special_def Let_def forget_next_def)
  then have sp: "forget_next (exec_special s inst p) = forget_next (exec_special s inst q)" if "f_op inst = 0"
    using assms that by (simp add: decode_special)
  have "(case exec_plain s inst of Some s \<Rightarrow> Inr (s, pc_after p) | None \<Rightarrow> rsp_die s d) = fall_through (case exec_plain s inst of Some s \<Rightarrow> Inr s | None \<Rightarrow> rsp_die s d) p" for p d
    by (simp add: fall_through_def rsp_die_def split: option.splits)
  then show ?thesis
    using decode_ops [OF assms] by (auto simp: exec_def Let_def ft sp)
qed

lemma slot_agrees:
  assumes "llvm_doc L" and "live fr" and "decode slot = Some j" and "\<not> isControl j"
    and "out = and_then (gen_plain L j slot (next_addr addr) fr) k" and "\<And>fr'. goes_to target fr' (k fr')"
    and "\<And>u a. exec (write_back fr) slot target = Inr (u, a) \<Longrightarrow> imem_gen u = imem_gen (write_back fr)"
  shows "agrees_jump (case exec (write_back fr) slot target of Inl d \<Rightarrow> Inl d | Inr (u, _) \<Rightarrow> Inr (u, target)) out"
proof -
  let ?r = "exec (write_back fr) slot (next_addr (next_addr addr))"
  have a: "agrees (next_addr addr) (write_back fr) ?r (gen_plain L j slot (next_addr addr) fr)"
    by (rule simulates [OF assms(1-4)])
  have same: "forget_next (exec (write_back fr) slot target) = forget_next ?r"
    by (rule exec_anywhere [OF assms(3,4)])
  show ?thesis
  proof (cases ?r)
    case (Inl d)
    then have "exec (write_back fr) slot target = Inl d"
      using same by (cases "exec (write_back fr) slot target") (simp_all add: forget_next_def)
    then show ?thesis using a Inl by (simp add: assms(5) and_then_def)
  next
    case (Inr r)
    then obtain u b where r: "?r = Inr (u, b)" by (cases r) auto
    then obtain b' where e: "exec (write_back fr) slot target = Inr (u, b')"
      using same by (cases "exec (write_back fr) slot target") (auto simp: forget_next_def)
    have g: "imem_gen u = imem_gen (write_back fr)" by (rule assms(7) [OF e])
    show ?thesis
    proof (cases "gen_plain L j slot (next_addr addr) fr")
      case (Falls fr')
      have w: "frame_ok fr'" "write_back fr' = set_r u 0 0" "\<not> halted u"
        using a unfolding r Falls by simp_all
      have "frame_ok (fr'\<lparr>ret_slot := x\<rparr>) = frame_ok fr'" "write_back (fr'\<lparr>ret_slot := x\<rparr>) = write_back fr'" for x
        by (simp_all add: frame_ok_def write_back_def Let_def)
      then show ?thesis
        using w assms(6) [of fr'] unfolding e assms(5) Falls by (auto simp: and_then_def goes_to_def)
    next
      case (Returns fr')
      then show ?thesis
        using a g unfolding e assms(5) r by (auto simp: and_then_def split: if_splits)
    qed (use a in \<open>simp_all add: r\<close>)
  qed
qed

lemma control_simulates:
  assumes "llvm_doc L" and "live fr" and "decode inst = Some i" and "isControl i" and "decode slot = Some j" and "\<not> isControl j"
    and "\<And>u a. exec_pair (write_back fr) inst slot addr = Inr (u, a) \<Longrightarrow> imem_gen u = imem_gen (mach fr)"
  shows "agrees_jump (exec_pair (write_back fr) inst slot addr)
    (gen_control L roots c cx i inst addr (gen_plain L j slot (next_addr addr)) fr)"
proof -
  obtain t target fr1 k where h: "exec (write_back fr) inst (next_addr addr) = Inr (t, target)" "write_back fr1 = set_r t 0 0"
    "live fr1" "imem_gen t = imem_gen (mach fr)"
    "\<And>delay. gen_control L roots c cx i inst addr delay fr = and_then (delay fr1) k" "\<And>fr'. goes_to target fr' (k fr')"
    using control_head [OF assms(1-4), of addr roots c cx] unfolding control_heads_def by blast
  have p: "exec_pair (write_back fr) inst slot addr =
      (case exec (write_back fr1) slot target of Inl d \<Rightarrow> Inl d | Inr (u, _) \<Rightarrow> Inr (u, target))"
    by (simp add: exec_pair_def h(1,2))
  show ?thesis
    unfolding p
  proof (rule slot_agrees [OF assms(1) h(3) assms(5,6), where k = k])
    show "gen_control L roots c cx i inst addr (gen_plain L j slot (next_addr addr)) fr = and_then (gen_plain L j slot (next_addr addr) fr1) k"
      by (rule h(5))
  next
    show "goes_to target fr' (k fr')" for fr' by (rule h(6))
  next
    fix u a
    assume "exec (write_back fr1) slot target = Inr (u, a)"
    then have "imem_gen u = imem_gen (mach fr)" using assms(7) [unfolded p] by simp
    then show "imem_gen u = imem_gen (write_back fr1)" unfolding h(2) using h(4) by simp
  qed
qed

text \<open>
  C12: A jump or branch with any instruction that may follow it in its delay slot: the generated
  code decides the target before the slot runs and writes the link register first, as the
  interpreter does, and ends at the block of the interpreter's target, at the interpreter's
  target handed back to \<open>run\<close>, halted, or with the interpreter's error, provided the slot did not
  change instruction memory.
\<close>

theorem translated_jump_agrees:
  assumes "llvm_doc L" and "frame_ok fr" and "\<not> halted (mach fr)"
    and "decode inst = Some i" and "isControl i" and "decode slot = Some j" and "\<not> isControl j"
    and "\<And>u target. exec_pair (write_back fr) inst slot addr = Inr (u, target) \<Longrightarrow> imem_gen u = imem_gen (mach fr)"
  shows "agrees_jump (exec_pair (write_back fr) inst slot addr)
    (gen_control L roots c cx i inst addr (gen_plain L j slot (next_addr addr)) fr)"
  by (rule control_simulates [OF assms(1) _ assms(4-8)]) (simp add: live_def assms(2,3))

lemma gen_mtc0_Returns: "gen_mtc0 L inst addr fr = Returns fr' \<Longrightarrow> ret_slot fr' = next_addr addr"
  by (auto simp: gen_mtc0_def exitToInterp_def next_addr_def Let_def split: sum.splits if_splits)

text \<open>
  C15: The proviso is needed: when the delay slot starts a DMA that lands in instruction memory,
  the generated code returns the address after the slot to \<open>run\<close>, wherever the jump was going,
  and the target is lost.
\<close>

theorem slot_dma_loses_target:
  assumes "llvm_doc L" and "frame_ok fr" and "\<not> halted (mach fr)"
    and "decode inst = Some i" and "isControl i" and "decode slot = Some Insn_mtc0"
    and "exec_pair (write_back fr) inst slot addr = Inr (u, target)" and "imem_gen u \<noteq> imem_gen (mach fr)"
  shows "\<exists>fr'. gen_control L roots c cx i inst addr (gen_plain L Insn_mtc0 slot (next_addr addr)) fr = Returns fr' \<and>
    write_back fr' = set_r u 0 0 \<and> ret_slot fr' = ntAddr addr"
proof -
  have live: "live fr" by (simp add: live_def assms(2,3))
  obtain t tgt fr1 k where h: "exec (write_back fr) inst (next_addr addr) = Inr (t, tgt)" "write_back fr1 = set_r t 0 0"
    "live fr1" "imem_gen t = imem_gen (mach fr)"
    "\<And>delay. gen_control L roots c cx i inst addr delay fr = and_then (delay fr1) k"
    using control_head [OF assms(1) live assms(4,5), of addr roots c cx] unfolding control_heads_def by blast
  obtain b where e: "exec (write_back fr1) slot tgt = Inr (u, b)"
    using assms(7) unfolding exec_pair_def h(1) by (auto simp: h(2) split: sum.splits)
  let ?r = "exec (write_back fr1) slot (next_addr (next_addr addr))"
  have a: "agrees (next_addr addr) (write_back fr1) ?r (gen_plain L Insn_mtc0 slot (next_addr addr) fr1)"
    by (rule simulates [OF assms(1) h(3) assms(6)]) simp
  have "forget_next ?r = forget_next (exec (write_back fr1) slot tgt)"
    by (rule exec_anywhere [OF assms(6)]) simp
  then obtain b' where r: "?r = Inr (u, b')"
    unfolding e by (cases ?r) (auto simp: forget_next_def)
  have g: "imem_gen u \<noteq> imem_gen (write_back fr1)" unfolding h(2) using assms(8) h(4) by simp
  show ?thesis
    using a g unfolding r h(5) by (auto simp: and_then_def targets dest!: gen_mtc0_Returns split: outcome.splits)
qed


subsection \<open>The theorems at work\<close>

text \<open>A frame whose DMA address register points into instruction memory.\<close>

definition imem_frame :: frame where
  "imem_frame = load_frame ((rsp_init (\<lambda>_. 0))\<lparr>halted := False, sp_mem_addr := 0x1000\<rparr>) 0"

lemma imem_frame_live: "frame_ok imem_frame" "\<not> halted (mach imem_frame)"
  by (simp_all add: imem_frame_def load_frame_def frame_ok_def rsp_init_def)

lemma imem_frame_machine:
  "write_back imem_frame = (rsp_init (\<lambda>_. 0))\<lparr>halted := False, sp_mem_addr := 0x1000\<rparr>"
  "mach imem_frame = (rsp_init (\<lambda>_. 0))\<lparr>halted := False, sp_mem_addr := 0x1000\<rparr>"
  by (simp_all add: imem_frame_def) (simp add: load_frame_def)

text \<open>\<open>addi $2, $2, 5\<close>\<close>

theorem translated_instruction_agrees_witness:
  "\<exists>fr'. gen_plain llvm_ref (IType Insn_addi) 0x20420005 0x40 imem_frame = Falls fr' \<and> getGPR 2 fr' = 5 \<and>
    exec (write_back imem_frame) 0x20420005 (next_addr 0x40) = Inr (write_back fr', 0x48)"
proof -
  have d: "decode 0x20420005 = Some (IType Insn_addi)"
    by (simp add: decode_def f_op_def)
  have e: "exec (write_back imem_frame) 0x20420005 (next_addr 0x40) = Inr (set_r (write_back imem_frame) 2 5, 0x48)"
    by (simp add: exec_def exec_plain_def f_op_def f_rs_def f_rt_def f_simm_def next_addr_def pc_after_def imem_frame_machine rsp_init_def Let_def)
  have "agrees 0x40 (write_back imem_frame) (exec (write_back imem_frame) 0x20420005 (next_addr 0x40))
      (gen_plain llvm_ref (IType Insn_addi) 0x20420005 0x40 imem_frame)"
    by (rule translated_instruction_agrees [OF llvm_ref_doc d]) (simp_all add: imem_frame_live)
  moreover obtain fr' where f: "gen_plain llvm_ref (IType Insn_addi) 0x20420005 0x40 imem_frame = Falls fr'"
    by simp
  ultimately have w: "frame_ok fr'" "write_back fr' = set_r (set_r (write_back imem_frame) 2 5) 0 0"
    unfolding e f by simp_all
  have "getGPR 2 fr' = 5" using write_back_r [OF w(1), of 2] by (simp add: w(2))
  moreover have "set_r (set_r (write_back imem_frame) 2 5) 0 0 = set_r (write_back imem_frame) 2 5"
    by (simp add: imem_frame_machine set_r_def rsp_init_def fun_upd_def) (simp add: fun_eq_iff)
  ultimately show ?thesis using f e w(2) by auto
qed

text \<open>\<open>j 0x100\<close> with a \<open>nop\<close> in its delay slot, and with \<open>mtc0 $0, SP_RD_LEN\<close>.\<close>

lemma jump_codes: "decode 0x08000040 = Some Insn_j" "decode 0 = Some (Shift Insn_sll)" "decode 0x40801000 = Some Insn_mtc0"
  by (simp_all add: decode_def decode_special_def f_op_def f_fn_def f_rs_def)

lemma nop_pair: "exec_pair (write_back imem_frame) 0x08000040 0 0x40 = Inr (set_r (write_back imem_frame) 0 0, 0x100)"
  by (simp add: exec_pair_def exec_def exec_special_def f_op_def f_fn_def f_rd_def f_rt_def f_sa_def jump_target_def next_addr_def
      imem_frame_machine rsp_init_def set_r_def Let_def)

theorem translated_jump_agrees_witness:
  "\<exists>ctx fr'. gen_control llvm_ref [] ctxs_init 0 Insn_j 0x08000040 0x40 (gen_plain llvm_ref (Shift Insn_sll) 0 (next_addr 0x40)) imem_frame =
     Branches (0x100, ctx) fr' \<and> write_back fr' = write_back imem_frame"
proof -
  have "agrees_jump (exec_pair (write_back imem_frame) 0x08000040 0 0x40)
    (gen_control llvm_ref [] ctxs_init 0 Insn_j 0x08000040 0x40 (gen_plain llvm_ref (Shift Insn_sll) 0 (next_addr 0x40)) imem_frame)"
    by (rule translated_jump_agrees [OF llvm_ref_doc imem_frame_live jump_codes(1) _ jump_codes(2)])
      (simp_all add: nop_pair)
  moreover have "set_r (set_r (write_back imem_frame) 0 0) 0 0 = write_back imem_frame" "\<not> halted (write_back imem_frame)"
    by (simp_all add: imem_frame_machine rsp_init_def set_r_def fun_upd_def)
  moreover obtain k fr' where "gen_control llvm_ref [] ctxs_init 0 Insn_j 0x08000040 0x40 (gen_plain llvm_ref (Shift Insn_sll) 0 (next_addr 0x40)) imem_frame
      = Branches k fr'"
    by (simp add: and_then_def)
  ultimately show ?thesis
    unfolding nop_pair by (cases k) auto
qed

lemma dma_pair: "\<exists>u. exec_pair (write_back imem_frame) 0x08000040 0x40801000 0x40 = Inr (u, 0x100) \<and> imem_gen u = 1"
proof -
  have "exec_pair (write_back imem_frame) 0x08000040 0x40801000 0x40 = Inr (dma (set_r (write_back imem_frame) 0 0) 0 True, 0x100)"
    by (simp add: exec_pair_def exec_def exec_cop0_def mtc0_def fall_through_def f_op_def f_rs_def f_rd_def f_rt_def jump_target_def next_addr_def
        imem_frame_machine rsp_init_def set_r_def Let_def)
  moreover have "imem_gen (dma (set_r (write_back imem_frame) 0 0) 0 True) = 1"
    using dma_frame [of "set_r (write_back imem_frame) 0 0" 0 True]
    by (simp add: imem_frame_machine rsp_init_def set_r_def dma_count_def)
  ultimately show ?thesis by blast
qed

theorem slot_dma_loses_target_witness:
  "\<exists>u fr'. exec_pair (write_back imem_frame) 0x08000040 0x40801000 0x40 = Inr (u, 0x100) \<and>
    gen_control llvm_ref [] ctxs_init 0 Insn_j 0x08000040 0x40 (gen_plain llvm_ref Insn_mtc0 0x40801000 (next_addr 0x40)) imem_frame =
      Returns fr' \<and> ret_slot fr' = 0x48"
proof -
  obtain u where u: "exec_pair (write_back imem_frame) 0x08000040 0x40801000 0x40 = Inr (u, 0x100)" "imem_gen u = 1"
    using dma_pair by blast
  have "imem_gen u \<noteq> imem_gen (mach imem_frame)" by (simp add: u(2) imem_frame_machine rsp_init_def)
  from slot_dma_loses_target [OF llvm_ref_doc imem_frame_live jump_codes(1) _ jump_codes(3) u(1) this, of "[]" ctxs_init 0] u(1)
  show ?thesis by (auto simp: ntAddr_def)
qed

end
