(* ===== verification/Rsp_Turns.thy ===== *)
theory Rsp_Turns
  imports Rsp_Interp
begin

text \<open>
  The interpreter's loop seen without the pc and the instruction counter of the machine, which no
  instruction reads: one \<open>turn\<close> takes the pc and the pc after it as arguments.  Translated code
  does not keep the two up to date, so this is the view it is compared with.
\<close>


subsection \<open>The pc and the instruction counter are not read by any instruction\<close>

definition at_pc :: "u32 \<Rightarrow> u64 \<Rightarrow> rsp_t \<Rightarrow> rsp_t" where
  "at_pc p n s = s\<lparr>rsp_pc := p, n_insns := n\<rparr>"

definition die_at :: "u32 \<Rightarrow> rsp_err \<Rightarrow> rsp_err" where
  "die_at p d = Rsp_die (die_reason d) p"

lemma at_pc_simps [simp]:
  "rsp_r (at_pc p n s) = rsp_r s" "rsp_mem (at_pc p n s) = rsp_mem s" "rsp_v (at_pc p n s) = rsp_v s"
  "sp_mem_addr (at_pc p n s) = sp_mem_addr s" "sp_dram_addr (at_pc p n s) = sp_dram_addr s" "sp_status (at_pc p n s) = sp_status s"
  "imem_gen (at_pc p n s) = imem_gen s" "halted (at_pc p n s) = halted s" "rdram (at_pc p n s) = rdram s"
  "rsp_pc (at_pc p n s) = p" "n_insns (at_pc p n s) = n" "at_pc p n (at_pc q m s) = at_pc p n s"
  by (simp_all add: at_pc_def)

lemma at_pc_self [simp]: "at_pc (rsp_pc s) (n_insns s) s = s"
  by (simp add: at_pc_def)

lemma at_pc_ops:
  "set_r (at_pc p n s) r x = at_pc p n (set_r s r x)" "rd8 (at_pc p n s) a = rd8 s a" "rd16 (at_pc p n s) a = rd16 s a"
  "rd32 (at_pc p n s) a = rd32 s a" "wr8 (at_pc p n s) a b = at_pc p n (wr8 s a b)" "wr16 (at_pc p n s) a y = at_pc p n (wr16 s a y)"
  "wr32 (at_pc p n s) a z = at_pc p n (wr32 s a z)" "(at_pc p n s)\<lparr>halted := h\<rparr> = at_pc p n (s\<lparr>halted := h\<rparr>)"
  "vbyte (at_pc p n s) vt k = vbyte s vt k" "set_vbyte (at_pc p n s) vt k b = at_pc p n (set_vbyte s vt k b)"
  "set_v (at_pc p n s) vt k y = at_pc p n (set_v s vt k y)" "get_lane (at_pc p n s) = get_lane s"
  "put_lane (at_pc p n s) k L = at_pc p n (put_lane s k L)" "vmem_ea (at_pc p n s) insn k = vmem_ea s insn k"
  by (simp_all add: at_pc_def set_r_def rd8_def rd16_def rd32_def wr8_def wr16_def wr32_def Let_def vbyte_def set_vbyte_def
      set_v_def get_lane_def put_lane_def vmem_ea_def fun_eq_iff)

lemma at_pc_die: "rsp_die (at_pc p n s) why = map_sum (die_at p) h (rsp_die s why)"
  by (simp add: rsp_die_def die_at_def)

lemma copy_loop_map:
  assumes "\<And>s i b. put (h s) i b = h (put s i b)" and "\<And>s j. src (h s) j = src s j"
  shows "copy_loop put src f g xs (h s) = h (copy_loop put src f g xs s)"
  by (induction xs arbitrary: s) (simp_all add: copy_loop_Cons assms)

lemma at_pc_loops:
  "load_bytes vt e ea m (at_pc p n s) = at_pc p n (load_bytes vt e ea m s)" "store_bytes vt e ea m (at_pc p n s) = at_pc p n (store_bytes vt e ea m s)"
  "load_right vt e ea (at_pc p n s) = at_pc p n (load_right vt e ea s)" "store_right vt e ea (at_pc p n s) = at_pc p n (store_right vt e ea s)"
  "load_packed vt e ea m (at_pc p n s) = at_pc p n (load_packed vt e ea m s)" "store_packed vt e ea m (at_pc p n s) = at_pc p n (store_packed vt e ea m s)"
  "load_transpose vt ea (at_pc p n s) = at_pc p n (load_transpose vt ea s)"
  unfolding load_bytes_def store_bytes_def load_right_def store_right_def load_packed_def store_packed_def load_transpose_def Let_def
  by (rule copy_loop_map; simp add: at_pc_ops)+

lemma at_pc_lwc2: "lwc2 (at_pc p n s) insn = map_sum (die_at p) (at_pc p n) (lwc2 s insn)"
  by (simp add: lwc2_def Let_def at_pc_ops at_pc_loops at_pc_die [of p n s _ "at_pc p n"])

lemma at_pc_swc2: "swc2 (at_pc p n s) insn = map_sum (die_at p) (at_pc p n) (swc2 s insn)"
  by (simp add: swc2_def Let_def at_pc_ops at_pc_loops at_pc_die [of p n s _ "at_pc p n"])

lemma at_pc_vflags: "set_vflags (at_pc p n s) which v = at_pc p n (set_vflags s which v)" "get_vflags (at_pc p n s) which = get_vflags s which"
proof -
  have c: "set_flag_lo which i b (at_pc p n s) = at_pc p n (set_flag_lo which i b s)"
    "set_flag_hi which i b (at_pc p n s) = at_pc p n (set_flag_hi which i b s)" for i b s
    by (simp_all add: set_flag_lo_def set_flag_hi_def at_pc_def)
  have "fold g is (at_pc p n s) = at_pc p n (fold g is s)" if "\<And>i s. g i (at_pc p n s) = at_pc p n (g i s)" for g :: "nat \<Rightarrow> rsp_t \<Rightarrow> rsp_t" and "is" s
    by (induction "is" arbitrary: s) (simp_all add: that)
  from this [of "\<lambda>i s. (let s = set_flag_lo which i (drop_bit i v AND 1 \<noteq> 0) s
      in if which \<noteq> 2 then set_flag_hi which i (drop_bit (i + 8) v AND 1 \<noteq> 0) s else s)" "[0..<8]" s]
  show "set_vflags (at_pc p n s) which v = at_pc p n (set_vflags s which v)"
    unfolding set_vflags_def by (simp add: c Let_def del: upt_rec_numeral)
  show "get_vflags (at_pc p n s) which = get_vflags s which"
  proof -
    have f: "flags_lo which (at_pc p n s) = flags_lo which s" "flags_hi which (at_pc p n s) = flags_hi which s"
      by (simp_all add: flags_lo_def flags_hi_def at_pc_def)
    show ?thesis unfolding get_vflags_def by (simp only: f)
  qed
qed

lemma at_pc_cop2_lanes:
  "cop2_lanes insn is res (at_pc p n s) = map_sum (die_at p) (map_prod id (at_pc p n)) (cop2_lanes insn is res s)"
proof (induction "is" arbitrary: res s)
  case Nil
  then show ?case by simp
next
  case (Cons i "is")
  then show ?case
    by (simp add: Let_def at_pc_ops at_pc_die [of p n s _ "map_prod id (at_pc p n)"] id_def fun_upd_def split: option.splits prod.splits)
qed

lemma at_pc_cop2: "cop2 (at_pc p n s) insn = map_sum (die_at p) (at_pc p n) (cop2 s insn)"
proof -
  have v: "(at_pc p n t)\<lparr>rsp_v := w\<rparr> = at_pc p n (t\<lparr>rsp_v := w\<rparr>)" for t w by (simp add: at_pc_def)
  have "cop2_move (at_pc p n s) insn = map_sum (die_at p) (at_pc p n) (cop2_move s insn)"
    by (simp add: cop2_move_def Let_def at_pc_ops at_pc_vflags at_pc_die [of p n s _ "at_pc p n"])
  then show ?thesis
    by (simp add: cop2_def at_pc_cop2_lanes v del: upt_rec_numeral split: sum.splits cong: if_cong)
qed

lemma at_pc_dma: "dma (at_pc p n s) x to_rsp = at_pc p n (dma s x to_rsp)"
proof -
  have row: "dma_row to_rsp len skip bank (off, dram, at_pc p n s) = map_prod id (map_prod id (at_pc p n)) (dma_row to_rsp len skip bank (off, dram, s))"
    for len skip bank off dram s
    by (simp add: dma_row_def Let_def at_pc_def)
  have rows: "dma_rows k to_rsp len skip bank (off, dram, at_pc p n s) = map_prod id (map_prod id (at_pc p n)) (dma_rows k to_rsp len skip bank (off, dram, s))"
    for k len skip bank off dram s
    by (induction k arbitrary: off dram s) (simp_all add: row split_def map_prod_def)
  show ?thesis
    by (simp add: dma_def Let_def rows split: prod.splits) (simp add: at_pc_def)
qed

lemma at_pc_cop0: "exec_cop0 (at_pc p n s) insn = map_sum (die_at p) (at_pc p n) (exec_cop0 s insn)"
proof -
  have "mfc0 (at_pc p n s) rd = map_sum (die_at p) id (mfc0 s rd)" for rd
    unfolding mfc0_def if_distrib [of "map_sum _ _"] by (intro if_cong refl) (simp_all add: at_pc_die [of p n s _ id])
  moreover have "mtc0 (at_pc p n s) rd x = map_sum (die_at p) (at_pc p n) (mtc0 s rd x)" for rd x
    unfolding mtc0_def if_distrib [of "map_sum _ _"]
    by (intro if_cong refl) (simp_all add: at_pc_dma at_pc_die [of p n s _ "at_pc p n"], simp_all add: at_pc_def apply_status_write_def)
  ultimately show ?thesis
    by (simp add: exec_cop0_def at_pc_ops at_pc_die [of p n s _ "at_pc p n"] split: sum.splits)
qed

lemma at_pc_exec: "exec (at_pc p n s) insn np = map_sum (die_at p) (map_prod (at_pc p n) id) (exec s insn np)"
proof -
  let ?M = "map_sum (die_at p) (map_prod (at_pc p n) id)"
  note die = at_pc_die [of p n s _ "map_prod (at_pc p n) id"]
  have ft: "fall_through (map_sum (die_at p) (at_pc p n) r) np = ?M (fall_through r np)" for r
    by (cases r) (simp_all add: fall_through_def)
  have special: "exec_special (at_pc p n s) insn np = ?M (exec_special s insn np)"
    by (simp add: exec_special_def Let_def at_pc_ops die)
  have regimm: "exec_regimm (at_pc p n s) insn np = ?M (exec_regimm s insn np)"
    by (simp add: exec_regimm_def Let_def at_pc_ops)
  have branch: "exec_branch (at_pc p n s) insn np b = ?M (exec_branch s insn np b)" for b
    by (simp add: exec_branch_def)
  have plain: "exec_plain (at_pc p n s) insn = map_option (at_pc p n) (exec_plain s insn)"
    by (simp add: exec_plain_def Let_def at_pc_ops)
  show ?thesis
    by (simp add: exec_def Let_def special regimm branch at_pc_cop0 at_pc_cop2 at_pc_lwc2 at_pc_swc2 ft at_pc_ops plain die split: option.splits)
qed

subsection \<open>Turns\<close>

definition turn :: "rsp_t \<Rightarrow> u32 \<Rightarrow> u32 \<Rightarrow> rsp_err + rsp_t \<times> u32" where
  "turn s pc np =
    (case exec s (fetch_at s pc) np of
       Inl d \<Rightarrow> Inl d
     | Inr (t, after) \<Rightarrow> Inr (set_r t 0 0, after))"

inductive turns :: "nat \<Rightarrow> rsp_t \<Rightarrow> u32 \<Rightarrow> u32 \<Rightarrow> rsp_t \<Rightarrow> u32 \<Rightarrow> u32 \<Rightarrow> bool" where
  none: "turns 0 s pc np s pc np"
| more: "\<not> halted s \<Longrightarrow> turn s pc np = Inr (u, after) \<Longrightarrow> turns n u np after t q r \<Longrightarrow> turns (Suc n) s pc np t q r"

inductive_cases turns_0E [elim!]: "turns 0 s pc np t q r"
inductive_cases turns_SucE: "turns (Suc n) s pc np t q r"

lemma turns_trans: "turns m s pc np t q r \<Longrightarrow> turns n t q r u q' r' \<Longrightarrow> turns (m + n) s pc np u q' r'"
  by (induction rule: turns.induct) (auto intro: turns.intros)

lemma turns_one: "\<not> halted s \<Longrightarrow> turn s pc np = Inr (u, after) \<Longrightarrow> turns 1 s pc np u np after"
  using more [OF _ _ none] by simp

lemma step_turn:
  "step (at_pc pc k s) np =
    (case turn s pc np of
       Inl d \<Rightarrow> Inl (die_at pc d)
     | Inr (t, after) \<Rightarrow>
         if push_bit 40 1 < k + 1 then Inl (Rsp_die Die_runaway np) else Inr (at_pc np (k + 1) t, after))"
proof -
  have n: "(at_pc pc k s)\<lparr>n_insns := k + 1\<rparr> = at_pc pc (k + 1) s" by (simp add: at_pc_def)
  have f: "fetch_at (at_pc pc k s) pc = fetch_at s pc" by (simp add: fetch_at_def)
  have p: "(at_pc pc j t)\<lparr>rsp_pc := np\<rparr> = at_pc np j t" for j t by (simp add: at_pc_def)
  show ?thesis
  proof (cases "exec s (fetch_at s pc) np")
    case (Inl d)
    then show ?thesis by (simp add: step_def turn_def n f at_pc_exec)
  next
    case (Inr r)
    then show ?thesis
      by (cases r) (simp add: step_def turn_def n f at_pc_exec at_pc_ops p rsp_die_def Let_def)
  qed
qed

text \<open>As long as the counter stays below the guard, turns are what the loop of \<open>run\<close> goes through.\<close>

lemma turns_reaches:
  assumes "turns n s pc np t q r" and "unat k + n \<le> 2 ^ 40"
  shows "reaches (at_pc pc k s) np (at_pc q (k + of_nat n) t) r"
  using assms
proof (induction arbitrary: k rule: turns.induct)
  case (none s pc np)
  then show ?case by (simp add: reaches.here)
next
  case (more s pc np u after n t q r)
  have k1: "unat (k + 1) = unat k + 1"
    using more.prems by (simp add: unat_word_ariths)
  have guard: "\<not> push_bit 40 1 < k + 1"
  proof -
    have "unat (push_bit 40 1 :: u64) = 2 ^ 40" by simp
    then have eq: "push_bit 40 1 < k + 1 \<longleftrightarrow> 2 ^ 40 < unat k + 1" by (simp only: word_less_nat_alt k1)
    show ?thesis unfolding eq using more.prems by linarith
  qed
  have "step (at_pc pc k s) np = Inr (at_pc np (k + 1) u, after)"
    unfolding step_turn more.hyps(2) using guard by (simp only: sum.case prod.case if_False)
  moreover have "reaches (at_pc np (k + 1) u) after (at_pc q (k + 1 + of_nat n) t) r"
  proof (rule more.IH)
    show "unat (k + 1) + n \<le> 2 ^ 40" unfolding k1 using more.prems by linarith
  qed
  ultimately show ?case
    using more.hyps(1) reaches.turn [of "at_pc pc k s" np "at_pc np (k + 1) u" after "at_pc q (k + 1 + of_nat n) t" r]
    by (simp add: add.assoc)
qed

subsection \<open>Turns and the loop of the interpreter\<close>

lemma turn_keeps:
  assumes "turn s p np = Inr (t, after)"
  shows "n_insns t = n_insns s" "rsp_r t 0 = 0" "pc_ok after"
proof -
  obtain u where u: "exec s (fetch_at s p) np = Inr (u, after)" "t = set_r u 0 0"
    using assms by (auto simp: turn_def split: sum.splits)
  have "exec_frame s (fetch_at s p) (u, after)" using on_InrD [OF exec_keeps_frame u(1)] .
  then show "n_insns t = n_insns s" "rsp_r t 0 = 0" "pc_ok after"
    by (simp_all add: exec_frame_def op_frame_def u(2))
qed

lemma turns_keep:
  "turns n s p np t q r \<Longrightarrow> n_insns t = n_insns s \<and> (rsp_r s 0 = 0 \<longrightarrow> rsp_r t 0 = 0) \<and> (pc_ok p \<longrightarrow> pc_ok np \<longrightarrow> pc_ok q \<and> pc_ok r)"
  by (induction rule: turns.induct) (auto simp: turn_keeps)

lemma turns_split:
  assumes "turns m s p np t q r" and "turns n s p np u q' r'" and "m \<le> n"
  shows "turns (n - m) t q r u q' r'"
  using assms
proof (induction arbitrary: n rule: turns.induct)
  case (more s pc np v after m t q r)
  obtain k where n: "n = Suc k" using more.prems(2) by (cases n) auto
  from more.prems(1) have "turns k v np after u q' r'"
    unfolding n using more.hyps(2) by (auto elim!: turns_SucE)
  then show ?case using more.IH [of k] more.prems(2) by (simp add: n)
qed simp

lemma no_more_turns: "turns (Suc n) s p np t q r \<Longrightarrow> \<not> (halted s \<or> (\<exists>d. turn s p np = Inl d))"
  by (auto elim: turns_SucE)

text \<open>Where the loop stops by itself, and that there is one such place only.\<close>

definition ended :: "rsp_t \<Rightarrow> u32 \<Rightarrow> u32 \<Rightarrow> bool" where
  "ended t q r \<longleftrightarrow> halted t \<or> (\<exists>d. turn t q r = Inl d)"

lemma ended_stays: "ended t q r \<Longrightarrow> turns n t q r u q' r' \<Longrightarrow> n = 0 \<and> u = t \<and> q' = q \<and> r' = r"
  by (cases n) (auto simp: ended_def dest: no_more_turns)

lemma ended_unique:
  assumes "turns m s p np t q r" "ended t q r" "turns n s p np u q' r'" "ended u q' r'"
  shows "n = m \<and> u = t \<and> q' = q \<and> r' = r"
proof (cases "m \<le> n")
  case True
  from ended_stays [OF assms(2) turns_split [OF assms(1,3) True]] True show ?thesis by auto
next
  case False
  then have "n \<le> m" by simp
  from ended_stays [OF assms(4) turns_split [OF assms(3,1) this]] this show ?thesis by auto
qed

text \<open>What the loop returns there, up to the pc and the counter.\<close>

definition result_at :: "rsp_t \<Rightarrow> u32 \<Rightarrow> u32 \<Rightarrow> rsp_err + rsp_t \<Rightarrow> bool" where
  "result_at t q r res \<longleftrightarrow>
    (if halted t then map_sum die_reason (at_pc 0 0) res = Inr (at_pc 0 0 t)
     else \<exists>d. turn t q r = Inl d \<and> map_sum die_reason (at_pc 0 0) res = Inl (die_reason d))"

lemma below_guard: "unat (k :: u64) < 2 ^ 40 \<Longrightarrow> \<not> push_bit 40 1 < k + 1 \<and> unat (k + 1) = Suc (unat k)"
proof -
  assume k: "unat k < 2 ^ 40"
  have k1: "unat (k + 1) = Suc (unat k)" using k by (simp add: unat_word_ariths)
  have "unat (push_bit 40 1 :: u64) = 2 ^ 40" by simp
  then show ?thesis using k k1 by (simp only: word_less_nat_alt k1 simp_thms not_less)
qed

lemma run_loop_turn:
  "run_loop (at_pc p k s) np =
    (if halted s then Inr (at_pc p k s)
     else case turn s p np of
        Inl d \<Rightarrow> Inl (die_at p d)
      | Inr (t, after) \<Rightarrow> if push_bit 40 1 < k + 1 then Inl (Rsp_die Die_runaway np) else run_loop (at_pc np (k + 1) t) after)"
  by (subst run_loop.simps) (simp add: step_turn split: sum.splits prod.splits)

lemma run_loop_of_turns:
  "turns m s p np t q r \<Longrightarrow> ended t q r \<Longrightarrow> unat k + m \<le> 2 ^ 40 \<Longrightarrow> result_at t q r (run_loop (at_pc p k s) np)"
proof (induction arbitrary: k rule: turns.induct)
  case (none s p np)
  then show ?case by (auto simp: run_loop_turn [of p k] result_at_def ended_def die_at_def)
next
  case (more s p np u after m t q r)
  have g: "\<not> push_bit 40 1 < k + 1" "unat (k + 1) = Suc (unat k)"
    using below_guard [of k] more.prems(2) by auto
  have "run_loop (at_pc p k s) np = run_loop (at_pc np (k + 1) u) after"
    unfolding run_loop_turn [of p k] using more.hyps(1,2) g(1) by (simp only: if_False sum.case prod.case)
  then show ?case using more.IH [OF more.prems(1), of "k + 1"] more.prems(2) g(2) by simp
qed

lemma turns_of_run_loop:
  "n = 2 ^ 40 - unat k \<Longrightarrow> unat k \<le> 2 ^ 40 \<Longrightarrow> (\<And>e. run_loop (at_pc p k s) np \<noteq> Inl (Rsp_die Die_runaway e)) \<Longrightarrow>
    \<exists>m t q r. turns m s p np t q r \<and> ended t q r \<and> unat k + m \<le> 2 ^ 40"
proof (induction n arbitrary: k p s np)
  case 0
  show ?case
  proof (cases "ended s p np")
    case True
    then show ?thesis using 0(2) turns.none [of s p np] by (metis add_0_right)
  next
    case False
    then obtain t after where "turn s p np = Inr (t, after)" "\<not> halted s"
      by (cases "turn s p np") (auto simp: ended_def)
    moreover have "push_bit 40 1 < k + 1"
    proof -
      have k: "unat k = 2 ^ 40" using 0(1,2) by simp
      then have "unat (k + 1) = Suc (2 ^ 40)" by (simp add: unat_word_ariths)
      moreover have "unat (push_bit 40 1 :: u64) = 2 ^ 40" by simp
      ultimately show ?thesis by (simp only: word_less_nat_alt)
    qed
    ultimately have "run_loop (at_pc p k s) np = Inl (Rsp_die Die_runaway np)"
      unfolding run_loop_turn [of p k] by (simp only: if_False if_True sum.case prod.case)
    then show ?thesis using 0(3) by blast
  qed
next
  case (Suc n)
  show ?case
  proof (cases "ended s p np")
    case True
    then show ?thesis using Suc.prems(2) turns.none [of s p np] by (metis add_0_right)
  next
    case False
    then obtain t after where t: "turn s p np = Inr (t, after)" "\<not> halted s"
      by (cases "turn s p np") (auto simp: ended_def)
    have g: "\<not> push_bit 40 1 < k + 1" "unat (k + 1) = Suc (unat k)"
      using below_guard [of k] Suc.prems(1) by auto
    have loop: "run_loop (at_pc p k s) np = run_loop (at_pc np (k + 1) t) after"
      unfolding run_loop_turn [of p k] using t g(1) by (simp only: if_False sum.case prod.case)
    have "n = 2 ^ 40 - unat (k + 1)" "unat (k + 1) \<le> 2 ^ 40" using Suc.prems(1) g(2) by auto
    from Suc.IH [OF this] Suc.prems(3) obtain m u q r where m: "turns m t np after u q r" "ended u q r" "unat (k + 1) + m \<le> 2 ^ 40"
      unfolding loop by blast
    have "turns (Suc m) s p np u q r" using turns.more [OF t(2,1) m(1)] .
    then show ?thesis using m(2,3) g(2) by (intro exI [of _ "Suc m"]) auto
  qed
qed

end
