(* ===== verification/Rsp_Bt.thy ===== *)
theory Rsp_Bt
  imports Rsp_Translate Rsp_Turns
begin

text \<open>
  The driver \<open>rspbt.cc\<close>: the static walk that finds the blocks of an image and the call strings
  they are specialised for, the code of a block and of the whole image, and what running that
  code means.
\<close>

subsection \<open>The image\<close>

text \<open>The 4 KB of instruction memory, addressed from zero; nothing beyond them is part of an image.\<close>

definition imem_of :: "rsp_t \<Rightarrow> nat \<Rightarrow> u8" where
  "imem_of s = (\<lambda>i. if i < 0x1000 then rsp_mem s (0x1000 + i) else 0)"

definition bt_fetch :: "(nat \<Rightarrow> u8) \<Rightarrow> u32 \<Rightarrow> u32" where
  "bt_fetch imem a =
    (let a = a AND 0xffc
     in push_bit 24 (ucast (imem (unat a))) OR push_bit 16 (ucast (imem (unat a + 1))) OR
        push_bit 8 (ucast (imem (unat a + 2))) OR ucast (imem (unat a + 3)))"

definition fnv1a64 :: "(nat \<Rightarrow> u8) \<Rightarrow> nat \<Rightarrow> u64" where
  "fnv1a64 p n = fold (\<lambda>i h. (h XOR ucast (p i)) * 0x100000001b3) [0..<n] 0xcbf29ce484222325"

definition insn_at :: "(nat \<Rightarrow> u8) \<Rightarrow> u32 \<Rightarrow> rsp_insn option" where
  "insn_at imem a = decode (bt_fetch imem a)"

text \<open>A control instruction is translatable only with a plain instruction in its delay slot.\<close>

definition translatable :: "(nat \<Rightarrow> u8) \<Rightarrow> u32 \<Rightarrow> bool" where
  "translatable imem a =
    (case insn_at imem a of
       None \<Rightarrow> False
     | Some i \<Rightarrow>
         if isControl i then
           (case insn_at imem (a + 4) of
              None \<Rightarrow> False
            | Some d \<Rightarrow> \<not> isControl d \<and> \<not> isBreak d)
         else True)"

subsection \<open>The walk\<close>

text \<open>\<open>work\<close> is used as a stack; its top is the head of the list.\<close>

record walk =
  leaders :: "blockKey set"
  walked :: "blockKey set"
  work :: "blockKey list"
  w_roots :: "u32 set"
  roots_changed :: bool
  w_ctxs :: ctxs

definition push_leader :: "blockKey \<Rightarrow> walk \<Rightarrow> walk" where
  "push_leader k st =
    (if k \<in> leaders st then st else st\<lparr>leaders := insert k (leaders st), work := k # work st\<rparr>)"

text \<open>
  The successors of a control instruction, in the order the source lists them: static targets (a
  call enters its own context), the way past the slot, the return to the caller's context.
\<close>

definition static_succs :: "rsp_insn \<Rightarrow> u32 \<Rightarrow> u32 \<Rightarrow> nat \<Rightarrow> ctxs \<Rightarrow> blockKey list \<times> ctxs" where
  "static_succs i inst a cx c =
    fold (\<lambda>t (succ, c).
        if isCall i then (let (cx', c) = pushCtx cx (ntAddr a) c in (succ @ [(t, cx')], c))
        else (succ @ [(t, cx)], c))
      (staticTargets i inst a) ([], c)"

definition succs :: "rsp_insn \<Rightarrow> u32 \<Rightarrow> u32 \<Rightarrow> nat \<Rightarrow> ctxs \<Rightarrow> (blockKey list \<times> ctxs) option" where
  "succs i inst a cx c =
    (let (succ, c) = static_succs i inst a cx c;
         succ = (if fallsThrough i then succ @ [(ntAddr a, cx)] else succ)
     in if isIndirect i \<and> cx \<noteq> 0 then
          map_option (\<lambda>up. (succ @ [(last (contexts c ! cx), up)], c)) (popCtx cx c)
        else Some (succ, c))"

definition walk_control :: "(nat \<Rightarrow> u8) \<Rightarrow> rsp_insn \<Rightarrow> u32 \<Rightarrow> nat \<Rightarrow> walk \<Rightarrow> walk option" where
  "walk_control imem i a cx st =
    (case succs i (bt_fetch imem a) a cx (w_ctxs st) of
       None \<Rightarrow> None
     | Some (succ, c) \<Rightarrow>
         (let st = st\<lparr>w_ctxs := c\<rparr>;
              st = (if makesLinkRoot i \<and> ntAddr a \<notin> w_roots st
                    then st\<lparr>w_roots := insert (ntAddr a) (w_roots st), roots_changed := True\<rparr> else st)
          in Some (fold push_leader succ st)))"

text \<open>One run of straight-line code, from \<open>a\<close> to an instruction that ends it or code already seen.\<close>

function walk_line :: "(nat \<Rightarrow> u8) \<Rightarrow> u32 \<Rightarrow> nat \<Rightarrow> walk \<Rightarrow> walk option" where
  "walk_line imem a cx st =
    (if (a, cx) \<in> walked st then Some (st\<lparr>leaders := insert (a, cx) (leaders st)\<rparr>)
     else
       (let st = st\<lparr>walked := insert (a, cx) (walked st)\<rparr>
        in if \<not> translatable imem a then Some st
           else case insn_at imem a of
                  None \<Rightarrow> Some st
                | Some i \<Rightarrow>
                    if isBreak i then Some st
                    else if isControl i then walk_control imem i a cx st
                    else walk_line imem (next_addr a) cx st))"
  by pat_completeness auto

termination
proof (relation "measure (\<lambda>(imem, a, cx, st). card {b. (b, cx) \<notin> walked st})")
  fix imem a cx and st stw :: walk and i
  assume new: "(a, cx) \<notin> walked st" and st: "stw = st\<lparr>walked := insert (a, cx) (walked st)\<rparr>"
  have "{b. (b, cx) \<notin> walked stw} \<subset> {b. (b, cx) \<notin> walked st}"
    using new by (auto simp: st)
  then have "card {b. (b, cx) \<notin> walked stw} < card {b. (b, cx) \<notin> walked st}"
    by (intro psubset_card_mono finite)
  then show "((imem, next_addr a, cx, stw), imem, a, cx, st) \<in> measure (\<lambda>(imem, a, cx, st). card {b. (b, cx) \<notin> walked st})"
    by simp
qed simp

declare walk_line.simps [simp del]

partial_function (option) walk_work :: "(nat \<Rightarrow> u8) \<Rightarrow> walk \<Rightarrow> walk option" where
  "walk_work imem st =
    (case work st of
       [] \<Rightarrow> Some st
     | (a, cx) # rest \<Rightarrow>
         Option.bind (walk_line imem (a AND 0xffc) cx (st\<lparr>work := rest\<rparr>)) (\<lambda>st. walk_work imem st))"

definition push_roots :: "walk \<Rightarrow> walk" where
  "push_roots st = fold (\<lambda>r. push_leader (r, 0)) (sorted_list_of_set (w_roots st)) st"

partial_function (option) walk_roots :: "(nat \<Rightarrow> u8) \<Rightarrow> walk \<Rightarrow> walk option" where
  "walk_roots imem st =
    (if \<not> roots_changed st then Some st
     else Option.bind (walk_work imem (push_roots (st\<lparr>roots_changed := False\<rparr>))) (\<lambda>st. walk_roots imem st))"

definition walk_init :: "u32 set \<Rightarrow> walk" where
  "walk_init roots = \<lparr>leaders = {}, walked = {}, work = [], w_roots = roots, roots_changed = True, w_ctxs = ctxs_init\<rparr>"

subsection \<open>The code of an image\<close>

text \<open>What the translation of an image consists of; a root that is data is not a target after all.\<close>

record translation =
  tr_imem :: "nat \<Rightarrow> u8"
  tr_leaders :: "blockKey set"
  tr_roots :: "u32 list"
  tr_ctxs :: ctxs

definition compile :: "(nat \<Rightarrow> u8) \<Rightarrow> u32 set \<Rightarrow> translation option" where
  "compile imem roots =
    map_option (\<lambda>st. \<lparr>tr_imem = imem, tr_leaders = leaders st,
        tr_roots = sorted_list_of_set (Set.filter (translatable imem) (w_roots st)), tr_ctxs = w_ctxs st\<rparr>)
      (walk_roots imem (walk_init roots))"

text \<open>
  The code of one block, run on a frame: instructions up to one that ends the block, or up to the
  next leader.  \<open>None\<close>: more than \<open>n\<close> instructions.
\<close>

definition slot_code :: "llvm \<Rightarrow> (nat \<Rightarrow> u8) \<Rightarrow> u32 \<Rightarrow> frame \<Rightarrow> outcome" where
  "slot_code L imem a fr =
    (case insn_at imem (a + 4) of
       None \<Rightarrow> exitHalted fr
     | Some d \<Rightarrow> gen_plain L d (bt_fetch imem (a + 4)) (next_addr a) fr)"

fun gen_block :: "llvm \<Rightarrow> translation \<Rightarrow> nat \<Rightarrow> nat \<Rightarrow> u32 \<Rightarrow> frame \<Rightarrow> outcome option" where
  "gen_block L tr cx 0 a fr = None"
| "gen_block L tr cx (Suc n) a fr =
    (if \<not> translatable (tr_imem tr) a then Some (exitToInterp a fr)
     else case insn_at (tr_imem tr) a of
            None \<Rightarrow> Some (exitToInterp a fr)
          | Some i \<Rightarrow>
              if isControl i then
                Some (gen_control L (tr_roots tr) (tr_ctxs tr) cx i (bt_fetch (tr_imem tr) a) a
                  (slot_code L (tr_imem tr) a) fr)
              else
                (case gen_plain L i (bt_fetch (tr_imem tr) a) a fr of
                   Falls fr \<Rightarrow>
                     if (next_addr a, cx) \<in> tr_leaders tr then Some (Branches (next_addr a, cx) fr)
                     else gen_block L tr cx n (next_addr a) fr
                 | out \<Rightarrow> Some out))"

text \<open>An image has 1024 words, so a block that starts at a leader has at most that many.\<close>

definition block_code :: "llvm \<Rightarrow> translation \<Rightarrow> blockKey \<Rightarrow> frame \<Rightarrow> outcome option" where
  "block_code L tr = (\<lambda>(a, cx). gen_block L tr cx 1024 a)"

text \<open>Running from block to block, at most \<open>n\<close> of them: the process ends or the exit block is reached.\<close>

fun run_blocks :: "llvm \<Rightarrow> translation \<Rightarrow> nat \<Rightarrow> outcome \<Rightarrow> (rsp_err + frame) option" where
  "run_blocks L tr n (Dies d) = Some (Inl d)"
| "run_blocks L tr n (Returns fr) = Some (Inr fr)"
| "run_blocks L tr n (Falls fr) = None"
| "run_blocks L tr 0 (Branches k fr) = None"
| "run_blocks L tr (Suc n) (Branches k fr) =
    (if k \<in> tr_leaders tr then
       (case block_code L tr k fr of
          None \<Rightarrow> None
        | Some out \<Rightarrow> run_blocks L tr n out)
     else None)"

text \<open>
  The function: load the registers, enter like a dispatch \<open>jr\<close>, run, write the registers back.
  It returns the machine and the pc to go on at.
\<close>

definition call_fn :: "llvm \<Rightarrow> translation \<Rightarrow> nat \<Rightarrow> rsp_t \<Rightarrow> u32 \<Rightarrow> u32 \<Rightarrow> (rsp_err + rsp_t \<times> u32) option" where
  "call_fn L tr n c pc junk =
    map_option (map_sum id (\<lambda>fr. (write_back fr, ret_slot fr)))
      (run_blocks L tr n (indirectJump (tr_roots tr) (tr_ctxs tr) 0 (pc AND 0xffc) (load_frame c junk)))"

end
