(* ===== verification/Rsp_Bt_Sound.thy ===== *)
theory Rsp_Bt_Sound
  imports Rsp_Bt
begin

text \<open>
  A translated image against the interpreter: each block, each jump from block to block and the
  whole function do turns of the interpreter's loop, and where the function returns is where the
  interpreter goes on.
\<close>

subsection \<open>Fetching\<close>

lemma fetch_image:
  assumes "pc_ok a"
  shows "fetch_at s a = bt_fetch (imem_of s) a"
proof -
  have "unat (a AND 0xffc) \<le> unat (0xffc :: u32)"
    by (simp only: word_le_nat_alt [symmetric] word_and_le1)
  then have "unat (a AND 0xffc) + 3 < 0x1000" by simp
  then show ?thesis
    using assms by (simp add: fetch_at_def bt_fetch_def imem_of_def pc_ok_def Let_def add.assoc)
qed

lemma bt_fetch_masked: "bt_fetch imem (a AND 0xffc) = bt_fetch imem a"
  by (simp add: bt_fetch_def Let_def and.assoc)

lemma pc_ok_next [simp]: "pc_ok (next_addr a)"
  by (simp add: next_addr_def)

lemma fetch_slot: "bt_fetch imem (a + 4) = bt_fetch imem (next_addr a)"
  unfolding next_addr_def bt_fetch_masked ..

lemma insn_at_slot: "insn_at imem (a + 4) = insn_at imem (next_addr a)"
  by (simp add: insn_at_def fetch_slot)

text \<open>An instruction that does not announce new code leaves the image alone.\<close>

lemma exec_keeps_image: "exec s insn np = Inr (t, q) \<Longrightarrow> imem_gen t = imem_gen s \<Longrightarrow> imem_of t = imem_of s"
proof -
  assume e: "exec s insn np = Inr (t, q)" and g: "imem_gen t = imem_gen s"
  have "op_frame s (t\<lparr>halted := halted s\<rparr>)"
    using on_InrD [OF exec_keeps_frame e] by (simp add: exec_frame_def)
  then show "imem_of t = imem_of s" using g by (simp add: op_frame_def imem_of_def cong: if_cong)
qed

lemma imem_of_simps [simp]: "imem_of (set_r s r x) = imem_of s" "imem_of (write_back fr) = imem_of (mach fr)"
  by (simp_all add: imem_of_def cong: if_cong)

subsection \<open>What a piece of translated code has to do\<close>

text \<open>
  \<open>code_right imem m s a out\<close>: running the interpreter on \<open>s\<close> from \<open>a\<close> gets, in some number of
  turns, where the outcome says, and a frame handed on still stands for a live machine with the
  same image.  Another block is reached after at least \<open>m\<close> turns.
\<close>

definition good_frame :: "(nat \<Rightarrow> u8) \<Rightarrow> frame \<Rightarrow> bool" where
  "good_frame imem fr \<longleftrightarrow> live fr \<and> imem_of (mach fr) = imem"

definition comes_back :: "rsp_t \<Rightarrow> u32 \<Rightarrow> rsp_t \<Rightarrow> u32 \<Rightarrow> bool" where
  "comes_back s a t next \<longleftrightarrow>
    (\<exists>n p q. turns n s a (next_addr a) t p q \<and> (if halted t then next = 0xffffffff else next = p \<and> q = next_addr p))"

definition dies_right :: "rsp_t \<Rightarrow> u32 \<Rightarrow> rsp_err \<Rightarrow> bool" where
  "dies_right s a d \<longleftrightarrow> (\<exists>n t p q. turns n s a (next_addr a) t p q \<and> \<not> halted t \<and> turn t p q = Inl d)"

fun code_right :: "(nat \<Rightarrow> u8) \<Rightarrow> nat \<Rightarrow> rsp_t \<Rightarrow> u32 \<Rightarrow> outcome \<Rightarrow> bool" where
  "code_right imem m s a (Branches (b, cx) fr) \<longleftrightarrow>
     good_frame imem fr \<and> pc_ok b \<and> (\<exists>n \<ge> m. turns n s a (next_addr a) (write_back fr) b (next_addr b))"
| "code_right imem m s a (Returns fr) \<longleftrightarrow> frame_ok fr \<and> comes_back s a (write_back fr) (ret_slot fr)"
| "code_right imem m s a (Dies d) \<longleftrightarrow> dies_right s a d"
| "code_right imem m s a (Falls fr) \<longleftrightarrow> False"

lemma comes_back_after: "turns m s a (next_addr a) t b (next_addr b) \<Longrightarrow> comes_back t b u next \<Longrightarrow> comes_back s a u next"
  unfolding comes_back_def using turns_trans by metis

lemma dies_right_after: "turns m s a (next_addr a) t b (next_addr b) \<Longrightarrow> dies_right t b d \<Longrightarrow> dies_right s a d"
  unfolding dies_right_def using turns_trans by metis

lemma code_right_after:
  assumes "turns m s a (next_addr a) t b (next_addr b)" and "code_right imem k t b out" and "l \<le> m + k"
  shows "code_right imem l s a out"
proof (cases out)
  case (Branches key fr)
  obtain c cx where key: "key = (c, cx)" by (cases key)
  obtain n where n: "good_frame imem fr" "pc_ok c" "k \<le> n" "turns n t b (next_addr b) (write_back fr) c (next_addr c)"
    using assms(2) unfolding Branches key code_right.simps by blast
  have "l \<le> m + n" using assms(3) n(3) by linarith
  then show ?thesis using n(1,2) turns_trans [OF assms(1) n(4)] unfolding Branches key code_right.simps by blast
next
  case (Returns fr)
  then show ?thesis using assms(2) comes_back_after [OF assms(1)] by simp
next
  case (Dies d)
  then show ?thesis using assms(2) dies_right_after [OF assms(1)] by simp
qed (use assms in simp)

subsection \<open>One instruction of a block\<close>

lemma write_back_zero: "frame_ok fr \<Longrightarrow> set_r (write_back fr) 0 0 = write_back fr"
  by (rule write_back_r0)

lemma plain_turn:
  assumes "llvm_doc L" and "good_frame imem fr" and "pc_ok a" and "insn_at imem a = Some i" and "\<not> isControl i"
    and "gen_plain L i (bt_fetch imem a) a fr = out"
  shows "(\<exists>fr'. out = Falls fr' \<and> good_frame imem fr' \<and>
      turns 1 (write_back fr) a (next_addr a) (write_back fr') (next_addr a) (next_addr (next_addr a))) \<or>
    ((\<forall>fr'. out \<noteq> Falls fr') \<and> code_right imem 1 (write_back fr) a out)"
proof -
  let ?s = "write_back fr" and ?insn = "bt_fetch imem a"
  have live: "live fr" and im: "imem_of (mach fr) = imem" using assms(2) by (simp_all add: good_frame_def)
  have f: "fetch_at ?s a = ?insn" by (simp add: fetch_image [OF assms(3)] im)
  have nh: "\<not> halted ?s" using live by simp
  have ag: "agrees a ?s (exec ?s ?insn (next_addr a)) out"
    using simulates [OF assms(1) live assms(4) [unfolded insn_at_def] assms(5), of a] by (simp only: assms(6))
  show ?thesis
  proof (cases "exec ?s ?insn (next_addr a)")
    case (Inl d)
    then have out: "out = Dies d" using ag by simp
    have "turn ?s a (next_addr a) = Inl d" by (simp add: turn_def f Inl)
    then have "dies_right ?s a d" unfolding dies_right_def using nh turns.none by metis
    then show ?thesis by (simp add: out)
  next
    case (Inr r)
    obtain t q where r: "exec ?s ?insn (next_addr a) = Inr (t, q)" using Inr by (cases r) simp
    have one: "turns 1 ?s a (next_addr a) (set_r t 0 0) (next_addr a) q"
      using nh by (intro turns_one) (simp_all add: turn_def f r)
    have q: "q = next_addr (next_addr a)" using ag unfolding r by (simp add: targets)
    show ?thesis
    proof (cases out)
      case (Falls fr')
      have w: "frame_ok fr'" "write_back fr' = set_r t 0 0" "\<not> halted t" "imem_gen t = imem_gen ?s"
        using ag unfolding r Falls by simp_all
      have "imem_of t = imem" using exec_keeps_image [OF r w(4)] by (simp add: im)
      then have "imem_of (write_back fr') = imem" unfolding w(2) by simp
      moreover have "\<not> halted (write_back fr')" unfolding w(2) using w(3) by simp
      ultimately have "good_frame imem fr'" using w(1) by (simp add: good_frame_def live_def del: live_simps)
      then show ?thesis using one unfolding w(2) [symmetric] q by (auto simp: Falls)
    next
      case (Returns fr')
      have w: "frame_ok fr'" "write_back fr' = set_r t 0 0" "if halted t then ret_slot fr' = 0xffffffff else ret_slot fr' = next_addr a"
        using ag unfolding r Returns by (auto split: if_splits)
      have "comes_back ?s a (write_back fr') (ret_slot fr')"
        unfolding comes_back_def w(2) using one w(3) q
        by (intro exI [of _ 1] exI [of _ "next_addr a"] exI [of _ q]) simp
      then show ?thesis using w(1) by (simp add: Returns)
    qed (use ag r in simp_all)
  qed
qed


subsection \<open>A jump with its slot\<close>

lemma exec_after:
  assumes "decode inst = Some i" and "\<not> isControl i" and "exec s inst p = Inr (u, b)"
  shows "b = pc_after p"
proof -
  have ft: "fall_through res p = Inr (u, b) \<Longrightarrow> b = pc_after p" for res
    by (cases res) (simp_all add: fall_through_def)
  have "on_Some (\<lambda>i. \<not> isControl i \<longrightarrow> (\<forall>u b. exec_special s inst p = Inr (u, b) \<longrightarrow> b = pc_after p)) (decode_special (f_fn inst))"
    unfolding decode_special_def by (intro on_Some_if; auto simp: exec_special_def Let_def)
  then have sp: "exec_special s inst p = Inr (u, b) \<Longrightarrow> b = pc_after p" if "f_op inst = 0"
    using assms(1,2) that by (simp add: decode_special)
  have pl: "(case exec_plain s inst of Some s \<Rightarrow> Inr (s, pc_after p) | None \<Rightarrow> rsp_die s d) = fall_through (case exec_plain s inst of Some s \<Rightarrow> Inr s | None \<Rightarrow> rsp_die s d) p" for d
    by (simp add: fall_through_def rsp_die_def split: option.splits)
  show ?thesis
    using decode_ops [OF assms(1,2)] assms(3)
    by (elim insertE emptyE; simp add: exec_def Let_def pl) (erule sp ft; simp)+
qed

text \<open>Only \<open>mtc0\<close> and \<open>break\<close> leave the function from the middle of a block.\<close>

lemma gen_plain_stays:
  assumes "\<not> isControl j" and "j \<noteq> Insn_mtc0" and "\<not> isBreak j"
  shows "(\<exists>fr'. gen_plain L j inst addr fr = Falls fr') \<or> (\<exists>d. gen_plain L j inst addr fr = Dies d)"
  using assms by (cases j) (auto simp: isBreak_def gen_mfc0_def split: sum.splits)

text \<open>An image without the delay slots of which \<open>slot_dma_loses_target\<close> is about.\<close>

definition slots_safe :: "(nat \<Rightarrow> u8) \<Rightarrow> bool" where
  "slots_safe imem \<longleftrightarrow> (\<forall>a i. pc_ok a \<longrightarrow> insn_at imem a = Some i \<longrightarrow> isControl i \<longrightarrow> insn_at imem (a + 4) \<noteq> Some Insn_mtc0)"

lemma control_turns:
  assumes "llvm_doc L" and "good_frame imem fr" and "pc_ok a" and "insn_at imem a = Some i" and "isControl i"
    and "insn_at imem (a + 4) = Some j" and "\<not> isControl j" and "\<not> isBreak j" and "j \<noteq> Insn_mtc0"
  shows "code_right imem 1 (write_back fr) a (gen_control L roots c cx i (bt_fetch imem a) a (slot_code L imem a) fr)"
proof -
  let ?s = "write_back fr" and ?slot = "bt_fetch imem (a + 4)"
  have live: "live fr" and im: "imem_of (mach fr) = imem" using assms(2) by (simp_all add: good_frame_def)
  have nh: "\<not> halted ?s" using live by simp
  have dj: "decode ?slot = Some j" using assms(6) by (simp add: insn_at_def)
  obtain t target fr1 k where h: "exec ?s (bt_fetch imem a) (next_addr a) = Inr (t, target)" "write_back fr1 = set_r t 0 0"
    "live fr1" "imem_gen t = imem_gen (mach fr)"
    "gen_control L roots c cx i (bt_fetch imem a) a (slot_code L imem a) fr = and_then (slot_code L imem a fr1) k"
    "\<And>fr'. goes_to target fr' (k fr')"
    using control_head [OF assms(1) live assms(4) [unfolded insn_at_def] assms(5), of a roots c cx]
    unfolding control_heads_def by blast
  have tgt: "pc_ok target" using on_InrD [OF exec_keeps_frame h(1)] by (simp add: exec_frame_def)
  have one: "turns 1 ?s a (next_addr a) (write_back fr1) (next_addr a) target"
    using nh by (intro turns_one) (simp_all add: turn_def fetch_image [OF assms(3)] im h(1,2))
  have im1: "imem_of (write_back fr1) = imem"
    using exec_keeps_image [OF h(1)] h(4) unfolding h(2) by (simp add: im)
  have f1: "fetch_at (write_back fr1) (next_addr a) = ?slot"
    by (simp only: fetch_image [OF pc_ok_next] im1 fetch_slot)
  have code: "slot_code L imem a fr1 = gen_plain L j ?slot (next_addr a) fr1"
    by (simp add: slot_code_def assms(6))
  let ?r = "exec (write_back fr1) ?slot (next_addr (next_addr a))"
  have ag: "agrees (next_addr a) (write_back fr1) ?r (gen_plain L j ?slot (next_addr a) fr1)"
    by (rule simulates [OF assms(1) h(3) dj assms(7)])
  have same: "forget_next (exec (write_back fr1) ?slot target) = forget_next ?r"
    by (rule exec_anywhere [OF dj assms(7)])
  have nh1: "\<not> halted (write_back fr1)" using h(3) by simp
  consider (falls) fr' where "gen_plain L j ?slot (next_addr a) fr1 = Falls fr'" | (dies) d where "gen_plain L j ?slot (next_addr a) fr1 = Dies d"
    using gen_plain_stays [OF assms(7,9,8)] by blast
  then show ?thesis
  proof cases
    case dies
    then have "?r = Inl d" using ag by (cases ?r) auto
    then have "exec (write_back fr1) ?slot target = Inl d"
      using same by (cases "exec (write_back fr1) ?slot target") (simp_all add: forget_next_def)
    then have "turn (write_back fr1) (next_addr a) target = Inl d" by (simp add: turn_def f1)
    then have "dies_right ?s a d" unfolding dies_right_def using one nh1 by blast
    then show ?thesis by (simp add: h(5) code dies and_then_def)
  next
    case falls
    then obtain u b where r: "?r = Inr (u, b)" using ag by (cases ?r) auto
    have w: "frame_ok fr'" "write_back fr' = set_r u 0 0" "\<not> halted u" "imem_gen u = imem_gen (write_back fr1)"
      using ag unfolding r falls by simp_all
    obtain b' where e: "exec (write_back fr1) ?slot target = Inr (u, b')"
      using same r by (cases "exec (write_back fr1) ?slot target") (auto simp: forget_next_def)
    have b': "b' = next_addr target" using exec_after [OF dj assms(7) e] by (simp add: next_addr_def pc_after_def)
    have "turn (write_back fr1) (next_addr a) target = Inr (write_back fr', next_addr target)"
      by (simp add: turn_def f1 e w(2) b')
    then have two: "turns 2 ?s a (next_addr a) (write_back fr') target (next_addr target)"
      using turns_trans [OF one turns_one [OF nh1]] by (simp only: one_add_one)
    have "imem_of (write_back fr') = imem"
      using exec_keeps_image [OF e w(4)] unfolding w(2) by (simp add: im1 del: imem_of_simps(2))
    moreover have nh2: "\<not> halted (write_back fr')" unfolding w(2) using w(3) by simp
    ultimately have good: "good_frame imem fr'" using w(1) by (simp add: good_frame_def live_def del: live_simps)
    have slot: "frame_ok (fr'\<lparr>ret_slot := x\<rparr>) = frame_ok fr'" "write_back (fr'\<lparr>ret_slot := x\<rparr>) = write_back fr'" for x
      by (simp_all add: frame_ok_def write_back_def Let_def)
    have out: "gen_control L roots c cx i (bt_fetch imem a) a (slot_code L imem a) fr = k fr'"
      by (simp add: h(5) code falls and_then_def)
    show ?thesis
      using h(6) [of fr'] unfolding goes_to_def out
    proof (elim disjE exE)
      assume "k fr' = Returns (fr'\<lparr>ret_slot := target\<rparr>)"
      moreover have "comes_back ?s a (write_back fr') target"
        unfolding comes_back_def using two nh2 by auto
      ultimately show "code_right imem 1 ?s a (k fr')" using w(1) by (simp add: slot)
    next
      fix ctx
      assume k: "k fr' = Branches (target, ctx) fr'"
      moreover have "1 \<le> (2 :: nat)" by simp
      ultimately show "code_right imem 1 ?s a (k fr')" using two good tgt unfolding k code_right.simps by blast
    qed
  qed
qed

subsection \<open>Blocks\<close>

lemma exit_right:
  assumes "good_frame imem fr"
  shows "code_right imem m (write_back fr) a (exitToInterp a fr)"
proof -
  have "frame_ok (fr\<lparr>ret_slot := x\<rparr>) = frame_ok fr" "write_back (fr\<lparr>ret_slot := x\<rparr>) = write_back fr" for x
    by (simp_all add: frame_ok_def write_back_def Let_def)
  moreover have "frame_ok fr" "\<not> halted (mach fr)" using assms by (simp_all add: good_frame_def)
  ultimately show ?thesis
    using turns.none [of "write_back fr" a "next_addr a"] by (simp add: exitToInterp_def comes_back_def) (erule exI)
qed

lemma gen_block_right:
  assumes "llvm_doc L" and "slots_safe (tr_imem tr)" and "good_frame (tr_imem tr) fr" and "pc_ok a" and "gen_block L tr cx n a fr = Some out"
  shows "code_right (tr_imem tr) 1 (write_back fr) a out"
  using assms(3-5)
proof (induction n arbitrary: a fr)
  case 0
  then show ?case by simp
next
  case (Suc n)
  let ?imem = "tr_imem tr"
  show ?case
  proof (cases "translatable ?imem a")
    case False
    then show ?thesis using Suc.prems(3) exit_right [OF Suc.prems(1), where a = a] by simp
  next
    case True
    then obtain i where i: "insn_at ?imem a = Some i" by (auto simp: translatable_def split: option.splits)
    show ?thesis
    proof (cases "isControl i")
      case c: True
      obtain j where j: "insn_at ?imem (a + 4) = Some j" "\<not> isControl j" "\<not> isBreak j"
        using True i c by (auto simp: translatable_def split: option.splits)
      have "j \<noteq> Insn_mtc0" using assms(2) Suc.prems(2) i c j(1) by (auto simp: slots_safe_def)
      from control_turns [OF assms(1) Suc.prems(1,2) i c j this, of "tr_roots tr" "tr_ctxs tr" cx] show ?thesis
        using Suc.prems(3) True i c by simp
    next
      case c: False
      let ?out = "gen_plain L i (bt_fetch ?imem a) a fr"
      from plain_turn [OF assms(1) Suc.prems(1,2) i c refl] consider
        (falls) fr' where "?out = Falls fr'" "good_frame ?imem fr'"
          "turns 1 (write_back fr) a (next_addr a) (write_back fr') (next_addr a) (next_addr (next_addr a))"
        | (leaves) "\<forall>fr'. ?out \<noteq> Falls fr'" "code_right ?imem 1 (write_back fr) a ?out"
        by blast
      then show ?thesis
      proof cases
        case leaves
        then have "out = ?out" using Suc.prems(3) True i c by (cases ?out) auto
        then show ?thesis using leaves by simp
      next
        case falls
        show ?thesis
        proof (cases "(next_addr a, cx) \<in> tr_leaders tr")
          case l: True
          then have "out = Branches (next_addr a, cx) fr'" using Suc.prems(3) True i c falls(1) by simp
          then show ?thesis using falls(2,3) by auto
        next
          case l: False
          then have "gen_block L tr cx n (next_addr a) fr' = Some out" using Suc.prems(3) True i c falls(1) by simp
          from code_right_after [OF falls(3) Suc.IH [OF falls(2) pc_ok_next this], of 1] show ?thesis by simp
        qed
      qed
    qed
  qed
qed

lemma run_blocks_right:
  assumes "llvm_doc L" and "slots_safe (tr_imem tr)" and "code_right (tr_imem tr) 0 s a out" and "run_blocks L tr n out = Some res"
  shows "(\<exists>fr. res = Inr fr \<and> frame_ok fr \<and> comes_back s a (write_back fr) (ret_slot fr)) \<or> (\<exists>d. res = Inl d \<and> dies_right s a d)"
  using assms(3,4)
proof (induction n arbitrary: out)
  case 0
  then show ?case by (cases out) auto
next
  case (Suc n)
  show ?case
  proof (cases out)
    case (Branches k fr)
    obtain b cx where k: "k = (b, cx)" by (cases k)
    from Suc.prems(1) obtain m where m: "good_frame (tr_imem tr) fr" "pc_ok b" "turns m s a (next_addr a) (write_back fr) b (next_addr b)"
      by (auto simp: Branches k)
    obtain out' where o: "gen_block L tr cx 1024 b fr = Some out'" "run_blocks L tr n out' = Some res"
      using Suc.prems(2) by (auto simp: Branches k block_code_def split: if_splits option.splits)
    from Suc.IH [OF code_right_after [OF m(3) gen_block_right [OF assms(1,2) m(1,2) o(1)]] o(2)] show ?thesis by simp
  qed (use Suc.prems in auto)
qed

subsection \<open>The function of an image\<close>

lemma entry_right:
  assumes "rsp_r c 0 = 0" and "\<not> halted c" and "tr_imem tr = imem_of c"
  shows "code_right (tr_imem tr) 0 c (pc AND 0xffc) (indirectJump (tr_roots tr) (tr_ctxs tr) 0 (pc AND 0xffc) (load_frame c junk))"
proof -
  let ?fr = "load_frame c junk"
  have ok: "frame_ok ?fr" using assms(1) by (simp add: frame_ok_def load_frame_def)
  have m: "mach ?fr = c" by (simp add: load_frame_def)
  have good: "good_frame (tr_imem tr) ?fr" by (simp add: good_frame_def live_def ok m assms(2,3) del: live_simps)
  show ?thesis
  proof (cases "pc AND 0xffc \<in> set (tr_roots tr)")
    case True
    then show ?thesis
      using good turns.none [of c "pc AND 0xffc" "next_addr (pc AND 0xffc)"] by (simp add: indirectJump_def) (erule exI)
  next
    case False
    then show ?thesis using exit_right [OF good, where m = 0 and a = "pc AND 0xffc"] by (simp add: indirectJump_def)
  qed
qed

lemma call_fn_right:
  assumes "llvm_doc L" and "slots_safe (imem_of c)" and "rsp_r c 0 = 0" and "\<not> halted c" and "tr_imem tr = imem_of c"
    and "call_fn L tr n c pc junk = Some res"
  shows "(\<exists>t next. res = Inr (t, next) \<and> rsp_r t 0 = 0 \<and> comes_back c (pc AND 0xffc) t next) \<or>
    (\<exists>d. res = Inl d \<and> dies_right c (pc AND 0xffc) d)"
proof -
  obtain r where r: "run_blocks L tr n (indirectJump (tr_roots tr) (tr_ctxs tr) 0 (pc AND 0xffc) (load_frame c junk)) = Some r"
    "res = map_sum id (\<lambda>fr. (write_back fr, ret_slot fr)) r"
    using assms(6) by (auto simp: call_fn_def)
  have safe: "slots_safe (tr_imem tr)" using assms(2,5) by simp
  have z: "rsp_r (write_back fr) 0 = 0" if "frame_ok fr" for fr
    using write_back_r [OF that, of 0] by (simp add: getGPR_def)
  show ?thesis
    using run_blocks_right [OF assms(1) safe entry_right [OF assms(3-5)] r(1)] z r(2) by fastforce
qed

end
