(* ===== verification/Rsp_Ctx.thy ===== *)
theory Rsp_Ctx
  imports Rsp_Func
begin

text \<open>
  The table of call strings (\<open>pushCtx\<close>, \<open>popCtx\<close> of \<open>rspFunc.cc\<close>): its invariant, what pushing
  and popping do to it, and how large it can get.
\<close>

subsection \<open>The table of call strings\<close>

text \<open>
  Ids and strings are inverse to each other, no string is deeper than \<open>MAX_CALL_DEPTH\<close>, every
  string is in the table together with the string below its top, and links are addresses of
  words in an image.
\<close>

definition ctxs_ok :: "ctxs \<Rightarrow> bool" where
  "ctxs_ok c \<longleftrightarrow> contexts c \<noteq> [] \<and> contexts c ! 0 = [] \<and>
    (\<forall>cs \<in> set (contexts c). length cs \<le> MAX_CALL_DEPTH \<and> butlast cs \<in> set (contexts c) \<and> (\<forall>l \<in> set cs. pc_ok l)) \<and>
    (\<forall>cs i. contextIds c cs = Some i \<longleftrightarrow> i < length (contexts c) \<and> contexts c ! i = cs)"

definition grows :: "ctxs \<Rightarrow> ctxs \<Rightarrow> bool" where
  "grows c d \<longleftrightarrow> (\<exists>xs. contexts d = contexts c @ xs) \<and> contextIds c \<subseteq>\<^sub>m contextIds d"

lemma ctxs_ok_init: "ctxs_ok ctxs_init"
  by (auto simp: ctxs_ok_def ctxs_init_def)

lemma ctxs_okD:
  assumes "ctxs_ok c"
  shows "contextIds c cs = Some i \<longleftrightarrow> i < length (contexts c) \<and> contexts c ! i = cs" "0 < length (contexts c)" "contexts c ! 0 = []"
    "i < length (contexts c) \<Longrightarrow> length (contexts c ! i) \<le> MAX_CALL_DEPTH"
    "i < length (contexts c) \<Longrightarrow> butlast (contexts c ! i) \<in> set (contexts c)"
    "i < length (contexts c) \<Longrightarrow> l \<in> set (contexts c ! i) \<Longrightarrow> pc_ok l"
  using assms unfolding ctxs_ok_def by (auto simp del: not_None_eq)

lemma contexts_inj: "ctxs_ok c \<Longrightarrow> i < length (contexts c) \<Longrightarrow> j < length (contexts c) \<Longrightarrow> contexts c ! i = contexts c ! j \<Longrightarrow> i = j"
  by (metis ctxs_okD(1) option.inject)

lemma contexts_distinct: "ctxs_ok c \<Longrightarrow> distinct (contexts c)"
  by (auto simp: distinct_conv_nth dest: contexts_inj)

lemma grows_refl [simp, intro]: "grows c c"
  by (simp add: grows_def)

lemma grows_trans [trans]: "grows c d \<Longrightarrow> grows d e \<Longrightarrow> grows c e"
  by (auto simp: grows_def intro: map_le_trans)

lemma growsD:
  assumes "grows c d"
  shows "i < length (contexts c) \<Longrightarrow> i < length (contexts d)" "i < length (contexts c) \<Longrightarrow> contexts d ! i = contexts c ! i"
    "contextIds c cs = Some i \<Longrightarrow> contextIds d cs = Some i"
proof -
  obtain xs where "contexts d = contexts c @ xs" "contextIds c \<subseteq>\<^sub>m contextIds d"
    using assms by (auto simp: grows_def)
  then show "i < length (contexts c) \<Longrightarrow> i < length (contexts d)" "i < length (contexts c) \<Longrightarrow> contexts d ! i = contexts c ! i"
    "contextIds c cs = Some i \<Longrightarrow> contextIds d cs = Some i"
    by (simp_all add: nth_append) (metis domI map_le_def)
qed

lemma ids_of: "ctxs_ok c \<Longrightarrow> i < length (contexts c) \<Longrightarrow> contextIds c (contexts c ! i) = Some i"
  by (simp add: ctxs_okD(1))

lemma popCtx_ok:
  assumes "ctxs_ok c" and "i < length (contexts c)"
  obtains up where "popCtx i c = Some up" "up < length (contexts c)" "contexts c ! up = butlast (contexts c ! i)"
proof -
  obtain up where "up < length (contexts c)" "contexts c ! up = butlast (contexts c ! i)"
    using ctxs_okD(5) [OF assms] by (auto simp: in_set_conv_nth)
  then show ?thesis using ids_of [OF assms(1), of up] that by (simp add: popCtx_def)
qed

lemma popCtx_grows: "grows c d \<Longrightarrow> i < length (contexts c) \<Longrightarrow> popCtx i c = Some up \<Longrightarrow> popCtx i d = Some up"
  by (simp add: popCtx_def growsD)

text \<open>The cases of \<open>pushCtx\<close>.\<close>

lemma pushCtx_cases:
  assumes "pushCtx i link c = (j, d)"
  obtains (deep) "MAX_CALL_DEPTH \<le> length (contexts c ! i)" "j = 0" "d = c"
  | (known) "length (contexts c ! i) < MAX_CALL_DEPTH" "contextIds c (contexts c ! i @ [link]) = Some j" "d = c"
  | (new) "length (contexts c ! i) < MAX_CALL_DEPTH" "contextIds c (contexts c ! i @ [link]) = None" "j = length (contexts c)"
      "d = c\<lparr>contexts := contexts c @ [contexts c ! i @ [link]], contextIds := (contextIds c)(contexts c ! i @ [link] \<mapsto> j)\<rparr>"
  using assms by (auto simp: pushCtx_def Let_def split: if_splits option.splits)

lemma pushCtx_grows: "pushCtx i link c = (j, d) \<Longrightarrow> grows c d"
  by (erule pushCtx_cases) (auto simp: grows_def map_le_def)

lemma pushCtx_ok:
  assumes "pushCtx i link c = (j, d)" and "ctxs_ok c" and "i < length (contexts c)" and "pc_ok link"
  shows "ctxs_ok d" and "j < length (contexts d)"
proof -
  have "ctxs_ok d \<and> j < length (contexts d)"
    using assms(1)
  proof (cases rule: pushCtx_cases)
    case deep
    then show ?thesis using assms(2) ctxs_okD(2) by simp
  next
    case known
    then show ?thesis using assms(2) ctxs_okD(1) by simp
  next
    case new
    have fresh: "contexts c ! k \<noteq> contexts c ! i @ [link]" if "k < length (contexts c)" for k
      using new(2) ids_of [OF assms(2) that] by auto
    have "contextIds d cs = Some k \<longleftrightarrow> k < length (contexts d) \<and> contexts d ! k = cs" for cs k
      using fresh [of k] ctxs_okD(1) [OF assms(2), of cs k] new(2) unfolding new(3,4)
      by (auto simp: nth_append less_Suc_eq)
    moreover have "contexts d \<noteq> [] \<and> contexts d ! 0 = []"
      using ctxs_okD(2,3) [OF assms(2)] unfolding new(3,4) by (simp add: nth_append)
    moreover have "length cs \<le> MAX_CALL_DEPTH \<and> butlast cs \<in> set (contexts d) \<and> (\<forall>l \<in> set cs. pc_ok l)" if "cs \<in> set (contexts d)" for cs
    proof -
      have "cs \<in> set (contexts c) \<or> cs = contexts c ! i @ [link]" using that unfolding new(4) by auto
      then show ?thesis
      proof
        assume "cs \<in> set (contexts c)"
        then show ?thesis using assms(2) unfolding new(4) by (auto simp: ctxs_ok_def)
      next
        assume "cs = contexts c ! i @ [link]"
        then show ?thesis using new(1) assms(3,4) ctxs_okD(6) [OF assms(2,3)] unfolding new(4) by auto
      qed
    qed
    ultimately show ?thesis unfolding ctxs_ok_def [of d] by (simp add: new(3,4))
  qed
  then show "ctxs_ok d" and "j < length (contexts d)" by simp_all
qed

lemma pushCtx_stable:
  assumes "pushCtx i link c = (j, d)" and "ctxs_ok c" and "i < length (contexts c)" and "pc_ok link" and "grows d e"
  shows "pushCtx i link e = (j, e)"
proof -
  have i: "contexts e ! i = contexts c ! i"
    using growsD(2) [OF grows_trans [OF pushCtx_grows [OF assms(1)] assms(5)] assms(3)] .
  show ?thesis
    using assms(1)
  proof (cases rule: pushCtx_cases)
    case deep
    then show ?thesis by (simp add: pushCtx_def i)
  next
    case known
    then show ?thesis using growsD(3) [OF assms(5)] by (simp add: pushCtx_def i Let_def)
  next
    case new
    then have "contextIds e (contexts c ! i @ [link]) = Some j"
      using growsD(3) [OF assms(5), of "contexts c ! i @ [link]" j] by simp
    then show ?thesis using new(1) by (simp add: pushCtx_def i Let_def)
  qed
qed

lemma pushCtx_popCtx:
  assumes "pushCtx i link c = (j, d)" and "ctxs_ok c" and "i < length (contexts c)" and "length (contexts c ! i) < MAX_CALL_DEPTH"
  shows "contexts d ! j = contexts c ! i @ [link]" and "popCtx j d = Some i"
proof -
  show s: "contexts d ! j = contexts c ! i @ [link]"
    using assms(1)
  proof (cases rule: pushCtx_cases)
    case known
    then show ?thesis using ctxs_okD(1) [OF assms(2)] by simp
  qed (use assms(4) in simp_all)
  have "contextIds d (contexts c ! i) = Some i"
    using growsD(3) [OF pushCtx_grows [OF assms(1)]] ids_of [OF assms(2,3)] by simp
  then show "popCtx j d = Some i" by (simp add: popCtx_def s)
qed

text \<open>The strings that fit, of which there are finitely many.\<close>

definition call_strings :: "u32 list set" where
  "call_strings = {cs. set cs \<subseteq> UNIV \<and> length cs \<le> MAX_CALL_DEPTH}"

lemma finite_call_strings: "finite call_strings"
  unfolding call_strings_def by (rule finite_lists_length_le) simp

lemma contexts_bounded:
  assumes "ctxs_ok c"
  shows "length (contexts c) \<le> card call_strings"
proof -
  have "set (contexts c) \<subseteq> call_strings"
    using assms by (auto simp: ctxs_ok_def call_strings_def)
  then have "card (set (contexts c)) \<le> card call_strings"
    by (rule card_mono [OF finite_call_strings])
  then show ?thesis by (simp only: distinct_card [OF contexts_distinct [OF assms]])
qed

text \<open>
  C17: The table of call strings stays well formed under every push: ids and strings stay inverse to
  each other, no string gets longer than \<open>MAX_CALL_DEPTH\<close>, every string's caller is in the
  table, the id handed out is valid and no id that was handed out before changes its meaning.
\<close>

theorem call_string_table_ok:
  assumes "ctxs_ok c" and "i < length (contexts c)" and "pc_ok link" and "pushCtx i link c = (j, d)"
  shows "ctxs_ok d \<and> j < length (contexts d) \<and> grows c d \<and> length (contexts d) \<le> card call_strings"
  using pushCtx_ok [OF assms(4,1-3)] pushCtx_grows [OF assms(4)] contexts_bounded by blast

text \<open>
  C18: A call that fits into the bounded call string is undone by its return: popping the callee's
  context gives the caller's, and the address on top of the string is the link, in the table
  the call left and in every table that grew from it.
\<close>

theorem call_returns_to_caller:
  assumes "ctxs_ok c" and "i < length (contexts c)" and "length (contexts c ! i) < MAX_CALL_DEPTH"
    and "pc_ok link" and "pushCtx i link c = (j, d)" and "grows d e"
  shows "popCtx j e = Some i \<and> last (contexts e ! j) = link"
proof -
  have j: "j < length (contexts d)" by (rule pushCtx_ok [OF assms(5,1,2,4)])
  note p = pushCtx_popCtx [OF assms(5,1,2,3)]
  show ?thesis
    using popCtx_grows [OF assms(6) j p(2)] growsD(2) [OF assms(6) j] p(1) by simp
qed

text \<open>A call from context 0 with its link at \<open>0x40\<close>.\<close>

lemma first_call: "pushCtx 0 0x40 ctxs_init = (1, \<lparr>contexts = [[], [0x40]], contextIds = [[] \<mapsto> 0, [0x40] \<mapsto> 1]\<rparr>)"
  by (simp add: pushCtx_def ctxs_init_def MAX_CALL_DEPTH_def Let_def)

lemma first_context: "0 < length (contexts ctxs_init)" "length (contexts ctxs_init ! 0) < MAX_CALL_DEPTH" "pc_ok 0x40"
  by (simp_all add: ctxs_init_def MAX_CALL_DEPTH_def pc_ok_def)

theorem call_string_table_ok_witness:
  "ctxs_ok \<lparr>contexts = [[], [0x40]], contextIds = [[] \<mapsto> 0, [0x40] \<mapsto> 1]\<rparr>"
  using call_string_table_ok [OF ctxs_ok_init first_context(1,3) first_call] by blast

theorem call_returns_to_caller_witness:
  "popCtx 1 \<lparr>contexts = [[], [0x40]], contextIds = [[] \<mapsto> 0, [0x40] \<mapsto> 1]\<rparr> = Some 0"
  using call_returns_to_caller [OF ctxs_ok_init first_context first_call grows_refl] by simp

end
