(* ===== verification/Rsp_Walk.thy ===== *)
theory Rsp_Walk
  imports Rsp_Bt Rsp_Ctx
begin

text \<open>
  The static walk of \<open>rspbt::impl::compile\<close>: it ends, and every branch of the code generated
  from it has a block to go to.
\<close>

subsection \<open>Successors\<close>

text \<open>
  Where a control instruction at \<open>a\<close> in context \<open>cx\<close> may go is in \<open>K\<close>, and the table of call
  strings \<open>c\<close> knows every context that takes.
\<close>

definition succs_in :: "blockKey set \<Rightarrow> rsp_insn \<Rightarrow> u32 \<Rightarrow> u32 \<Rightarrow> nat \<Rightarrow> ctxs \<Rightarrow> bool" where
  "succs_in K i inst a cx c \<longleftrightarrow>
    (\<forall>t \<in> set (staticTargets i inst a).
       if isCall i then snd (pushCtx cx (ntAddr a) c) = c \<and> (t, fst (pushCtx cx (ntAddr a) c)) \<in> K else (t, cx) \<in> K) \<and>
    (fallsThrough i \<longrightarrow> (ntAddr a, cx) \<in> K) \<and>
    (isIndirect i \<and> cx \<noteq> 0 \<longrightarrow> (\<exists>up. popCtx cx c = Some up \<and> (last (contexts c ! cx), up) \<in> K))"

lemma succs_in_mono: "succs_in K i inst a cx c \<Longrightarrow> K \<subseteq> K' \<Longrightarrow> succs_in K' i inst a cx c"
  by (fastforce simp: succs_in_def)

lemma pc_ok_targets' [simp]: "pc_ok (tAddr inst a)" "pc_ok (ntAddr a)" "pc_ok (jAddr inst)"
  by (simp_all add: tAddr_def ntAddr_def jAddr_def)

lemma staticTargets_ok: "t \<in> set (staticTargets i inst a) \<Longrightarrow> pc_ok t"
  by (cases i) auto

lemma succs_in_grows:
  assumes "succs_in K i inst a cx c" and "grows c d" and "ctxs_ok c" and "cx < length (contexts c)"
  shows "succs_in K i inst a cx d"
proof -
  have p: "pushCtx cx (ntAddr a) d = (fst (pushCtx cx (ntAddr a) c), d)" if "snd (pushCtx cx (ntAddr a) c) = c"
  proof -
    have "pushCtx cx (ntAddr a) c = (fst (pushCtx cx (ntAddr a) c), c)"
      using that by (cases "pushCtx cx (ntAddr a) c") simp
    from pushCtx_stable [OF this assms(3,4) pc_ok_targets'(2) assms(2)] show ?thesis .
  qed
  have top: "contexts d ! cx = contexts c ! cx" by (rule growsD(2) [OF assms(2,4)])
  have up: "popCtx cx d = Some u" if "popCtx cx c = Some u" for u
    by (rule popCtx_grows [OF assms(2,4) that])
  have call: "if isCall i then snd (pushCtx cx (ntAddr a) d) = d \<and> (t, fst (pushCtx cx (ntAddr a) d)) \<in> K else (t, cx) \<in> K"
    if "if isCall i then snd (pushCtx cx (ntAddr a) c) = c \<and> (t, fst (pushCtx cx (ntAddr a) c)) \<in> K else (t, cx) \<in> K" for t
  proof (cases "isCall i")
    case True
    then have "snd (pushCtx cx (ntAddr a) c) = c" "(t, fst (pushCtx cx (ntAddr a) c)) \<in> K" using that by simp_all
    then show ?thesis by (simp only: True if_True p prod.sel simp_thms)
  qed (use that in simp)
  show ?thesis
    using assms(1) call up unfolding succs_in_def top by meson
qed

lemma static_succs_right:
  assumes "static_succs i inst a cx c = (ks, d)" and "ctxs_ok c" and "cx < length (contexts c)"
  shows "ctxs_ok d \<and> grows c d \<and> (\<forall>(b, cy) \<in> set ks. pc_ok b \<and> cy < length (contexts d)) \<and>
    (\<forall>t \<in> set (staticTargets i inst a).
       if isCall i then snd (pushCtx cx (ntAddr a) d) = d \<and> (t, fst (pushCtx cx (ntAddr a) d)) \<in> set ks else (t, cx) \<in> set ks)"
proof (cases "i = Insn_jal")
  case True
  obtain j e where p: "pushCtx cx (ntAddr a) c = (j, e)" by (cases "pushCtx cx (ntAddr a) c")
  have ok: "ctxs_ok e" "j < length (contexts e)" using pushCtx_ok [OF p assms(2,3)] by simp_all
  have st: "pushCtx cx (ntAddr a) e = (j, e)" using pushCtx_stable [OF p assms(2,3)] by simp
  have "ks = [(jAddr inst, j)]" "d = e"
    using assms(1) by (simp_all add: static_succs_def True isCall_def p)
  then show ?thesis using ok st pushCtx_grows [OF p] by (simp add: True isCall_def)
next
  case False
  then have "ks = map (\<lambda>t. (t, cx)) (staticTargets i inst a)" "d = c"
    using assms(1) by (cases i; simp add: static_succs_def isCall_def)+
  then show ?thesis using False assms(2,3) staticTargets_ok [of _ i inst a] by (auto simp: isCall_def)
qed

lemma succs_right:
  assumes "ctxs_ok c" and "cx < length (contexts c)"
  obtains ks d where "succs i inst a cx c = Some (ks, d)" "ctxs_ok d" "grows c d"
    "\<forall>(b, cy) \<in> set ks. pc_ok b \<and> cy < length (contexts d)" "succs_in (set ks) i inst a cx d"
proof -
  obtain ks d where s: "static_succs i inst a cx c = (ks, d)" by (cases "static_succs i inst a cx c")
  note r = static_succs_right [OF s assms]
  have cx: "cx < length (contexts d)" using growsD(1) assms(2) r by blast
  let ?ks = "if fallsThrough i then ks @ [(ntAddr a, cx)] else ks"
  show thesis
  proof (cases "isIndirect i \<and> cx \<noteq> 0")
    case True
    obtain up where up: "popCtx cx d = Some up" "up < length (contexts d)" "contexts d ! up = butlast (contexts d ! cx)"
      using popCtx_ok [of d cx] r cx by blast
    have "contexts d ! cx \<noteq> []"
      using True contexts_inj [of d cx 0] cx r ctxs_okD(2,3) [of d] by metis
    then have "pc_ok (last (contexts d ! cx))"
      using ctxs_okD(6) [of d cx] r cx by simp
    then show thesis
      using that [of "?ks @ [(last (contexts d ! cx), up)]" d] r up cx True
      by (fastforce simp: succs_def s Let_def succs_in_def split: if_splits)
  next
    case False
    then show thesis
      using that [of ?ks d] r cx by (fastforce simp: succs_def s Let_def succs_in_def split: if_splits)
  qed
qed


subsection \<open>The state of the walk\<close>

definition explored :: "(nat \<Rightarrow> u8) \<Rightarrow> blockKey set \<Rightarrow> walk \<Rightarrow> u32 \<Rightarrow> nat \<Rightarrow> bool" where
  "explored imem pend st a cx \<longleftrightarrow>
    (\<forall>i. translatable imem a \<longrightarrow> insn_at imem a = Some i \<longrightarrow> \<not> isBreak i \<longrightarrow>
       (if isControl i then succs_in (leaders st) i (bt_fetch imem a) a cx (w_ctxs st) \<and> (makesLinkRoot i \<longrightarrow> ntAddr a \<in> w_roots st)
        else (next_addr a, cx) \<in> walked st \<union> pend))"

definition key_ok :: "walk \<Rightarrow> blockKey \<Rightarrow> bool" where
  "key_ok st = (\<lambda>(a, cx). pc_ok a \<and> cx < length (contexts (w_ctxs st)))"

text \<open>
  Every leader waits in \<open>work\<close> or has been walked, up to the keys in \<open>pend\<close>, and whatever has
  been walked leads to leaders and walked code only.
\<close>

definition walk_ok :: "(nat \<Rightarrow> u8) \<Rightarrow> blockKey set \<Rightarrow> walk \<Rightarrow> bool" where
  "walk_ok imem pend st \<longleftrightarrow> ctxs_ok (w_ctxs st) \<and> (\<forall>r \<in> w_roots st. pc_ok r) \<and>
    (\<forall>k \<in> leaders st \<union> walked st \<union> pend. key_ok st k) \<and> set (work st) \<subseteq> leaders st \<and>
    leaders st \<subseteq> set (work st) \<union> walked st \<union> pend \<and> (\<forall>(a, cx) \<in> walked st. explored imem pend st a cx)"

text \<open>What a walk only adds to, and when it asks for another round.\<close>

definition extends :: "walk \<Rightarrow> walk \<Rightarrow> bool" where
  "extends st st' \<longleftrightarrow> leaders st \<subseteq> leaders st' \<and> walked st \<subseteq> walked st' \<and> w_roots st \<subseteq> w_roots st' \<and>
    grows (w_ctxs st) (w_ctxs st') \<and> (roots_changed st' \<longleftrightarrow> roots_changed st \<or> w_roots st' \<noteq> w_roots st)"

lemma extends_refl [simp]: "extends st st"
  by (simp add: extends_def)

lemma extends_trans: "extends st st' \<Longrightarrow> extends st' st'' \<Longrightarrow> extends st st''"
  unfolding extends_def by (auto intro: grows_trans)

lemma key_ok_extends: "extends st st' \<Longrightarrow> key_ok st k \<Longrightarrow> key_ok st' k"
  by (auto simp: extends_def key_ok_def dest: growsD(1))

lemma explored_extends:
  assumes "explored imem pend st a cx" and "extends st st'" and "ctxs_ok (w_ctxs st)" and "key_ok st (a, cx)"
    and "pend \<subseteq> walked st' \<union> pend'"
  shows "explored imem pend' st' a cx"
proof -
  have "succs_in (leaders st') i inst a cx (w_ctxs st')" if "succs_in (leaders st) i inst a cx (w_ctxs st)" for i inst
    using succs_in_mono [OF succs_in_grows [OF that, of "w_ctxs st'"]] assms(2-4) by (simp add: extends_def key_ok_def)
  then show ?thesis
    using assms(1,2,5) unfolding explored_def extends_def by (smt (verit) Un_iff subset_iff)
qed

subsection \<open>Pushing leaders\<close>

text \<open>The keys there can be, and how many of them the walk may still push.\<close>

definition all_keys :: "blockKey set" where
  "all_keys = UNIV \<times> {..<card call_strings}"

definition todo :: "walk \<Rightarrow> nat" where
  "todo st = 2 * card (all_keys - leaders st) + length (work st)"

lemma finite_all_keys: "finite (all_keys - K)"
  by (simp add: all_keys_def)

lemma push_leader_simps:
  "leaders (push_leader k st) = insert k (leaders st)" "walked (push_leader k st) = walked st" "w_roots (push_leader k st) = w_roots st"
  "w_ctxs (push_leader k st) = w_ctxs st" "roots_changed (push_leader k st) = roots_changed st"
  "set (work (push_leader k st)) \<union> leaders st = insert k (set (work st)) \<union> leaders st"
  "set (work st) \<subseteq> set (work (push_leader k st))" "set (work (push_leader k st)) \<subseteq> insert k (set (work st))"
  by (auto simp: push_leader_def)

lemma todo_insert: "2 * card (all_keys - insert k (leaders st)) + length (work st) \<le> todo st"
  unfolding todo_def by (intro add_right_mono mult_le_mono2 card_mono finite_all_keys) auto

lemma todo_push: "k \<in> all_keys \<Longrightarrow> todo (push_leader k st) \<le> todo st"
proof -
  assume k: "k \<in> all_keys"
  have "card (all_keys - insert k (leaders st)) < card (all_keys - leaders st)" if "k \<notin> leaders st"
    using k that by (intro psubset_card_mono finite_all_keys) auto
  then show ?thesis by (auto simp: push_leader_def todo_def)
qed

lemma push_all:
  "leaders (fold push_leader ks st) = set ks \<union> leaders st" "walked (fold push_leader ks st) = walked st"
  "w_roots (fold push_leader ks st) = w_roots st" "w_ctxs (fold push_leader ks st) = w_ctxs st"
  "roots_changed (fold push_leader ks st) = roots_changed st"
  "set (work st) \<subseteq> set (work (fold push_leader ks st))"
  "set (work (fold push_leader ks st)) \<subseteq> set (work st) \<union> set ks"
  "set ks \<subseteq> set (work (fold push_leader ks st)) \<union> leaders st"
  "set ks \<subseteq> all_keys \<Longrightarrow> todo (fold push_leader ks st) \<le> todo st"
proof (induction ks arbitrary: st)
  case (Cons k ks)
  note p = push_leader_simps [where k = k]
  {
    case 1 then show ?case by (auto simp: Cons(1) p(1))
  next
    case 2 then show ?case by (simp add: Cons(2) p(2))
  next
    case 3 then show ?case by (simp add: Cons(3) p(3))
  next
    case 4 then show ?case by (simp add: Cons(4) p(4))
  next
    case 5 then show ?case by (simp add: Cons(5) p(5))
  next
    case 6 then show ?case using Cons(6) [where st = "push_leader k st"] p(7) [of st] by auto
  next
    case 7 then show ?case using Cons(7) [where st = "push_leader k st"] p(8) [of st] by auto
  next
    case 8 then show ?case using Cons(6,8) [where st = "push_leader k st"] p(1,6) [of st] by auto
  next
    case 9 then show ?case using Cons(9) [where st = "push_leader k st"] todo_push [where k = k and st = st] by auto
  }
qed simp_all

lemma push_all_ok:
  assumes "walk_ok imem pend st" and "\<forall>k \<in> set ks. key_ok st k"
  shows "walk_ok imem pend (fold push_leader ks st)" "extends st (fold push_leader ks st)" "todo (fold push_leader ks st) \<le> todo st"
proof -
  let ?st = "fold push_leader ks st"
  note w = assms(1) [unfolded walk_ok_def]
  show e: "extends st ?st" by (auto simp: extends_def push_all(1-5))
  have "\<forall>(a, cx) \<in> walked ?st. explored imem pend ?st a cx"
    using w e explored_extends [of imem pend st _ _ ?st pend] by (fastforce simp: push_all(2))
  moreover have "\<forall>k \<in> leaders ?st \<union> walked ?st \<union> pend. key_ok ?st k"
    using w assms(2) key_ok_extends [OF e] by (auto simp: push_all(1,2))
  ultimately show "walk_ok imem pend ?st"
    using w push_all(6-8) [where st = st and ks = ks] unfolding walk_ok_def by (auto simp: push_all(1-4))
  have "cx < card call_strings" if "(b, cx) \<in> set ks" for b cx
    using assms(2) that contexts_bounded [of "w_ctxs st"] w by (fastforce simp: key_ok_def)
  then have "set ks \<subseteq> all_keys" by (auto simp: all_keys_def)
  then show "todo ?st \<le> todo st" by (rule push_all(9))
qed


subsection \<open>One line\<close>

lemma extends_todo: "leaders st' = insert k (leaders st) \<Longrightarrow> work st' = work st \<Longrightarrow> todo st' \<le> todo st"
  using todo_insert [of k st] by (simp add: todo_def)

text \<open>Rewalking the invariant when keys are added, the pending ones may change.\<close>

lemma walk_ok_step:
  assumes "walk_ok imem pend st" and "extends st st'" and "ctxs_ok (w_ctxs st')" and "\<forall>r \<in> w_roots st'. pc_ok r"
    and "\<forall>k \<in> (leaders st' - leaders st) \<union> (walked st' - walked st) \<union> pend'. key_ok st' k"
    and "pend \<subseteq> walked st' \<union> pend'" and "set (work st') = set (work st)" and "leaders st' - leaders st \<subseteq> set (work st) \<union> walked st' \<union> pend'"
    and "\<And>a cx. (a, cx) \<in> walked st' - walked st \<Longrightarrow> explored imem pend' st' a cx"
  shows "walk_ok imem pend' st'"
proof -
  note w = assms(1) [unfolded walk_ok_def]
  have e: "leaders st \<subseteq> leaders st'" "walked st \<subseteq> walked st'" using assms(2) by (auto simp: extends_def)
  have "explored imem pend' st' a cx" if "(a, cx) \<in> walked st'" for a cx
  proof (cases "(a, cx) \<in> walked st")
    case True
    then have "explored imem pend st a cx" "key_ok st (a, cx)" "ctxs_ok (w_ctxs st)" using w by auto
    then show ?thesis using explored_extends [OF _ assms(2) _ _ assms(6)] by blast
  qed (use that assms(9) in simp)
  moreover have "\<forall>k \<in> leaders st' \<union> walked st' \<union> pend'. key_ok st' k"
    using w assms(5) key_ok_extends [OF assms(2)] by blast
  moreover have "set (work st') \<subseteq> leaders st'" "leaders st' \<subseteq> set (work st') \<union> walked st' \<union> pend'"
    using w e assms(6,7,8) by blast+
  ultimately show ?thesis using assms(3,4) unfolding walk_ok_def by auto
qed

definition walked_on :: "(nat \<Rightarrow> u8) \<Rightarrow> walk \<Rightarrow> walk option \<Rightarrow> bool" where
  "walked_on imem st res \<longleftrightarrow> (\<exists>st'. res = Some st' \<and> walk_ok imem {} st' \<and> extends st st' \<and> todo st' \<le> todo st)"

lemma walk_control_right:
  assumes "walk_ok imem {(a, cx)} st" and "(a, cx) \<notin> walked st" and "translatable imem a"
    and "insn_at imem a = Some i" and "isControl i"
  shows "walked_on imem st (walk_control imem i a cx (st\<lparr>walked := insert (a, cx) (walked st)\<rparr>))"
proof -
  note w = assms(1) [unfolded walk_ok_def]
  have cx: "cx < length (contexts (w_ctxs st))" "pc_ok a" using w by (simp_all add: key_ok_def)
  obtain ks d where s: "succs i (bt_fetch imem a) a cx (w_ctxs st) = Some (ks, d)" "ctxs_ok d" "grows (w_ctxs st) d"
    "\<forall>(b, cy) \<in> set ks. pc_ok b \<and> cy < length (contexts d)" "succs_in (set ks) i (bt_fetch imem a) a cx d"
    using succs_right [of "w_ctxs st" cx i "bt_fetch imem a" a] w cx by blast
  let ?new = "makesLinkRoot i \<and> ntAddr a \<notin> w_roots st"
  define v where "v = (let st = st\<lparr>walked := insert (a, cx) (walked st), w_ctxs := d\<rparr>
     in if ?new then st\<lparr>w_roots := insert (ntAddr a) (w_roots st), roots_changed := True\<rparr> else st)"
  have res: "walk_control imem i a cx (st\<lparr>walked := insert (a, cx) (walked st)\<rparr>) = Some (fold push_leader ks v)"
    by (simp add: walk_control_def s(1) v_def Let_def)
  have v_def: "walked v = insert (a, cx) (walked st)" "w_ctxs v = d" "leaders v = leaders st" "work v = work st"
    "w_roots v = (if ?new then insert (ntAddr a) (w_roots st) else w_roots st)" "roots_changed v = (roots_changed st \<or> ?new)"
    by (auto simp: v_def Let_def)
  have ev: "extends st v" using s(3) by (auto simp: extends_def v_def)
  let ?st = "fold push_leader ks v"
  have e: "extends st ?st"
    by (rule extends_trans [OF ev]) (auto simp: extends_def push_all(1-5))
  have roots: "w_roots st \<subseteq> w_roots ?st" "makesLinkRoot i \<longrightarrow> ntAddr a \<in> w_roots ?st" "\<forall>r \<in> w_roots ?st. pc_ok r"
    using w by (auto simp: push_all(3) v_def)
  have keys: "key_ok ?st k" if "k \<in> set ks \<or> k = (a, cx)" for k
    using that s(4) cx growsD(1) [OF s(3)] by (auto simp: key_ok_def push_all(4) v_def)
  have new: "explored imem {} ?st a cx"
    using succs_in_mono [OF s(5)] roots(2) assms(4,5) by (simp add: explored_def push_all(1,4)) (simp add: v_def)
  have "explored imem {} ?st b cy" if "(b, cy) \<in> walked st" for b cy
  proof -
    have "explored imem {(a, cx)} st b cy" "key_ok st (b, cy)" "ctxs_ok (w_ctxs st)" using that w by auto
    then show ?thesis
      by (rule_tac explored_extends [OF _ e]) (auto simp: push_all(2) v_def)
  qed
  then have "\<forall>(b, cy) \<in> walked ?st. explored imem {} ?st b cy"
    using new by (auto simp: push_all(2) v_def)
  moreover have "\<forall>k \<in> leaders ?st \<union> walked ?st. key_ok ?st k"
    using w keys key_ok_extends [OF e] by (auto simp: push_all(1,2) v_def)
  moreover have "set (work ?st) \<subseteq> leaders ?st" "leaders ?st \<subseteq> set (work ?st) \<union> walked ?st"
    using w push_all(6-8) [where st = v and ks = ks] by (auto simp: push_all(1,2) v_def)
  ultimately have ok: "walk_ok imem {} ?st"
    using s(2) roots(3) unfolding walk_ok_def by (simp add: push_all(4)) (simp add: v_def)
  have "cy < card call_strings" if "(b, cy) \<in> set ks" for b cy
    using s(4) that contexts_bounded [OF s(2)] by fastforce
  then have "todo ?st \<le> todo v" by (intro push_all(9)) (auto simp: all_keys_def)
  also have "todo v = todo st" by (simp add: todo_def v_def)
  finally show ?thesis using ok e by (simp add: walked_on_def res)
qed

lemma walk_line_right: "walk_ok imem {(a, cx)} st \<Longrightarrow> walked_on imem st (walk_line imem a cx st)"
proof (induction imem a cx st rule: walk_line.induct)
  case (1 imem a cx st)
  note w = 1(2) [unfolded walk_ok_def]
  let ?w = "st\<lparr>walked := insert (a, cx) (walked st)\<rparr>"
  have e: "extends st ?w" by (auto simp: extends_def)
  have t: "todo ?w = todo st" by (simp add: todo_def)
  have stop: "walk_ok imem {} ?w" if "explored imem {} ?w a cx"
    using w that by (intro walk_ok_step [OF 1(2) e]) (auto simp: key_ok_def)
  show ?case
  proof (cases "(a, cx) \<in> walked st")
    case True
    let ?st = "st\<lparr>leaders := insert (a, cx) (leaders st)\<rparr>"
    have "extends st ?st" by (auto simp: extends_def)
    moreover from this have "walk_ok imem {} ?st"
      using w True by (intro walk_ok_step [OF 1(2)]) (auto simp: key_ok_def)
    ultimately show ?thesis
      using True extends_todo [of ?st "(a, cx)" st] by (simp add: walk_line.simps [of imem a cx st] walked_on_def)
  next
    case new: False
    show ?thesis
    proof (cases "\<not> translatable imem a \<or> insn_at imem a = None \<or> isBreak (the (insn_at imem a))")
      case True
      then have "walk_line imem a cx st = Some ?w"
        using new by (auto simp: walk_line.simps [of imem a cx st] Let_def split: option.splits)
      moreover have "explored imem {} ?w a cx" using True by (auto simp: explored_def)
      ultimately show ?thesis using stop e t by (simp add: walked_on_def)
    next
      case False
      then obtain i where i: "translatable imem a" "insn_at imem a = Some i" "\<not> isBreak i" by auto
      show ?thesis
      proof (cases "isControl i")
        case True
        then have "walk_line imem a cx st = walk_control imem i a cx ?w"
          using new i by (simp add: walk_line.simps [of imem a cx st])
        then show ?thesis using walk_control_right [OF 1(2) new i(1,2) True] by simp
      next
        case plain: False
        have "explored imem {(next_addr a, cx)} ?w a cx" using i plain by (simp add: explored_def)
        then have "walk_ok imem {(next_addr a, cx)} ?w"
          using w by (intro walk_ok_step [OF 1(2) e]) (auto simp: key_ok_def next_addr_def)
        from 1(1) [OF new refl _ i(2,3) plain this] i(1) have "walked_on imem ?w (walk_line imem (next_addr a) cx ?w)" by simp
        then show ?thesis
          using new i plain extends_trans [OF e] t by (auto simp: walk_line.simps [of imem a cx st] walked_on_def)
      qed
    qed
  qed
qed


subsection \<open>The whole walk\<close>

lemma pc_okD: "pc_ok a \<Longrightarrow> a AND 0xffc = a"
  by (simp add: pc_ok_def)

lemma walk_work_right:
  "walk_ok imem {} st \<Longrightarrow> \<exists>st'. walk_work imem st = Some st' \<and> walk_ok imem {} st' \<and> extends st st' \<and> work st' = []"
proof (induction "todo st" arbitrary: st rule: less_induct)
  case less
  note w = less(2) [unfolded walk_ok_def]
  show ?case
  proof (cases "work st")
    case Nil
    then show ?thesis using less(2) by (simp add: walk_work.simps [of imem st])
  next
    case (Cons k rest)
    obtain a cx where k: "k = (a, cx)" by (cases k)
    let ?st = "st\<lparr>work := rest\<rparr>"
    have in_work: "set (work st) = insert (a, cx) (set rest)" by (simp add: Cons k)
    have e: "extends st ?st" by (simp add: extends_def)
    have "explored imem {(a, cx)} ?st b cy" if "(b, cy) \<in> walked st" for b cy
    proof -
      have "explored imem {} st b cy" "ctxs_ok (w_ctxs st)" "key_ok st (b, cy)" using that w by blast+
      from explored_extends [OF this(1) e this(2,3)] show ?thesis by simp
    qed
    moreover have "key_ok ?st = key_ok st" by (simp add: key_ok_def fun_eq_iff)
    ultimately have "walk_ok imem {(a, cx)} ?st"
      using w unfolding walk_ok_def in_work by auto
    from walk_line_right [OF this] obtain u where u: "walk_line imem a cx ?st = Some u" "walk_ok imem {} u" "extends ?st u" "todo u \<le> todo ?st"
      unfolding walked_on_def by blast
    have "todo ?st < todo st" by (simp add: todo_def Cons)
    then obtain st' where st': "walk_work imem u = Some st'" "walk_ok imem {} st'" "extends u st'" "work st' = []"
      using less(1) [of u] u(2,4) by auto
    have "a AND 0xffc = a" using w in_work by (intro pc_okD) (auto simp: key_ok_def)
    then have "walk_work imem st = Some st'"
      using u(1) st'(1) by (simp add: walk_work.simps [of imem st] Cons k)
    moreover have "extends st st'" using u(3) st'(3) by (auto simp: extends_def intro: grows_trans)
    ultimately show ?thesis using st'(2,4) by blast
  qed
qed

lemma push_roots_eq: "push_roots st = fold push_leader (map (\<lambda>r. (r, 0)) (sorted_list_of_set (w_roots st))) st"
  by (simp add: push_roots_def fold_map comp_def)

lemma push_roots_right:
  assumes "walk_ok imem {} st"
  shows "walk_ok imem {} (push_roots st)" "extends st (push_roots st)" "w_roots (push_roots st) = w_roots st"
    "\<forall>r \<in> w_roots st. (r, 0) \<in> leaders (push_roots st)" "roots_changed (push_roots st) = roots_changed st"
proof -
  have k: "\<forall>k \<in> set (map (\<lambda>r. (r, 0)) (sorted_list_of_set (w_roots st))). key_ok st k"
    using assms ctxs_okD(2) [of "w_ctxs st"] by (auto simp: walk_ok_def key_ok_def)
  show "walk_ok imem {} (push_roots st)" "extends st (push_roots st)"
    unfolding push_roots_eq by (rule push_all_ok [OF assms k])+
  show "w_roots (push_roots st) = w_roots st" "\<forall>r \<in> w_roots st. (r, 0) \<in> leaders (push_roots st)"
    "roots_changed (push_roots st) = roots_changed st"
    unfolding push_roots_eq push_all by auto
qed

lemma walk_roots_right:
  "walk_ok imem {} st \<Longrightarrow> (\<not> roots_changed st \<Longrightarrow> work st = [] \<and> (\<forall>r \<in> w_roots st. (r, 0) \<in> leaders st)) \<Longrightarrow>
    \<exists>st'. walk_roots imem st = Some st' \<and> walk_ok imem {} st' \<and> work st' = [] \<and> w_roots st \<subseteq> w_roots st' \<and>
      (\<forall>r \<in> w_roots st'. (r, 0) \<in> leaders st')"
proof (induction "card (UNIV - w_roots st)" arbitrary: st rule: less_induct)
  case less
  show ?case
  proof (cases "roots_changed st")
    case False
    then show ?thesis using less(2,3) by (simp add: walk_roots.simps [of imem st])
  next
    case True
    let ?st = "st\<lparr>roots_changed := False\<rparr>"
    have "explored imem {} ?st = explored imem {} st" "key_ok ?st = key_ok st"
      by (simp_all add: explored_def key_ok_def fun_eq_iff)
    then have ok: "walk_ok imem {} ?st" using less(2) by (simp add: walk_ok_def)
    note p = push_roots_right [OF ok]
    obtain u where u: "walk_work imem (push_roots ?st) = Some u" "walk_ok imem {} u" "extends (push_roots ?st) u" "work u = []"
      using walk_work_right [OF p(1)] by blast
    have roots: "w_roots st \<subseteq> w_roots u" "roots_changed u \<longleftrightarrow> w_roots u \<noteq> w_roots st"
      "\<forall>r \<in> w_roots st. (r, 0) \<in> leaders u"
      using u(3) p(3-5) by (auto simp: extends_def)
    have step: "walk_roots imem st = walk_roots imem u"
      using True u(1) by (simp add: walk_roots.simps [of imem st])
    show ?thesis
    proof (cases "roots_changed u")
      case False
      then show ?thesis
        using u(2,4) roots unfolding step by (simp add: walk_roots.simps [of imem u])
    next
      case changed: True
      then have "card (UNIV - w_roots u) < card (UNIV - w_roots st)"
        using roots by (intro psubset_card_mono) auto
      from less(1) [OF this u(2)] changed roots(1) show ?thesis unfolding step by auto
    qed
  qed
qed

text \<open>
  Where a translation may go: every branch out of a block, fall-throughs and returns included,
  is to a leader, and the table of call strings is as large as code generation needs it.  \<open>W\<close> are
  the keys the blocks consist of.
\<close>

definition lines :: "translation \<Rightarrow> blockKey set \<Rightarrow> bool" where
  "lines tr W \<longleftrightarrow> ctxs_ok (tr_ctxs tr) \<and> (\<forall>r \<in> set (tr_roots tr). (r, 0) \<in> tr_leaders tr) \<and> tr_leaders tr \<subseteq> W \<and>
    (\<forall>a cx i. (a, cx) \<in> W \<longrightarrow> pc_ok a \<and> cx < length (contexts (tr_ctxs tr)) \<and>
      (translatable (tr_imem tr) a \<longrightarrow> insn_at (tr_imem tr) a = Some i \<longrightarrow> \<not> isBreak i \<longrightarrow>
        (if isControl i then succs_in (tr_leaders tr) i (bt_fetch (tr_imem tr) a) a cx (tr_ctxs tr) else (next_addr a, cx) \<in> W)))"

definition code_closed :: "translation \<Rightarrow> bool" where
  "code_closed tr \<longleftrightarrow> (\<exists>W. lines tr W)"

lemma compile_right:
  assumes "\<forall>r \<in> roots. pc_ok r"
  obtains tr where "compile imem roots = Some tr" "code_closed tr" "tr_imem tr = imem"
    "\<forall>r \<in> roots. translatable imem r \<longrightarrow> r \<in> set (tr_roots tr)" "\<forall>r \<in> set (tr_roots tr). pc_ok r \<and> translatable imem r"
proof -
  have "walk_ok imem {} (walk_init roots)"
    using assms by (auto simp: walk_ok_def walk_init_def ctxs_ok_init)
  then obtain st where st: "walk_roots imem (walk_init roots) = Some st" "walk_ok imem {} st" "work st = []"
    "w_roots (walk_init roots) \<subseteq> w_roots st" "\<forall>r \<in> w_roots st. (r, 0) \<in> leaders st"
    using walk_roots_right [of imem "walk_init roots"] by (auto simp: walk_init_def)
  let ?tr = "\<lparr>tr_imem = imem, tr_leaders = leaders st,
    tr_roots = sorted_list_of_set (Set.filter (translatable imem) (w_roots st)), tr_ctxs = w_ctxs st\<rparr>"
  have roots: "set (tr_roots ?tr) = {r \<in> w_roots st. translatable imem r}"
    by simp
  have c: "code_closed ?tr"
    unfolding code_closed_def lines_def roots
    using st(2,3,5) by (intro exI [of _ "walked st"]) (auto simp: walk_ok_def key_ok_def explored_def)
  have r: "compile imem roots = Some ?tr" by (simp add: compile_def st(1))
  have k: "\<forall>r \<in> roots. translatable imem r \<longrightarrow> r \<in> set (tr_roots ?tr)"
    using st(4) unfolding roots by (auto simp: walk_init_def)
  have o: "\<forall>r \<in> set (tr_roots ?tr). pc_ok r \<and> translatable imem r"
    using st(2) unfolding roots by (auto simp: walk_ok_def)
  show ?thesis by (rule that [OF r c _ k o]) simp
qed

text \<open>
  C5: Translating an image always gets through its static walk, whatever its 1024 words are: the
  walk ends, no context is popped that the table lacks, and the result is closed under control
  flow.  The roots kept are code, and no root that is code is lost.
\<close>

theorem compile_ends_closed:
  assumes "\<forall>r \<in> roots. pc_ok r"
  shows "\<exists>tr. compile imem roots = Some tr \<and> tr_imem tr = imem \<and> code_closed tr \<and>
    (\<forall>r \<in> roots. translatable imem r \<longrightarrow> r \<in> set (tr_roots tr)) \<and>
    (\<forall>r \<in> set (tr_roots tr). pc_ok r \<and> translatable imem r)"
  using compile_right [OF assms, of imem] by metis

theorem compile_ends_closed_witness:
  "\<exists>tr. compile (\<lambda>_. 0) {0} = Some tr \<and> 0 \<in> set (tr_roots tr)"
proof -
  have "translatable (\<lambda>_. 0) 0"
    by (simp add: translatable_def insn_at_def bt_fetch_def decode_def decode_special_def f_op_def f_fn_def)
  moreover have "\<forall>r \<in> {0}. pc_ok r" by (simp add: pc_ok_def)
  ultimately show ?thesis using compile_ends_closed [of "{0}" "\<lambda>_. 0"] by auto
qed

end
