(* ===== verification/Rsp_Bt_Total.thy ===== *)
theory Rsp_Bt_Total
  imports Rsp_Bt_Sound Rsp_Walk
begin

text \<open>
  Translated code gets to an end: emitting a block does, its branches have a block to go to, and
  running an image stops when the interpreter does.
\<close>

subsection \<open>Branches go to leaders\<close>

lemma gen_plain_no_branch: "\<not> isControl i \<Longrightarrow> gen_plain L i inst addr fr \<noteq> Branches k fr'"
  by (cases i) (auto simp: gen_mfc0_def gen_mtc0_def exitToInterp_def exitHalted_def Let_def split: sum.splits)

lemma and_then_branches: "and_then out f = Branches k fr \<Longrightarrow> out \<noteq> Branches k fr \<Longrightarrow> \<exists>fr'. f fr' = Branches k fr"
  by (cases out) (auto simp: and_then_def)

lemma indirectJump_leads:
  assumes "succs_in K i inst a cx c" and "isIndirect i" and "\<forall>r \<in> set roots. (r, 0) \<in> K" and "indirectJump roots c cx target fr = Branches k fr'"
  shows "k \<in> K"
  using assms by (auto simp: indirectJump_def succs_in_def exitToInterp_def Let_def split: if_splits option.splits)

lemma gen_control_leads:
  assumes "succs_in K i inst a cx c" and "isControl i" and "\<forall>r \<in> set roots. (r, 0) \<in> K"
    and "gen_control L roots c cx i inst a delay fr = Branches k fr'" and "\<And>fr k fr'. delay fr \<noteq> Branches k fr'"
  shows "k \<in> K"
proof (cases "isIndirect i")
  case True
  then obtain target fr2 where "indirectJump roots c cx target fr2 = Branches k fr'"
    using assms(4) by (auto simp: isIndirect_def Let_def dest!: and_then_branches [OF _ assms(5)])
  then show ?thesis by (rule indirectJump_leads [OF assms(1) True assms(3)])
next
  case False
  consider (branch) b where "i = Branch b" | (j) "i = Insn_j" | (jal) "i = Insn_jal"
    using assms(2) False by (cases i) (simp_all add: isIndirect_def)
  then show ?thesis
  proof cases
    case branch
    then have "k = (tAddr inst a, cx) \<or> k = (ntAddr a, cx)"
      using assms(4) and_then_branches [OF _ assms(5)] by (simp add: Let_def) fastforce
    then show ?thesis using assms(1) by (auto simp: branch succs_in_def isCall_def fallsThrough_def)
  next
    case j
    then have "k = (jAddr inst, cx)"
      using assms(4) and_then_branches [OF _ assms(5)] by simp fastforce
    then show ?thesis using assms(1) by (simp add: j succs_in_def isCall_def)
  next
    case jal
    then have "k = (jAddr inst, fst (pushCtx cx (ntAddr a) c))"
      using assms(4) and_then_branches [OF _ assms(5)] by (simp add: Let_def) fastforce
    then show ?thesis using assms(1) by (simp add: jal succs_in_def isCall_def)
  qed
qed

lemma slot_code_no_branch: "translatable imem a \<Longrightarrow> insn_at imem a = Some i \<Longrightarrow> isControl i \<Longrightarrow> slot_code L imem a fr \<noteq> Branches k fr'"
  using gen_plain_no_branch by (auto simp: translatable_def slot_code_def split: option.splits)

subsection \<open>Emitting a block ends\<close>

lemma isBreak_leaves: "isBreak i \<Longrightarrow> gen_plain L i inst a fr = exitHalted fr"
  by (simp add: isBreak_def)

lemma gen_block_leads:
  assumes "lines tr W"
  shows "(a, cx) \<in> W \<Longrightarrow> gen_block L tr cx n a fr = Some (Branches k fr') \<Longrightarrow> k \<in> tr_leaders tr"
proof (induction n arbitrary: a fr)
  case (Suc n)
  let ?imem = "tr_imem tr"
  have trans: "translatable ?imem a"
    using Suc.prems(2) by (auto simp: exitToInterp_def split: if_splits)
  then obtain i where i: "insn_at ?imem a = Some i" by (auto simp: translatable_def split: option.splits)
  note w = assms [unfolded lines_def]
  show ?case
  proof (cases "isControl i")
    case True
    then have "\<not> isBreak i" by (auto simp: isBreak_def)
    then have "if isControl i then succs_in (tr_leaders tr) i (bt_fetch ?imem a) a cx (tr_ctxs tr) else (next_addr a, cx) \<in> W"
      using w Suc.prems(1) trans i by blast
    then have "succs_in (tr_leaders tr) i (bt_fetch ?imem a) a cx (tr_ctxs tr)" using True by simp
    moreover have "gen_control L (tr_roots tr) (tr_ctxs tr) cx i (bt_fetch ?imem a) a (slot_code L ?imem a) fr = Branches k fr'"
      using Suc.prems(2) trans i True by simp
    moreover have "\<forall>r \<in> set (tr_roots tr). (r, 0) \<in> tr_leaders tr" using w by blast
    ultimately show ?thesis using gen_control_leads [OF _ True] slot_code_no_branch [OF trans i True] by metis
  next
    case False
    then obtain fr2 where fr2: "gen_plain L i (bt_fetch ?imem a) a fr = Falls fr2"
      using Suc.prems(2) trans i gen_plain_no_branch [OF False] by (auto split: outcome.splits)
    then have "\<not> isBreak i" by (auto simp: isBreak_leaves exitHalted_def)
    then have "if isControl i then succs_in (tr_leaders tr) i (bt_fetch ?imem a) a cx (tr_ctxs tr) else (next_addr a, cx) \<in> W"
      using w Suc.prems(1) trans i by blast
    then have "(next_addr a, cx) \<in> W" using False by simp
    then show ?thesis
      using Suc.IH [of "next_addr a" fr2] Suc.prems(2) trans i False fr2 by (auto split: if_splits)
  qed
qed simp

lemma gen_block_None:
  "gen_block L tr cx n a fr = None \<Longrightarrow> 1 \<le> j \<Longrightarrow> j \<le> n \<Longrightarrow> ((next_addr ^^ j) a, cx) \<notin> tr_leaders tr"
proof (induction n arbitrary: a fr j)
  case (Suc n)
  then obtain fr2 where on: "(next_addr a, cx) \<notin> tr_leaders tr" "gen_block L tr cx n (next_addr a) fr2 = None"
    by (auto split: if_splits option.splits outcome.splits)
  obtain j' where j': "j = Suc j'" using Suc.prems(2) by (cases j) auto
  show ?case
  proof (cases j')
    case 0
    then show ?thesis using on(1) by (simp add: j')
  next
    case (Suc j'')
    then show ?thesis using Suc.IH [OF on(2), of j'] Suc.prems(3) by (simp add: j' funpow_swap1)
  qed
qed simp

lemma next_addr_funpow: "pc_ok a \<Longrightarrow> (next_addr ^^ j) a = (a + 4 * of_nat j) AND 0xffc"
proof (induction j)
  case 0
  then show ?case by (simp add: pc_ok_def)
next
  case (Suc j)
  have "(((a + 4 * of_nat j) AND 0xffc) + push_bit 2 1) AND 0xffc = ((a + 4 * of_nat j) + push_bit 2 1) AND 0xffc"
    by (rule masked_add)
  then show ?case using Suc by (simp add: next_addr_def algebra_simps)
qed

lemma next_addr_round: "pc_ok a \<Longrightarrow> (next_addr ^^ 1024) a = a"
proof -
  assume a: "pc_ok a"
  have "(0x1000 :: u32) = push_bit 2 0x400" by simp
  have t: "take_bit 10 (x + 0x400) = take_bit 10 x" for x :: u32
    by (simp add: word_uint_eq_iff unsigned_take_bit_eq uint_word_ariths) (simp add: take_bit_eq_mod mod_mod_cancel)
  have "(a + 0x1000) AND 0xffc = ((a + push_bit 2 0x400) AND 0xffc)" by simp
  also have "\<dots> = a AND 0xffc"
    unfolding and_0xffc [of "_ + _"] drop_add and_0xffc [of a]
    by (simp only: t)
  finally have "(a + 0x1000) AND 0xffc = a AND 0xffc" .
  then show "(next_addr ^^ 1024) a = a" using a by (simp add: next_addr_funpow [OF a] pc_ok_def)
qed

lemma block_total:
  assumes "code_closed tr" and "(a, cx) \<in> tr_leaders tr"
  obtains out where "block_code L tr (a, cx) fr = Some out" "\<forall>k fr'. out = Branches k fr' \<longrightarrow> k \<in> tr_leaders tr"
proof -
  obtain W where W: "lines tr W" using assms(1) unfolding code_closed_def by blast
  then have key: "(a, cx) \<in> W" "pc_ok a" using assms(2) unfolding lines_def by blast+
  have "block_code L tr (a, cx) fr \<noteq> None"
    using gen_block_None [of L tr cx 1024 a fr 1024] assms(2) by (auto simp: block_code_def next_addr_round [OF key(2)])
  then obtain out where "block_code L tr (a, cx) fr = Some out" by blast
  then show ?thesis
    using that gen_block_leads [OF W key(1)] unfolding block_code_def prod.case by metis
qed


subsection \<open>Running an image ends when the interpreter ends\<close>

text \<open>The interpreter gets to its end, a halted machine or an error, in at most \<open>n\<close> turns.\<close>

definition ends_in :: "nat \<Rightarrow> rsp_t \<Rightarrow> u32 \<Rightarrow> bool" where
  "ends_in n s a \<longleftrightarrow> (\<exists>m \<le> n. \<exists>t q r. turns m s a (next_addr a) t q r \<and> (halted t \<or> (\<exists>d. turn t q r = Inl d)))"

lemma ends_in_after:
  assumes "ends_in n s a" and "turns m s a (next_addr a) t b (next_addr b)"
  shows "m \<le> n" and "ends_in (n - m) t b"
proof -
  obtain k u q r where k: "k \<le> n" "turns k s a (next_addr a) u q r" "halted u \<or> (\<exists>d. turn u q r = Inl d)"
    using assms(1) unfolding ends_in_def by blast
  have mk: "m \<le> k"
  proof (rule ccontr)
    assume "\<not> m \<le> k"
    then obtain j where "m = k + Suc j" by (metis less_natE add_Suc_right not_le)
    then have "turns (Suc j) u q r t b (next_addr b)"
      using turns_split [OF k(2) assms(2)] by simp
    then show False using no_more_turns k(3) by blast
  qed
  then show "m \<le> n" using k(1) by simp
  have "turns (k - m) t b (next_addr b) u q r" by (rule turns_split [OF assms(2) k(2) mk])
  then show "ends_in (n - m) t b" unfolding ends_in_def using k(1,3) by (meson diff_le_mono)
qed

lemma run_blocks_total:
  assumes "llvm_doc L" and "slots_safe (tr_imem tr)" and "code_closed tr"
  shows "code_right (tr_imem tr) j s a out \<Longrightarrow> ends_in n s a \<Longrightarrow> n - j < fuel \<Longrightarrow>
    (\<And>k fr. out = Branches k fr \<Longrightarrow> k \<in> tr_leaders tr) \<Longrightarrow> \<exists>res. run_blocks L tr fuel out = Some res"
proof (induction fuel arbitrary: j n s a out)
  case (Suc fuel)
  show ?case
  proof (cases out)
    case (Branches k fr)
    obtain b cx where k: "k = (b, cx)" by (cases k)
    obtain m where m: "good_frame (tr_imem tr) fr" "pc_ok b" "j \<le> m" "turns m s a (next_addr a) (write_back fr) b (next_addr b)"
      using Suc.prems(1) unfolding Branches k code_right.simps by blast
    have key: "(b, cx) \<in> tr_leaders tr" using Suc.prems(4) by (simp add: Branches k)
    obtain out' where o: "block_code L tr (b, cx) fr = Some out'" "\<forall>k fr'. out' = Branches k fr' \<longrightarrow> k \<in> tr_leaders tr"
      by (rule block_total [OF assms(3) key, of L fr])
    have right: "code_right (tr_imem tr) 1 (write_back fr) b out'"
      using gen_block_right [OF assms(1,2) m(1,2)] o(1) by (simp add: block_code_def)
    have e: "ends_in (n - m) (write_back fr) b" by (rule ends_in_after [OF Suc.prems(2) m(4)])
    show ?thesis
    proof (cases "\<exists>k' fr'. out' = Branches k' fr'")
      case True
      then obtain b' cx' fr' where o': "out' = Branches (b', cx') fr'" by auto
      then obtain l where "1 \<le> l" "turns l (write_back fr) b (next_addr b) (write_back fr') b' (next_addr b')"
        using right by auto
      then have "1 \<le> n - m" using ends_in_after(1) [OF e] by force
      then have "n - m - 1 < fuel" using Suc.prems(3) m(3) by linarith
      from Suc.IH [OF right e this] o(2) have "\<exists>res. run_blocks L tr fuel out' = Some res" by blast
      then show ?thesis using key o(1) by (simp add: Branches k)
    next
      case False
      then have "\<exists>res. run_blocks L tr fuel out' = Some res" using right by (cases out') auto
      then show ?thesis using key o(1) by (simp add: Branches k)
    qed
  qed (use Suc.prems in auto)
qed simp

lemma call_fn_total:
  assumes "llvm_doc L" and "slots_safe (imem_of c)" and "rsp_r c 0 = 0" and "\<not> halted c" and "tr_imem tr = imem_of c"
    and "code_closed tr" and "ends_in n c (pc AND 0xffc)" and "n < fuel"
  shows "\<exists>res. call_fn L tr fuel c pc junk = Some res"
proof -
  let ?out = "indirectJump (tr_roots tr) (tr_ctxs tr) 0 (pc AND 0xffc) (load_frame c junk)"
  have "k \<in> tr_leaders tr" if "?out = Branches k fr" for k fr
    using that assms(6) by (auto simp: indirectJump_def exitToInterp_def code_closed_def lines_def split: if_splits)
  moreover have "slots_safe (tr_imem tr)" using assms(2,5) by simp
  moreover have "n - 0 < fuel" using assms(8) by simp
  ultimately show ?thesis
    using run_blocks_total [OF assms(1) _ assms(6) entry_right [OF assms(3-5)] assms(7)] by (auto simp: call_fn_def)
qed

subsection \<open>The properties of translated code\<close>

text \<open>
  C16: Emitting the block of any leader ends within the 1024 instructions of an image, and when the
  block's code branches it is to a leader again: there is no branch to a block without code.
\<close>

theorem blocks_end_at_leaders:
  assumes "code_closed tr" and "k \<in> tr_leaders tr"
  shows "\<exists>out. block_code L tr k fr = Some out \<and> (\<forall>k' fr'. out = Branches k' fr' \<longrightarrow> k' \<in> tr_leaders tr)"
proof (cases k)
  case (Pair a cx)
  show ?thesis using block_total [of tr a cx L fr] assms unfolding Pair by metis
qed

text \<open>
  C2: Whatever an image's function returns is where the interpreter gets to from the same machine:
  with the machine it left, about to execute the address returned, or halted; and it ends the
  process only when the interpreter does.
\<close>

theorem translated_code_is_sound:
  assumes "llvm_doc L" and "slots_safe (imem_of c)" and "rsp_r c 0 = 0" and "\<not> halted c" and "tr_imem tr = imem_of c"
    and "call_fn L tr fuel c pc junk = Some res"
  shows "case res of Inl d \<Rightarrow> dies_right c (pc AND 0xffc) d | Inr (t, next) \<Rightarrow> comes_back c (pc AND 0xffc) t next"
  using call_fn_right [OF assms] by auto

text \<open>
  C3: Translated code does not run on where the interpreter stops: when the interpreter ends after
  \<open>n\<close> turns, the function of a compiled image returns having run at most \<open>n + 1\<close> blocks.
\<close>

theorem translated_code_keeps_pace:
  assumes "llvm_doc L" and "slots_safe (imem_of c)" and "rsp_r c 0 = 0" and "\<not> halted c"
    and "compile (imem_of c) roots = Some tr" and "\<forall>r \<in> roots. pc_ok r" and "ends_in n c (pc AND 0xffc)" and "n < fuel"
  shows "call_fn L tr fuel c pc junk \<noteq> None"
proof -
  obtain tr' where "compile (imem_of c) roots = Some tr'" "code_closed tr'" "tr_imem tr' = imem_of c"
    by (rule compile_right [OF assms(6)])
  then have "code_closed tr" "tr_imem tr = imem_of c" using assms(5) by simp_all
  then show ?thesis using call_fn_total [OF assms(1-4) _ _ assms(7,8)] by simp
qed

subsection \<open>A machine about to execute \<open>break\<close>\<close>

definition breaking :: rsp_t where
  "breaking = break_machine\<lparr>halted := False\<rparr>"

lemma break_image: "insn_at (imem_of break_machine) a = Some (if a AND 0xffc = 0 then Insn_break else Shift Insn_sll)"
proof -
  have "unat (a AND 0xffc) mod 4 = 0"
  proof -
    have "take_bit 2 (a AND 0xffc) = 0" by (simp add: take_bit_eq_mask mask_eq_exp_minus_1 and.assoc)
    then have "take_bit 2 (unat (a AND 0xffc)) = 0" by (simp flip: unsigned_take_bit_eq)
    then show ?thesis by (simp add: take_bit_eq_mod)
  qed
  then have o: "unat (a AND 0xffc) \<noteq> 3" "unat (a AND 0xffc) + 1 \<noteq> 3" "unat (a AND 0xffc) + 2 \<noteq> 3"
    by presburger+
  have byte: "imem_of break_machine i = (if i = 3 then 0x0d else 0)" for i
    by (simp add: imem_of_def break_machine_def)
  have w: "bt_fetch (imem_of break_machine) a = (if unat (a AND 0xffc) + 3 = 3 then 0x0d else 0)"
    by (simp only: bt_fetch_def Let_def byte o if_False) simp
  have z: "unat (a AND 0xffc) + 3 = 3 \<longleftrightarrow> a AND 0xffc = 0"
    by (simp add: unat_eq_0)
  have d: "decode 0x0d = Some Insn_break" "decode 0 = Some (Shift Insn_sll)"
    by (simp_all add: decode_def decode_special_def f_op_def f_fn_def)
  show ?thesis unfolding insn_at_def w z by (simp add: d)
qed

lemma breaking_simps: "rsp_r breaking 0 = 0" "\<not> halted breaking" "imem_of breaking = imem_of break_machine"
  "n_insns break_machine = 0"
  by (simp_all add: breaking_def break_machine_def rsp_init_def imem_of_def cong: if_cong)

lemma breaking_safe: "slots_safe (imem_of breaking)"
  by (simp add: slots_safe_def break_image breaking_simps)

lemma breaking_turn: "turn breaking 0 4 = Inr ((set_r break_machine 0 0)\<lparr>halted := True\<rparr>, 8)"
  by (simp add: breaking_def turn_def fetch_at_def break_machine_def exec_def exec_special_def f_op_def f_fn_def rsp_init_def pc_after_def set_r_def)

lemma breaking_turns:
  assumes "turns n breaking (0 AND 0xffc) (next_addr (0 AND 0xffc)) t q r"
  shows "t = breaking \<or> t = (set_r break_machine 0 0)\<lparr>halted := True\<rparr>"
proof (cases n)
  case 0
  then show ?thesis using assms by auto
next
  case (Suc m)
  then have "turns m ((set_r break_machine 0 0)\<lparr>halted := True\<rparr>) 4 8 t q r"
    using assms breaking_turn by (auto simp: next_addr_def elim!: turns_SucE)
  then show ?thesis by (cases m) (auto elim: turns_SucE)
qed

lemma breaking_ends: "ends_in 1 breaking (0 AND 0xffc)"
proof -
  let ?t = "(set_r break_machine 0 0)\<lparr>halted := True\<rparr>"
  have "turns 1 breaking 0 4 ?t 4 8"
    by (rule turns_one [OF breaking_simps(2) breaking_turn])
  then have "turns 1 breaking (0 AND 0xffc) (next_addr (0 AND 0xffc)) ?t 4 8" by (simp add: next_addr_def)
  moreover have "halted ?t" by simp
  ultimately show ?thesis unfolding ends_in_def by blast
qed

lemma breaking_image:
  obtains tr where "compile (imem_of breaking) {0} = Some tr" "code_closed tr" "tr_imem tr = imem_of breaking" "0 \<in> set (tr_roots tr)"
proof -
  have "\<forall>r \<in> {0}. pc_ok r" by (simp add: pc_ok_def)
  moreover have "translatable (imem_of breaking) 0" by (simp add: translatable_def breaking_simps break_image)
  ultimately show ?thesis using that compile_right [of "{0}" "imem_of breaking"] by auto
qed

theorem blocks_end_at_leaders_witness:
  "\<exists>tr out. compile (imem_of breaking) {0} = Some tr \<and> block_code llvm_ref tr (0, 0) (load_frame breaking 0) = Some out"
proof -
  obtain tr where tr: "compile (imem_of breaking) {0} = Some tr" "code_closed tr" "0 \<in> set (tr_roots tr)"
    by (rule breaking_image)
  then have "(0, 0) \<in> tr_leaders tr" by (auto simp: code_closed_def lines_def)
  from blocks_end_at_leaders [OF tr(2) this] tr(1) show ?thesis by blast
qed

theorem translated_code_keeps_pace_witness:
  "\<exists>tr. compile (imem_of breaking) {0} = Some tr \<and> call_fn llvm_ref tr 2 breaking 0 0 \<noteq> None"
proof -
  obtain tr where tr: "compile (imem_of breaking) {0} = Some tr" by (rule breaking_image)
  have "\<forall>r \<in> {0}. pc_ok r" by (simp add: pc_ok_def)
  from translated_code_keeps_pace [OF llvm_ref_doc breaking_safe breaking_simps(1,2) tr this breaking_ends, of 2 0] tr
  show ?thesis by auto
qed

theorem translated_code_is_sound_witness:
  "\<exists>tr res. call_fn llvm_ref tr 2 breaking 0 0 = Some res \<and>
    (case res of Inl d \<Rightarrow> dies_right breaking (0 AND 0xffc) d | Inr (t, next) \<Rightarrow> comes_back breaking (0 AND 0xffc) t next)"
proof -
  obtain tr where tr: "tr_imem tr = imem_of breaking" "code_closed tr" by (rule breaking_image)
  obtain res where r: "call_fn llvm_ref tr 2 breaking 0 0 = Some res"
    using call_fn_total [OF llvm_ref_doc breaking_safe breaking_simps(1,2) tr breaking_ends, of 2] by auto
  from translated_code_is_sound [OF llvm_ref_doc breaking_safe breaking_simps(1,2) tr(1) r] r show ?thesis by blast
qed

end
