(* ===== verification/Rsp_Bt_Run.thy ===== *)
theory Rsp_Bt_Run
  imports Rsp_Bt_Total
begin

text \<open>
  \<open>rspbt::run\<close> and the translation cache: what they do, the invariant of the cache, and that a
  task ends as it does in the interpreter.
\<close>

subsection \<open>The cache\<close>

text \<open>
  \<open>image_t\<close> and the cache of \<open>rspbt::impl\<close>; \<open>last\<close> points to an entry of the cache, which is a
  \<open>std::map\<close> and does not move its entries, so it is the entry's key here.
\<close>

record image =
  img_fn :: "translation option"
  img_imem :: "nat \<Rightarrow> u8"
  img_roots :: "u32 set"
  stale :: bool
  generation :: u32

record bt =
  cache :: "u64 \<rightharpoonup> image"
  last_img :: "u64 option"
  n_compiles :: u64
  n_fallbacks :: u64
  n_overlay_swaps :: u64

definition image_new :: image where
  "image_new = \<lparr>img_fn = None, img_imem = (\<lambda>_. 0), img_roots = {}, stale = True, generation = 0\<rparr>"

definition bt_new :: bt where
  "bt_new = \<lparr>cache = Map.empty, last_img = None, n_compiles = 0, n_fallbacks = 0, n_overlay_swaps = 0\<rparr>"

text \<open>\<open>memcmp\<close> of two images\<close>

definition same_image :: "(nat \<Rightarrow> u8) \<Rightarrow> (nat \<Rightarrow> u8) \<Rightarrow> bool" where
  "same_image p q \<longleftrightarrow> list_all (\<lambda>i. p i = q i) [0..<0x1000]"

text \<open>The entry the hash of the image names; its copy of the image is overwritten.\<close>

definition look_up :: "(nat \<Rightarrow> u8) \<Rightarrow> bt \<Rightarrow> u64 \<times> image \<times> bt" where
  "look_up imem bt =
    (let k = fnv1a64 imem 0x1000;
         img = (case cache bt k of None \<Rightarrow> image_new | Some img \<Rightarrow> img)\<lparr>img_imem := imem\<rparr>
     in (k, img, bt\<lparr>last_img := Some k, cache := (cache bt)(k \<mapsto> img)\<rparr>))"

definition find_image :: "(nat \<Rightarrow> u8) \<Rightarrow> bt \<Rightarrow> u64 \<times> image \<times> bt" where
  "find_image imem bt =
    (case last_img bt of
       None \<Rightarrow> look_up imem bt
     | Some k \<Rightarrow>
         (case cache bt k of
            None \<Rightarrow> look_up imem bt
          | Some img \<Rightarrow> if same_image (img_imem img) imem then (k, img, bt) else look_up imem bt))"

definition add_root :: "u32 \<Rightarrow> image \<Rightarrow> image" where
  "add_root r img =
    (if r AND 0xffc \<in> img_roots img then img
     else img\<lparr>img_roots := insert (r AND 0xffc) (img_roots img), stale := True\<rparr>)"

definition recompile :: "(nat \<Rightarrow> u8) \<Rightarrow> image \<Rightarrow> image option" where
  "recompile imem img =
    map_option (\<lambda>tr. img\<lparr>img_fn := Some tr, img_roots := set (tr_roots tr), stale := False, generation := generation img + 1\<rparr>)
      (compile imem (img_roots img))"

definition put_image :: "u64 \<Rightarrow> image \<Rightarrow> bt \<Rightarrow> bt" where
  "put_image k img bt = bt\<lparr>cache := (cache bt)(k \<mapsto> img)\<rparr>"

text \<open>The image a round of \<open>run\<close> works with, translated for the roots it needs.\<close>

definition ready_image :: "(nat \<Rightarrow> u8) \<Rightarrow> u32 \<Rightarrow> u32 list \<Rightarrow> bt \<Rightarrow> (u64 \<times> image \<times> bt) option" where
  "ready_image imem cur hints bt =
    (let (k, img, bt) = find_image imem bt;
         img = fold add_root (cur # hints) img
     in if stale img then
          map_option (\<lambda>img. (k, img, put_image k img (bt\<lparr>n_compiles := n_compiles bt + 1\<rparr>))) (recompile imem img)
        else Some (k, img, put_image k img bt))"

subsection \<open>Running a task\<close>

datatype round = Task_done "rsp_err + rsp_t" | Task_goes_on rsp_t u32

text \<open>
  One round of the loop of \<open>rspbt::run\<close>.  \<open>None\<close>: translated code has not come back within
  \<open>fuel\<close> blocks.
\<close>

definition bt_round :: "llvm \<Rightarrow> u32 list \<Rightarrow> u32 \<Rightarrow> nat \<Rightarrow> bt \<Rightarrow> rsp_t \<Rightarrow> u32 \<Rightarrow> (round \<times> bt) option" where
  "bt_round L hints junk fuel bt c cur =
    (case ready_image (imem_of c) cur hints bt of
       None \<Rightarrow> None
     | Some (k, img, bt) \<Rightarrow>
         (case img_fn img of
            None \<Rightarrow> None
          | Some tr \<Rightarrow>
              (case call_fn L tr fuel c cur junk of
                 None \<Rightarrow> None
               | Some (Inl d) \<Rightarrow> Some (Task_done (Inl d), bt)
               | Some (Inr (c', next)) \<Rightarrow>
                   if next = 0xffffffff then Some (Task_done (Inr c'), bt)
                   else if imem_gen c' \<noteq> imem_gen c then
                     Some (Task_goes_on c' next, bt\<lparr>n_overlay_swaps := n_overlay_swaps bt + 1\<rparr>)
                   else
                     Some (Task_done (run c' next), put_image k (add_root next img) (bt\<lparr>n_fallbacks := n_fallbacks bt + 1\<rparr>)))))"

fun bt_rounds :: "llvm \<Rightarrow> u32 list \<Rightarrow> u32 \<Rightarrow> nat \<Rightarrow> nat \<Rightarrow> bt \<Rightarrow> rsp_t \<Rightarrow> u32 \<Rightarrow> ((rsp_err + rsp_t) \<times> bt) option" where
  "bt_rounds L hints junk fuel 0 bt c cur = None"
| "bt_rounds L hints junk fuel (Suc n) bt c cur =
    (case bt_round L hints junk fuel bt c cur of
       None \<Rightarrow> None
     | Some (Task_done res, bt) \<Rightarrow> Some (res, bt)
     | Some (Task_goes_on c next, bt) \<Rightarrow> bt_rounds L hints junk fuel n bt c next)"

definition rspbt_run :: "llvm \<Rightarrow> u32 list \<Rightarrow> u32 \<Rightarrow> nat \<Rightarrow> bt \<Rightarrow> rsp_t \<Rightarrow> u32 \<Rightarrow> ((rsp_err + rsp_t) \<times> bt) option" where
  "rspbt_run L hints junk fuel bt c pc = bt_rounds L hints junk fuel fuel bt (c\<lparr>halted := False\<rparr>) pc"

subsection \<open>The cache's invariant\<close>

text \<open>
  A translation that is not stale was made from the image in its entry, for its roots, all of
  which are translatable.
\<close>

definition image_ok :: "image \<Rightarrow> bool" where
  "image_ok img \<longleftrightarrow> (\<forall>i \<ge> 0x1000. img_imem img i = 0) \<and> (\<forall>r \<in> img_roots img. pc_ok r) \<and>
    (\<not> stale img \<longrightarrow> (\<forall>r \<in> img_roots img. translatable (img_imem img) r) \<and>
      (\<exists>tr. img_fn img = Some tr \<and> tr_imem tr = img_imem img \<and> code_closed tr \<and> set (tr_roots tr) = img_roots img))"

definition bt_ok :: "bt \<Rightarrow> bool" where
  "bt_ok bt \<longleftrightarrow> (\<forall>k img. cache bt k = Some img \<longrightarrow> image_ok img \<and> fnv1a64 (img_imem img) 0x1000 = k) \<and>
    (\<forall>k. last_img bt = Some k \<longrightarrow> k \<in> dom (cache bt))"

lemma bt_new_ok: "bt_ok bt_new"
  by (simp add: bt_ok_def bt_new_def)

definition no_collision :: "bt \<Rightarrow> (nat \<Rightarrow> u8) \<Rightarrow> bool" where
  "no_collision bt imem \<longleftrightarrow> (\<forall>img. cache bt (fnv1a64 imem 0x1000) = Some img \<longrightarrow> img_imem img = imem)"

lemma same_image_eq:
  assumes "\<forall>i \<ge> 0x1000. p i = 0" and "\<forall>i \<ge> 0x1000. q i = 0"
  shows "same_image p q \<longleftrightarrow> p = q"
proof
  assume "same_image p q"
  then have "\<forall>i < 0x1000. p i = q i" unfolding same_image_def list_all_iff by (auto simp del: upt_rec_numeral)
  then show "p = q" using assms by (intro ext) (metis not_le)
qed (simp add: same_image_def list_all_iff)

lemma imem_of_zero: "\<forall>i \<ge> 0x1000. imem_of s i = 0"
  by (simp add: imem_of_def)

lemma bt_ok_put: "bt_ok bt \<Longrightarrow> image_ok img \<Longrightarrow> fnv1a64 (img_imem img) 0x1000 = k \<Longrightarrow> bt_ok (put_image k img bt)"
  by (auto simp: bt_ok_def put_image_def)

lemma bt_ok_counters [simp]:
  "bt_ok (bt\<lparr>n_compiles := x\<rparr>) = bt_ok bt" "bt_ok (bt\<lparr>n_fallbacks := y\<rparr>) = bt_ok bt" "bt_ok (bt\<lparr>n_overlay_swaps := z\<rparr>) = bt_ok bt"
  by (simp_all add: bt_ok_def)

lemma image_ok_new: "\<forall>i \<ge> 0x1000. imem i = 0 \<Longrightarrow> image_ok (image_new\<lparr>img_imem := imem\<rparr>)"
  by (simp add: image_ok_def image_new_def)

lemma look_up_right:
  assumes "bt_ok bt" and "no_collision bt imem" and "\<forall>i \<ge> 0x1000. imem i = 0" and "look_up imem bt = (k, img, bt')"
  shows "bt_ok bt'" "image_ok img" "img_imem img = imem" "k = fnv1a64 imem 0x1000" "cache bt' = (cache bt)(k \<mapsto> img)"
    "n_compiles bt' = n_compiles bt" "last_img bt' = Some k"
proof -
  let ?k = "fnv1a64 imem 0x1000"
  let ?img = "case cache bt ?k of None \<Rightarrow> image_new | Some img \<Rightarrow> img"
  have i: "image_ok (?img\<lparr>img_imem := imem\<rparr>)"
  proof (cases "cache bt ?k")
    case None
    then show ?thesis using image_ok_new [OF assms(3)] by simp
  next
    case (Some img)
    then have "img\<lparr>img_imem := imem\<rparr> = img" "image_ok img" using assms(1,2) by (auto simp: no_collision_def bt_ok_def)
    then show ?thesis using Some by simp
  qed
  have e: "k = ?k" "img = ?img\<lparr>img_imem := imem\<rparr>" "bt' = bt\<lparr>last_img := Some k, cache := (cache bt)(k \<mapsto> img)\<rparr>"
    using assms(4) by (auto simp: look_up_def Let_def)
  show "k = ?k" "cache bt' = (cache bt)(k \<mapsto> img)" "n_compiles bt' = n_compiles bt" "last_img bt' = Some k" by (simp_all add: e)
  show "image_ok img" "img_imem img = imem" using i by (simp_all add: e)
  then show "bt_ok bt'" using assms(1) unfolding e(3) bt_ok_def by (auto simp: e(1))
qed

lemma find_image_right:
  assumes "bt_ok bt" and "no_collision bt imem" and "\<forall>i \<ge> 0x1000. imem i = 0" and "find_image imem bt = (k, img, bt')"
  shows "bt_ok bt'" "image_ok img" "img_imem img = imem" "k = fnv1a64 imem 0x1000" "cache bt' = (cache bt)(k \<mapsto> img)"
    "n_compiles bt' = n_compiles bt" "last_img bt' = Some k"
proof -
  have "(bt_ok bt' \<and> image_ok img \<and> img_imem img = imem \<and> k = fnv1a64 imem 0x1000) \<and> cache bt' = (cache bt)(k \<mapsto> img) \<and>
    n_compiles bt' = n_compiles bt \<and> last_img bt' = Some k"
  proof (cases "find_image imem bt = look_up imem bt")
    case True
    then have "look_up imem bt = (k, img, bt')" using assms(4) by simp
    from look_up_right [OF assms(1-3) this] show ?thesis by simp
  next
    case False
    then obtain l old where l: "last_img bt = Some l" "cache bt l = Some old" "same_image (img_imem old) imem"
      by (auto simp: find_image_def split: option.splits if_splits)
    then have e: "(k, img, bt') = (l, old, bt)" using assms(4) by (simp add: find_image_def)
    have old: "image_ok old" "fnv1a64 (img_imem old) 0x1000 = l" using assms(1) l(2) by (auto simp: bt_ok_def)
    then have "img_imem old = imem"
      using l(3) same_image_eq [of "img_imem old" imem] assms(3) by (simp add: image_ok_def)
    moreover have "(cache bt)(l \<mapsto> old) = cache bt" using l(2) by (simp add: map_upd_triv)
    ultimately show ?thesis using e assms(1) l old by simp
  qed
  then show "bt_ok bt'" "image_ok img" "img_imem img = imem" "k = fnv1a64 imem 0x1000" "cache bt' = (cache bt)(k \<mapsto> img)"
    "n_compiles bt' = n_compiles bt" "last_img bt' = Some k"
    by blast+
qed

lemma add_root_right:
  "img_imem (add_root r img) = img_imem img" "img_fn (add_root r img) = img_fn img"
  "img_roots (add_root r img) = insert (r AND 0xffc) (img_roots img)"
  "stale (add_root r img) \<longleftrightarrow> stale img \<or> r AND 0xffc \<notin> img_roots img" "image_ok img \<Longrightarrow> image_ok (add_root r img)"
  by (auto simp: add_root_def image_ok_def)

lemma add_roots_right:
  "img_imem (fold add_root rs img) = img_imem img"
  "img_roots (fold add_root rs img) = (\<lambda>r. r AND 0xffc) ` set rs \<union> img_roots img"
  "stale (fold add_root rs img) \<longleftrightarrow> stale img \<or> \<not> (\<lambda>r. r AND 0xffc) ` set rs \<subseteq> img_roots img"
  "image_ok img \<Longrightarrow> image_ok (fold add_root rs img)"
proof (induction rs arbitrary: img)
  case (Cons r rs)
  {
    case 1 then show ?case by (simp add: Cons(1) add_root_right)
  next
    case 2 then show ?case by (auto simp add: Cons(2) add_root_right)
  next
    case 3 then show ?case by (auto simp add: Cons(3) add_root_right)
  next
    case 4 then show ?case using Cons(4) add_root_right(5) by simp
  }
qed simp_all

lemma recompile_right:
  assumes "image_ok img" and "img_imem img = imem"
  obtains img' where "recompile imem img = Some img'" "image_ok img'" "img_imem img' = imem" "\<not> stale img'"
    "\<forall>r \<in> img_roots img. translatable imem r \<longrightarrow> r \<in> img_roots img'"
proof -
  have roots: "\<forall>r \<in> img_roots img. pc_ok r" using assms(1) unfolding image_ok_def by blast
  obtain tr where tr: "compile imem (img_roots img) = Some tr" "code_closed tr" "tr_imem tr = imem"
    "\<forall>r \<in> img_roots img. translatable imem r \<longrightarrow> r \<in> set (tr_roots tr)"
    "\<forall>r \<in> set (tr_roots tr). pc_ok r \<and> translatable imem r"
    by (rule compile_right [OF roots])
  let ?img = "img\<lparr>img_fn := Some tr, img_roots := set (tr_roots tr), stale := False, generation := generation img + 1\<rparr>"
  have "recompile imem img = Some ?img" by (simp add: recompile_def tr(1))
  moreover have "image_ok ?img" using assms tr(2,3,5) unfolding image_ok_def by simp
  ultimately show ?thesis using that [of ?img] assms(2) tr(4) by simp
qed

lemma ready_image_right:
  assumes "bt_ok bt" and "no_collision bt imem" and "\<forall>i \<ge> 0x1000. imem i = 0"
  obtains k img tr bt' where "ready_image imem cur hints bt = Some (k, img, bt')" "bt_ok bt'" "cache bt' = (cache bt)(k \<mapsto> img)"
    "k = fnv1a64 imem 0x1000" "image_ok img" "img_imem img = imem" "\<not> stale img" "img_fn img = Some tr" "tr_imem tr = imem" "code_closed tr"
    "last_img bt' = Some k" "\<forall>r \<in> set (cur # hints). translatable imem (r AND 0xffc) \<longrightarrow> r AND 0xffc \<in> img_roots img"
    "(\<exists>r \<in> set (cur # hints). \<not> translatable imem (r AND 0xffc)) \<longrightarrow> n_compiles bt' = n_compiles bt + 1"
proof -
  obtain k old bt1 where f: "find_image imem bt = (k, old, bt1)" by (cases "find_image imem bt")
  note F = find_image_right [OF assms f]
  let ?img = "fold add_root (cur # hints) old"
  note R = add_roots_right [where rs = "cur # hints" and img = old]
  have img: "image_ok ?img" "img_imem ?img = imem" using R(1,4) F(2,3) by simp_all
  obtain new bt' where new: "ready_image imem cur hints bt = Some (k, new, bt')" "bt_ok bt'" "cache bt' = (cache bt)(k \<mapsto> new)"
    "image_ok new" "img_imem new = imem" "\<not> stale new" "last_img bt' = Some k"
    "\<forall>r \<in> set (cur # hints). translatable imem (r AND 0xffc) \<longrightarrow> r AND 0xffc \<in> img_roots new"
    "(\<exists>r \<in> set (cur # hints). \<not> translatable imem (r AND 0xffc)) \<longrightarrow> n_compiles bt' = n_compiles bt + 1"
  proof (cases "stale ?img")
    case True
    obtain new where n: "recompile imem ?img = Some new" "image_ok new" "img_imem new = imem" "\<not> stale new"
      "\<forall>r \<in> img_roots ?img. translatable imem r \<longrightarrow> r \<in> img_roots new"
      by (rule recompile_right [OF img])
    let ?bt = "put_image k new (bt1\<lparr>n_compiles := n_compiles bt1 + 1\<rparr>)"
    have "bt_ok ?bt" using F(1,4) n(2,3) by (intro bt_ok_put) simp_all
    moreover have "ready_image imem cur hints bt = Some (k, new, ?bt)"
      using True n(1) by (simp add: ready_image_def f Let_def)
    moreover have "cache ?bt = (cache bt)(k \<mapsto> new)" "last_img ?bt = Some k" "n_compiles ?bt = n_compiles bt + 1"
      by (simp_all add: put_image_def F(5-7))
    moreover have "\<forall>r \<in> set (cur # hints). translatable imem (r AND 0xffc) \<longrightarrow> r AND 0xffc \<in> img_roots new"
      using n(5) unfolding R(2) by blast
    ultimately show ?thesis using that n(2-4) by blast
  next
    case False
    let ?bt = "put_image k ?img bt1"
    have "bt_ok ?bt" using F(1,4) img by (intro bt_ok_put) simp_all
    moreover have "ready_image imem cur hints bt = Some (k, ?img, ?bt)"
      using False by (simp add: ready_image_def f Let_def)
    moreover have "cache ?bt = (cache bt)(k \<mapsto> ?img)" "last_img ?bt = Some k" by (simp_all add: put_image_def F(5,7))
    moreover have "\<forall>r \<in> set (cur # hints). r AND 0xffc \<in> img_roots ?img" unfolding R(2) by blast
    moreover have "\<forall>r \<in> set (cur # hints). translatable imem (r AND 0xffc)"
      using calculation(5) img(1) False unfolding image_ok_def img(2) by blast
    ultimately show ?thesis using that img False by blast
  qed
  then obtain tr where "img_fn new = Some tr" "tr_imem tr = imem" "code_closed tr" by (auto simp: image_ok_def)
  then show ?thesis using that new F(4) by blast
qed

subsection \<open>A task ends as in the interpreter\<close>

lemma dies_right_ended: "dies_right s a d \<Longrightarrow> turns n s a (next_addr a) t q r \<Longrightarrow> ended t q r \<Longrightarrow> \<not> halted t \<and> turn t q r = Inl d"
proof -
  assume "dies_right s a d" and n: "turns n s a (next_addr a) t q r" "ended t q r"
  then obtain m u p q' where u: "turns m s a (next_addr a) u p q'" "\<not> halted u" "turn u p q' = Inl d"
    unfolding dies_right_def by blast
  from ended_unique [OF n u(1)] u(2,3) show "\<not> halted t \<and> turn t q r = Inl d" by (auto simp: ended_def)
qed

lemma run_from: "\<not> halted c \<Longrightarrow> pc_ok p \<Longrightarrow> run c p = run_loop (at_pc p (n_insns c) c) (next_addr p)"
proof -
  assume "\<not> halted c" "pc_ok p"
  moreover from this have "c\<lparr>rsp_pc := p, halted := False\<rparr> = at_pc p (n_insns c) c" by (simp add: at_pc_def)
  ultimately show "run c p = run_loop (at_pc p (n_insns c) c) (next_addr p)"
    by (simp add: run_def pc_ok_def next_addr_def)
qed

lemma word_all_ones: "pc_ok p \<Longrightarrow> p \<noteq> 0xffffffff"
  by (auto simp: pc_ok_def)

text \<open>The images a task meets, all told apart by their hashes.\<close>

definition images_ok :: "(nat \<Rightarrow> u8) set \<Rightarrow> bt \<Rightarrow> rsp_t \<Rightarrow> u32 \<Rightarrow> bool" where
  "images_ok M bt c a \<longleftrightarrow> inj_on (\<lambda>m. fnv1a64 m 0x1000) M \<and> (\<forall>m \<in> M. slots_safe m) \<and>
    (\<forall>k img. cache bt k = Some img \<longrightarrow> img_imem img \<in> M) \<and> (\<forall>n t q r. turns n c a (next_addr a) t q r \<longrightarrow> imem_of t \<in> M)"

lemma images_okD:
  assumes "images_ok M bt c a" and "bt_ok bt"
  shows "imem_of c \<in> M" "slots_safe (imem_of c)" "no_collision bt (imem_of c)"
proof -
  show M: "imem_of c \<in> M" using assms(1) turns.none unfolding images_ok_def by blast
  then show "slots_safe (imem_of c)" using assms(1) unfolding images_ok_def by blast
  show "no_collision bt (imem_of c)"
    unfolding no_collision_def
  proof (intro allI impI)
    fix img
    assume "cache bt (fnv1a64 (imem_of c) 0x1000) = Some img"
    then have "img_imem img \<in> M" "fnv1a64 (img_imem img) 0x1000 = fnv1a64 (imem_of c) 0x1000"
      using assms unfolding images_ok_def bt_ok_def by blast+
    then show "img_imem img = imem_of c" using assms(1) M unfolding images_ok_def inj_on_def by blast
  qed
qed

lemma bt_rounds_right:
  assumes "llvm_doc L"
  shows "bt_ok bt \<Longrightarrow> images_ok M bt c (cur AND 0xffc) \<Longrightarrow> rsp_r c 0 = 0 \<Longrightarrow> \<not> halted c \<Longrightarrow>
    turns m c (cur AND 0xffc) (next_addr (cur AND 0xffc)) t q r \<Longrightarrow> ended t q r \<Longrightarrow> unat (n_insns c) + m \<le> 2 ^ 40 \<Longrightarrow>
    m < n \<Longrightarrow> m < fuel \<Longrightarrow> \<exists>res bt'. bt_rounds L hints junk fuel n bt c cur = Some (res, bt') \<and> result_at t q r res \<and> bt_ok bt'"
proof (induction n arbitrary: bt c cur m)
  case (Suc n)
  let ?a = "cur AND 0xffc"
  note M = images_okD [OF Suc.prems(2,1)]
  obtain k img tr bt1 where p: "ready_image (imem_of c) cur hints bt = Some (k, img, bt1)" "bt_ok bt1" "cache bt1 = (cache bt)(k \<mapsto> img)"
    "k = fnv1a64 (imem_of c) 0x1000" "image_ok img" "img_imem img = imem_of c" "\<not> stale img" "img_fn img = Some tr" "tr_imem tr = imem_of c" "code_closed tr"
    by (rule ready_image_right [OF Suc.prems(1) M(3) imem_of_zero])
  have "ends_in m c ?a" using Suc.prems(5,6) unfolding ends_in_def ended_def by blast
  then obtain res where res: "call_fn L tr fuel c cur junk = Some res"
    using call_fn_total [OF assms M(2) Suc.prems(3,4) p(9,10)] Suc.prems(9) by blast
  from call_fn_right [OF assms M(2) Suc.prems(3,4) p(9) res] consider
    (dies) d where "res = Inl d" "dies_right c ?a d"
    | (comes) c' next_pc where "res = Inr (c', next_pc)" "rsp_r c' 0 = 0" "comes_back c ?a c' next_pc"
    by blast
  then show ?case
  proof cases
    case dies
    then have "\<not> halted t" "turn t q r = Inl d" using dies_right_ended [OF dies(2) Suc.prems(5,6)] by simp_all
    then show ?thesis using p(2) by (simp add: bt_round_def p(1,8) res dies(1) result_at_def)
  next
    case comes
    obtain j p' q' where j: "turns j c ?a (next_addr ?a) c' p' q'"
      "if halted c' then next_pc = 0xffffffff else next_pc = p' \<and> q' = next_addr p'"
      using comes(3) unfolding comes_back_def by blast
    have keep: "n_insns c' = n_insns c" "pc_ok p'" using turns_keep [OF j(1)] by (simp_all add: next_addr_def)
    show ?thesis
    proof (cases "halted c'")
      case True
      then have "t = c'" using ended_unique [OF Suc.prems(5,6) j(1)] by (auto simp: ended_def)
      then show ?thesis using p(2) True j(2) by (simp add: bt_round_def p(1,8) res comes(1) result_at_def)
    next
      case False
      have q': "q' = next_addr p'" "next_pc = p'" using j(2) False by simp_all
      have p': "p' AND 0xffc = p'" "p' \<noteq> 0xffffffff" using keep(2) word_all_ones by (auto simp: pc_ok_def)
      have jm: "j \<le> m"
      proof (rule ccontr)
        assume "\<not> j \<le> m"
        then have "m \<le> j" by simp
        from ended_stays [OF Suc.prems(6) turns_split [OF Suc.prems(5) j(1) this]] \<open>\<not> j \<le> m\<close> show False by simp
      qed
      have rest: "turns (m - j) c' p' (next_addr p') t q r"
        using turns_split [OF j(1) Suc.prems(5) jm] by (simp add: q'(1))
      have guard: "unat (n_insns c') + (m - j) \<le> 2 ^ 40" using Suc.prems(7) keep(1) by simp
      show ?thesis
      proof (cases "imem_gen c' = imem_gen c")
        case True
        have "image_ok (add_root p' img)" "img_imem (add_root p' img) = imem_of c" using p(5,6) add_root_right by simp_all
        then have "bt_ok (put_image k (add_root p' img) (bt1\<lparr>n_fallbacks := n_fallbacks bt1 + 1\<rparr>))"
          using p(2,4) by (intro bt_ok_put) simp_all
        moreover have "result_at t q r (run c' p')"
          unfolding run_from [OF False keep(2)] by (rule run_loop_of_turns [OF rest Suc.prems(6) guard])
        ultimately show ?thesis using True False p' by (simp add: bt_round_def p(1,8) res comes(1) q'(2))
      next
        case gen: False
        have "j \<noteq> 0" using gen j(1) by (metis turns_0E)
        then have less: "m - j < n" "m - j < fuel" using jm Suc.prems(8,9) by auto
        let ?bt = "bt1\<lparr>n_overlay_swaps := n_overlay_swaps bt1 + 1\<rparr>"
        have "imem_of u \<in> M" if "turns l c' p' (next_addr p') u x y" for l u x y
          using turns_trans [OF j(1)] that Suc.prems(2) unfolding images_ok_def q'(1) by blast
        then have "images_ok M ?bt c' (p' AND 0xffc)"
          using Suc.prems(2) M(1) p(6) unfolding images_ok_def p'(1) by (auto simp: p(3))
        moreover have "bt_ok ?bt" using p(2) by simp
        ultimately have "\<exists>res bt'. bt_rounds L hints junk fuel n ?bt c' p' = Some (res, bt') \<and> result_at t q r res \<and> bt_ok bt'"
          using comes(2) False rest Suc.prems(6) guard less by (intro Suc.IH) (simp_all only: p'(1) not_False_eq_True)
        then show ?thesis using gen False p' by (simp add: bt_round_def p(1,8) res comes(1) q'(2))
      qed
    qed
  qed
qed simp

subsection \<open>The driver's properties\<close>

lemma result_at_same: "result_at t q r res \<Longrightarrow> result_at t q r res' \<Longrightarrow> map_sum die_reason (at_pc 0 0) res = map_sum die_reason (at_pc 0 0) res'"
  by (auto simp: result_at_def split: if_splits)

lemma run_as_loop: "run c pc = run_loop (at_pc (pc AND 0xffc) (n_insns c) (c\<lparr>halted := False\<rparr>)) (next_addr (pc AND 0xffc))"
proof -
  have "c\<lparr>rsp_pc := pc AND 0xffc, halted := False\<rparr> = at_pc (pc AND 0xffc) (n_insns c) (c\<lparr>halted := False\<rparr>)" by (simp add: at_pc_def)
  then show ?thesis by (simp add: run_def next_addr_def)
qed

text \<open>
  C1: A task run by translated code, from any state of the cache, ends, and as in the interpreter:
  with the same registers, memories, DMA registers and halt flag (the pc and the instruction
  count are the interpreter's own), or with the same error.  The images it meets must not start
  a DMA from a delay slot, and their hashes must tell them and the cached images apart; \<open>2^40\<close>
  turns are the most the interpreter takes before it gives up.
\<close>

theorem rspbt_run_agrees:
  assumes "llvm_doc L" and "bt_ok bt" and "rsp_r c 0 = 0" and "n_insns c \<le> 2 ^ 40" and "2 ^ 40 < fuel"
    and "images_ok M bt (c\<lparr>halted := False\<rparr>) (pc AND 0xffc)"
    and "\<And>p. run c pc \<noteq> Inl (Rsp_die Die_runaway p)"
  shows "\<exists>res bt'. rspbt_run L hints junk fuel bt c pc = Some (res, bt') \<and> bt_ok bt' \<and>
    map_sum die_reason (at_pc 0 0) res = map_sum die_reason (at_pc 0 0) (run c pc)"
proof -
  let ?c = "c\<lparr>halted := False\<rparr>" and ?a = "pc AND 0xffc"
  have n: "unat (n_insns c) \<le> 2 ^ 40" using assms(4) by (simp add: word_le_nat_alt)
  obtain m t q r where m: "turns m ?c ?a (next_addr ?a) t q r" "ended t q r" "unat (n_insns c) + m \<le> 2 ^ 40"
    using turns_of_run_loop [OF refl n, of ?a ?c "next_addr ?a"] assms(7) unfolding run_as_loop by blast
  have "m < fuel" using m(3) assms(5) by linarith
  then obtain res bt' where "rspbt_run L hints junk fuel bt c pc = Some (res, bt')" "result_at t q r res" "bt_ok bt'"
    using bt_rounds_right [OF assms(1,2,6) _ _ m(1,2)] assms(3) m(3) unfolding rspbt_run_def by fastforce
  moreover have "result_at t q r (run c pc)"
    unfolding run_as_loop by (rule run_loop_of_turns [OF m])
  ultimately show ?thesis using result_at_same by blast
qed

theorem rspbt_run_agrees_witness:
  "\<exists>res bt'. rspbt_run llvm_ref [] 0 (2 ^ 40 + 1) bt_new break_machine 0 = Some (res, bt') \<and>
    map_sum die_reason (at_pc 0 0) res = Inr ((set_r break_machine 0 0)\<lparr>halted := True\<rparr>)"
proof -
  have "imem_of t = imem_of break_machine" if "turns n breaking (0 AND 0xffc) (next_addr (0 AND 0xffc)) t q r" for n t q r
  proof -
    have "imem_of ((set_r break_machine 0 0)\<lparr>halted := True\<rparr>) = imem_of break_machine" by (simp add: imem_of_def cong: if_cong)
    then show ?thesis using breaking_turns [OF that] breaking_simps(3) by metis
  qed
  then have ok: "images_ok {imem_of break_machine} bt_new (break_machine\<lparr>halted := False\<rparr>) (0 AND 0xffc)"
    using breaking_safe unfolding images_ok_def breaking_def [symmetric] by (auto simp: breaking_simps bt_new_def)
  have r: "run break_machine 0 = Inr ((set_r break_machine 0 0)\<lparr>rsp_pc := 4, halted := True, n_insns := 1\<rparr>)"
    using break_machine_step by (simp add: run_def run_loop.simps)
  have c: "rsp_r break_machine 0 = 0" "n_insns break_machine \<le> 2 ^ 40" "(2 :: nat) ^ 40 < 2 ^ 40 + 1"
    by (simp_all add: break_machine_def rsp_init_def)
  have "at_pc 0 0 ((set_r break_machine 0 0)\<lparr>rsp_pc := 4, halted := True, n_insns := 1\<rparr>) = (set_r break_machine 0 0)\<lparr>halted := True\<rparr>"
    by (simp add: at_pc_def break_machine_def rsp_init_def set_r_def)
  then show ?thesis
    using rspbt_run_agrees [OF llvm_ref_doc bt_new_ok c ok, of "[]" 0] unfolding r by auto
qed

subsection \<open>The cache's properties\<close>

text \<open>
  C19: An image that has been translated is not translated again: as long as the entry point and the
  hints are code, the same request finds the same translation and changes nothing.
\<close>

theorem translation_is_memoized:
  assumes "bt_ok bt" and "no_collision bt imem" and "\<forall>i \<ge> 0x1000. imem i = 0"
    and "\<forall>r \<in> set (cur # hints). translatable imem (r AND 0xffc)"
    and "ready_image imem cur hints bt = Some (k, img, bt')"
  shows "ready_image imem cur hints bt' = Some (k, img, bt')"
proof -
  obtain tr where p: "cache bt' = (cache bt)(k \<mapsto> img)" "img_imem img = imem" "\<not> stale img" "last_img bt' = Some k"
    "\<forall>r \<in> set (cur # hints). translatable imem (r AND 0xffc) \<longrightarrow> r AND 0xffc \<in> img_roots img"
    by (rule ready_image_right [OF assms(1-3), of cur hints]) (use assms(5) in auto)
  have f: "find_image imem bt' = (k, img, bt')"
    using p(1,2,4) by (simp add: find_image_def same_image_def list_all_iff)
  have same: "add_root r img = img" if "r AND 0xffc \<in> img_roots img" for r using that by (simp add: add_root_def)
  have "fold add_root rs img = img" if "\<forall>r \<in> set rs. r AND 0xffc \<in> img_roots img" for rs
    using that by (induction rs) (simp_all add: same)
  then have r: "fold add_root (cur # hints) img = img" using p(5) assms(4) by blast
  have "put_image k img bt' = bt'" using p(1) by (simp add: put_image_def fun_upd_idem)
  then show ?thesis using p(3) unfolding ready_image_def f by (simp only: prod.case Let_def r) simp
qed

text \<open>
  C20: A hint that is data defeats the cache: compiling erases it from the roots, so that every task
  puts it in again and compiles the image anew.
\<close>

theorem hint_on_data_recompiles:
  assumes "bt_ok bt" and "no_collision bt imem" and "\<forall>i \<ge> 0x1000. imem i = 0"
    and "h \<in> set hints" and "\<not> translatable imem (h AND 0xffc)"
  shows "\<exists>k img bt'. ready_image imem cur hints bt = Some (k, img, bt') \<and> n_compiles bt' = n_compiles bt + 1 \<and>
    h AND 0xffc \<notin> img_roots img \<and> bt_ok bt' \<and> no_collision bt' imem"
proof -
  obtain k img tr bt' where p: "ready_image imem cur hints bt = Some (k, img, bt')" "bt_ok bt'" "cache bt' = (cache bt)(k \<mapsto> img)"
    "k = fnv1a64 imem 0x1000" "image_ok img" "img_imem img = imem" "\<not> stale img"
    "(\<exists>r \<in> set (cur # hints). \<not> translatable imem (r AND 0xffc)) \<longrightarrow> n_compiles bt' = n_compiles bt + 1"
    by (rule ready_image_right [OF assms(1-3), of cur hints])
  have "h AND 0xffc \<notin> img_roots img" using p(5-7) assms(5) by (auto simp: image_ok_def)
  moreover have "no_collision bt' imem" using p(3,4,6) by (simp add: no_collision_def)
  ultimately show ?thesis using p(1,2,8) assms(4,5) by (metis list.set_intros(2))
qed

text \<open>An image of \<open>nop\<close>s with a word at 4 that is no instruction.\<close>

definition data_image :: "nat \<Rightarrow> u8" where
  "data_image = (\<lambda>i. if i = 4 then 0xfc else 0)"

lemma data_image_words: "insn_at data_image 0 = Some (Shift Insn_sll)" "insn_at data_image 4 = None"
  by (simp_all add: insn_at_def bt_fetch_def data_image_def decode_def decode_special_def f_op_def f_fn_def Let_def)

lemma data_image_beyond: "\<forall>i \<ge> 0x1000. data_image i = 0" "no_collision bt_new data_image"
  by (simp_all add: data_image_def no_collision_def bt_new_def)

theorem translation_is_memoized_witness:
  "\<exists>k img bt'. ready_image data_image 0 [0] bt_new = Some (k, img, bt') \<and> ready_image data_image 0 [0] bt' = Some (k, img, bt')"
proof -
  obtain k img bt' where r: "ready_image data_image 0 [0] bt_new = Some (k, img, bt')"
    using ready_image_right [OF bt_new_ok data_image_beyond(2,1), of 0 "[0]"] by metis
  have "\<forall>r \<in> set [0, 0]. translatable data_image (r AND 0xffc)" by (simp add: translatable_def data_image_words)
  from translation_is_memoized [OF bt_new_ok data_image_beyond(2,1) this r] r show ?thesis by blast
qed

theorem hint_on_data_recompiles_witness:
  "\<exists>k img bt'. ready_image data_image 0 [4] bt_new = Some (k, img, bt') \<and> n_compiles bt' = 1 \<and> 4 \<notin> img_roots img"
  using hint_on_data_recompiles [OF bt_new_ok data_image_beyond(2,1), of 4 "[4]" 0]
  by (auto simp: translatable_def data_image_words bt_new_def)

end
