(* ===== verification/R4300_Ir.thy ===== *)
theory R4300_Ir
  imports Llvm_Ir "HOL-Library.Signed_Division"
begin

text \<open>
  The LLVM instructions \<open>r4300bt.cc\<close> uses beyond those of \<open>Llvm_Ir\<close>: 64-bit casts and accesses,
  division and floating point.  \<open>llvm64_doc\<close> is their documented meaning.  A floating-point value
  is its bit pattern; nothing is assumed about floating-point arithmetic.
\<close>

datatype fop = FAdd | FSub | FMul | FDiv

datatype fcmp = OEQ | OLT | OLE | OGE

record llvm64 = llvm +
  zext8_64 :: "u8 \<Rightarrow> u64"
  zext32_64 :: "u32 \<Rightarrow> u64"
  sext8_64 :: "u8 \<Rightarrow> u64"
  sext32_64 :: "u32 \<Rightarrow> u64"
  trunc64_8 :: "u64 \<Rightarrow> u8"
  trunc64_32 :: "u64 \<Rightarrow> u32"
  bswap64 :: "u64 \<Rightarrow> u64"
  sel32 :: "bool \<Rightarrow> u32 \<Rightarrow> u32 \<Rightarrow> u32"
  sel64 :: "bool \<Rightarrow> u64 \<Rightarrow> u64 \<Rightarrow> u64"
  udiv32 :: "u32 \<Rightarrow> u32 \<Rightarrow> u32"
  urem32 :: "u32 \<Rightarrow> u32 \<Rightarrow> u32"
  sdiv64 :: "u64 \<Rightarrow> u64 \<Rightarrow> u64"
  srem64 :: "u64 \<Rightarrow> u64 \<Rightarrow> u64"
  bytes64 :: "u64 \<Rightarrow> nat \<Rightarrow> u8"
  load64 :: "(nat \<Rightarrow> u8) \<Rightarrow> u64"
  fbin32 :: "fop \<Rightarrow> u32 \<Rightarrow> u32 \<Rightarrow> u32"
  fbin64 :: "fop \<Rightarrow> u64 \<Rightarrow> u64 \<Rightarrow> u64"
  fabs32 :: "u32 \<Rightarrow> u32"
  fabs64 :: "u64 \<Rightarrow> u64"
  fneg32 :: "u32 \<Rightarrow> u32"
  fneg64 :: "u64 \<Rightarrow> u64"
  fcmp32 :: "fcmp \<Rightarrow> u32 \<Rightarrow> u32 \<Rightarrow> bool"
  fcmp64 :: "fcmp \<Rightarrow> u64 \<Rightarrow> u64 \<Rightarrow> bool"
  fptrunc :: "u64 \<Rightarrow> u32"
  fpext :: "u32 \<Rightarrow> u64"
  fptosi32 :: "u32 \<Rightarrow> u32"                 \<comment> \<open>float to i32\<close>
  fptosi64 :: "u64 \<Rightarrow> u32"                 \<comment> \<open>double to i32\<close>
  sitofp32 :: "u32 \<Rightarrow> u32"                 \<comment> \<open>i32 to float\<close>
  sitofp64 :: "u32 \<Rightarrow> u64"                 \<comment> \<open>i32 to double\<close>

definition le64 :: "(nat \<Rightarrow> u8) \<Rightarrow> u64" where
  "le64 b = push_bit 32 (ucast (le32 (b 4) (b 5) (b 6) (b 7))) OR ucast (le32 (b 0) (b 1) (b 2) (b 3))"

text \<open>Division by zero is undefined, and so is the signed quotient that does not fit.\<close>

definition llvm64_doc :: "llvm64 \<Rightarrow> bool" where
  "llvm64_doc L \<longleftrightarrow> llvm_doc (llvm.truncate L) \<and>
    zext8_64 L = ucast \<and> zext32_64 L = ucast \<and> sext8_64 L = scast \<and> sext32_64 L = scast \<and>
    trunc64_8 L = ucast \<and> trunc64_32 L = ucast \<and>
    (\<forall>x k. k < 8 \<longrightarrow> byte_of k (bswap64 L x) = byte_of (7 - k) x) \<and>
    sel32 L = If \<and> sel64 L = If \<and>
    (\<forall>a b. b \<noteq> 0 \<longrightarrow> udiv32 L a b = a div b \<and> urem32 L a b = a mod b) \<and>
    (\<forall>a b. b \<noteq> 0 \<and> \<not> (sint a = - (2 ^ 63) \<and> sint b = - 1) \<longrightarrow>
      sdiv64 L a b = word_of_int (sint a sdiv sint b) \<and> srem64 L a b = word_of_int (sint a smod sint b)) \<and>
    (\<forall>x k. k < 8 \<longrightarrow> bytes64 L x k = byte_of k x) \<and> (\<forall>b. load64 L b = le64 b)"

text \<open>The reference machine, with arithmetic on floating-point patterns as an argument.\<close>

definition llvm64_ref :: "llvm64" where
  "llvm64_ref = llvm.extend llvm_ref
     \<lparr>zext8_64 = ucast, zext32_64 = ucast, sext8_64 = scast, sext32_64 = scast, trunc64_8 = ucast, trunc64_32 = ucast,
      bswap64 = (\<lambda>x. le64 (\<lambda>k. byte_of (7 - k) x)), sel32 = If, sel64 = If, udiv32 = (div), urem32 = (mod),
      sdiv64 = (\<lambda>a b. word_of_int (sint a sdiv sint b)), srem64 = (\<lambda>a b. word_of_int (sint a smod sint b)),
      bytes64 = (\<lambda>x k. byte_of k x), load64 = le64,
      fbin32 = (\<lambda>_ a _. a), fbin64 = (\<lambda>_ a _. a), fabs32 = (\<lambda>a. a AND 0x7fffffff), fabs64 = (\<lambda>a. a AND 0x7fffffffffffffff),
      fneg32 = (\<lambda>a. a XOR 0x80000000), fneg64 = (\<lambda>a. a XOR 0x8000000000000000), fcmp32 = (\<lambda>_ a b. a = b), fcmp64 = (\<lambda>_ a b. a = b),
      fptrunc = (\<lambda>_. 0), fpext = (\<lambda>_. 0), fptosi32 = (\<lambda>_. 0), fptosi64 = (\<lambda>_. 0), sitofp32 = (\<lambda>_. 0), sitofp64 = (\<lambda>_. 0)\<rparr>"

lemma byte_of_le64: "k < 8 \<Longrightarrow> byte_of k (le64 b) = b k"
proof -
  assume "k < 8"
  then consider "k < 4" | "4 \<le> k" "k < 8" by linarith
  then show ?thesis
  proof cases
    case 1
    then have "byte_of k (le64 b) = byte_of k (le32 (b 0) (b 1) (b 2) (b 3))"
      unfolding byte_of_def le64_def by (intro bit_word_eqI) (auto simp: bit_simps)
    then show ?thesis using 1 by (auto simp: less_Suc_eq eval_nat_numeral byte_of_le_Suc)
  next
    case 2
    then obtain j where j: "k = j + 4" "j < 4" by (intro that [of "k - 4"]) simp_all
    then have "byte_of k (le64 b) = byte_of j (le32 (b 4) (b 5) (b 6) (b 7))"
      unfolding byte_of_def le64_def by (intro bit_word_eqI) (auto simp: bit_simps dest: bit_imp_le_length)
    then show ?thesis using j by (auto simp: less_Suc_eq eval_nat_numeral byte_of_le_Suc)
  qed
qed

lemma llvm64_ref_doc: "llvm64_doc llvm64_ref"
  using llvm_ref_doc
  by (auto simp: llvm64_doc_def llvm64_ref_def llvm.defs byte_of_le64 llvm_ref_def)

end
