(* ===== verification/R4300_Emit.thy ===== *)
theory R4300_Emit
  imports R4300_Ir
begin

text \<open>
  Code generation for single R4300 instructions: \<open>fnCtx\<close>, \<open>emitCop1\<close> and \<open>emitOne\<close> of
  \<open>r4300bt.cc\<close>.  As for the RSP, a method that emits code is modelled by what the emitted code does
  to the frame of the translated function when it runs.  The interpreter's \<open>state_t\<close> is not in the
  repository: the record has the fields the translator reaches, and its extension is the rest.
\<close>

subsection \<open>The state and the frame\<close>

record state_t =
  s_pc :: u64
  s_gpr :: "nat \<Rightarrow> u64"
  s_lo :: u64
  s_hi :: u64
  s_cpr1 :: "nat \<Rightarrow> u64"
  s_fcr25 :: u32                         \<comment> \<open>fcr1[CP1_CR25], the condition codes\<close>

record 'x fnframe =
  slot :: "nat \<Rightarrow> u64"                   \<comment> \<open>the allocas gpr[1..31]\<close>
  bail :: u32                            \<comment> \<open>bailSlot\<close>
  st :: "'x state_t_scheme"              \<comment> \<open>what vState points to\<close>
  ram :: "nat \<Rightarrow> u8"                      \<comment> \<open>what vRam points to\<close>

text \<open>\<open>pred\<close>: the value every architectural effect is selected on, if there is one.\<close>

type_synonym predicate = "bool option"

definition BITBUCKET_PA :: u32 where
  "BITBUCKET_PA = 0x00700b00"

subsection \<open>Registers and addresses\<close>

definition r_getGPR :: "u32 \<Rightarrow> 'x fnframe \<Rightarrow> u64" where
  "r_getGPR r fr = (if r = 0 then 0 else slot fr (unat r))"

definition r_setGPR :: "llvm64 \<Rightarrow> predicate \<Rightarrow> u32 \<Rightarrow> u64 \<Rightarrow> 'x fnframe \<Rightarrow> 'x fnframe" where
  "r_setGPR L pred r v fr =
    (if r = 0 then fr
     else fr\<lparr>slot := (slot fr)(unat r := (case pred of None \<Rightarrow> v | Some p \<Rightarrow> sel64 L p v (slot fr (unat r))))\<rparr>)"

definition physAddr :: "llvm64 \<Rightarrow> u64 \<Rightarrow> u32" where
  "physAddr L ea64 =
    (let va = trunc64_32 L ea64;
         isAlias = cmp32 L EQ (bin32 L LShr va 28) 7
     in sel32 L isAlias (bin32 L And va 0x0fffffff) (bin32 L And va 0x1fffffff))"

definition r_effAddr :: "llvm64 \<Rightarrow> u32 \<Rightarrow> 'x fnframe \<Rightarrow> u64" where
  "r_effAddr L insn fr =
    bin64 L Add (r_getGPR (drop_bit 21 insn AND 31) fr) (scast (ucast (insn AND 0xffff) :: u16))"

subsection \<open>Guest memory\<close>

definition ram_at :: "u32 \<Rightarrow> 'x fnframe \<Rightarrow> nat \<Rightarrow> u8" where
  "ram_at pa fr = (\<lambda>k. ram fr (unat pa + k))"

definition ram_put :: "u32 \<Rightarrow> nat \<Rightarrow> (nat \<Rightarrow> u8) \<Rightarrow> 'x fnframe \<Rightarrow> 'x fnframe" where
  "ram_put pa n bytes fr =
    fr\<lparr>ram := (\<lambda>i. if unat pa \<le> i \<and> i < unat pa + n then bytes (i - unat pa) else ram fr i)\<rparr>"

definition loadMem8 :: "llvm64 \<Rightarrow> u64 \<Rightarrow> 'x fnframe \<Rightarrow> u8" where
  "loadMem8 L ea fr = ram_at (physAddr L ea) fr 0"

definition loadMem16 :: "llvm64 \<Rightarrow> u64 \<Rightarrow> 'x fnframe \<Rightarrow> u16" where
  "loadMem16 L ea fr = bswap16 L (load16 L (ram_at (physAddr L ea) fr))"

definition loadMem32 :: "llvm64 \<Rightarrow> u64 \<Rightarrow> 'x fnframe \<Rightarrow> u32" where
  "loadMem32 L ea fr = bswap32 L (load32 L (ram_at (physAddr L ea) fr))"

definition loadMem64 :: "llvm64 \<Rightarrow> u64 \<Rightarrow> 'x fnframe \<Rightarrow> u64" where
  "loadMem64 L ea fr = bswap64 L (load64 L (ram_at (physAddr L ea) fr))"

text \<open>Where a store goes: the bit bucket when it is squashed.\<close>

definition store_pa :: "llvm64 \<Rightarrow> predicate \<Rightarrow> u64 \<Rightarrow> u32" where
  "store_pa L pred ea =
    (let pa = physAddr L ea in case pred of None \<Rightarrow> pa | Some p \<Rightarrow> sel32 L p pa BITBUCKET_PA)"

definition storeMem8 :: "llvm64 \<Rightarrow> predicate \<Rightarrow> u64 \<Rightarrow> u8 \<Rightarrow> 'x fnframe \<Rightarrow> 'x fnframe" where
  "storeMem8 L pred ea val fr = ram_put (store_pa L pred ea) 1 (\<lambda>_. val) fr"

definition storeMem16 :: "llvm64 \<Rightarrow> predicate \<Rightarrow> u64 \<Rightarrow> u16 \<Rightarrow> 'x fnframe \<Rightarrow> 'x fnframe" where
  "storeMem16 L pred ea val fr = ram_put (store_pa L pred ea) 2 (bytes16 L (bswap16 L val)) fr"

definition storeMem32 :: "llvm64 \<Rightarrow> predicate \<Rightarrow> u64 \<Rightarrow> u32 \<Rightarrow> 'x fnframe \<Rightarrow> 'x fnframe" where
  "storeMem32 L pred ea val fr = ram_put (store_pa L pred ea) 4 (bytes32 L (bswap32 L val)) fr"

definition storeMem64 :: "llvm64 \<Rightarrow> predicate \<Rightarrow> u64 \<Rightarrow> u64 \<Rightarrow> 'x fnframe \<Rightarrow> 'x fnframe" where
  "storeMem64 L pred ea val fr = ram_put (store_pa L pred ea) 8 (bytes64 L (bswap64 L val)) fr"

subsection \<open>Pointers into state_t\<close>

text \<open>
  The 64-bit cells of \<open>state_t\<close> the code points at, and the 32-bit ones: a half of such a cell, on a
  little-endian host, or the condition codes.
\<close>

datatype cell64 = LoP | HiP | CprP u32

datatype cell32 = Lower cell64 | Upper cell64 | FccP

fun load_cell64 :: "cell64 \<Rightarrow> 'x fnframe \<Rightarrow> u64" where
  "load_cell64 LoP fr = s_lo (st fr)"
| "load_cell64 HiP fr = s_hi (st fr)"
| "load_cell64 (CprP r) fr = s_cpr1 (st fr) (unat r)"

fun store_cell64 :: "cell64 \<Rightarrow> u64 \<Rightarrow> 'x fnframe \<Rightarrow> 'x fnframe" where
  "store_cell64 LoP v fr = fr\<lparr>st := (st fr)\<lparr>s_lo := v\<rparr>\<rparr>"
| "store_cell64 HiP v fr = fr\<lparr>st := (st fr)\<lparr>s_hi := v\<rparr>\<rparr>"
| "store_cell64 (CprP r) v fr = fr\<lparr>st := (st fr)\<lparr>s_cpr1 := (s_cpr1 (st fr))(unat r := v)\<rparr>\<rparr>"

fun load_cell32 :: "cell32 \<Rightarrow> 'x fnframe \<Rightarrow> u32" where
  "load_cell32 (Lower p) fr = ucast (load_cell64 p fr)"
| "load_cell32 (Upper p) fr = ucast (drop_bit 32 (load_cell64 p fr))"
| "load_cell32 FccP fr = s_fcr25 (st fr)"

fun store_cell32 :: "cell32 \<Rightarrow> u32 \<Rightarrow> 'x fnframe \<Rightarrow> 'x fnframe" where
  "store_cell32 (Lower p) v fr = store_cell64 p ((load_cell64 p fr AND push_bit 32 (mask 32)) OR ucast v) fr"
| "store_cell32 (Upper p) v fr = store_cell64 p ((load_cell64 p fr AND mask 32) OR push_bit 32 (ucast v)) fr"
| "store_cell32 FccP v fr = fr\<lparr>st := (st fr)\<lparr>s_fcr25 := v\<rparr>\<rparr>"

definition fprPtr :: "u32 \<Rightarrow> cell64" where
  "fprPtr r = CprP r"

definition fprHalfPtr :: "u32 \<Rightarrow> cell32" where
  "fprHalfPtr r = (if r AND 1 = 0 then Lower (CprP (r AND NOT 1)) else Upper (CprP (r AND NOT 1)))"

definition fprDblPtr :: "u32 \<Rightarrow> cell64" where
  "fprDblPtr r = CprP (r AND NOT 1)"

definition storeGuarded64 :: "llvm64 \<Rightarrow> predicate \<Rightarrow> cell64 \<Rightarrow> u64 \<Rightarrow> 'x fnframe \<Rightarrow> 'x fnframe" where
  "storeGuarded64 L pred p v fr =
    store_cell64 p (case pred of None \<Rightarrow> v | Some c \<Rightarrow> sel64 L c v (load_cell64 p fr)) fr"

definition storeGuarded32 :: "llvm64 \<Rightarrow> predicate \<Rightarrow> cell32 \<Rightarrow> u32 \<Rightarrow> 'x fnframe \<Rightarrow> 'x fnframe" where
  "storeGuarded32 L pred p v fr =
    store_cell32 p (case pred of None \<Rightarrow> v | Some c \<Rightarrow> sel32 L c v (load_cell32 p fr)) fr"

subsection \<open>Floating point\<close>

definition getF32 :: "u32 \<Rightarrow> 'x fnframe \<Rightarrow> u32" where
  "getF32 r fr = load_cell32 (Lower (fprPtr r)) fr"

definition getF64 :: "u32 \<Rightarrow> 'x fnframe \<Rightarrow> u64" where
  "getF64 r fr = load_cell64 (fprPtr r) fr"

definition setF32 :: "llvm64 \<Rightarrow> predicate \<Rightarrow> u32 \<Rightarrow> u32 \<Rightarrow> 'x fnframe \<Rightarrow> 'x fnframe" where
  "setF32 L pred r v fr = storeGuarded32 L pred (Lower (fprPtr r)) v fr"

definition setF64 :: "llvm64 \<Rightarrow> predicate \<Rightarrow> u32 \<Rightarrow> u64 \<Rightarrow> 'x fnframe \<Rightarrow> 'x fnframe" where
  "setF64 L pred r v fr = storeGuarded64 L pred (fprPtr r) v fr"

text \<open>\<open>toI32\<close> at the two types; the constants are the patterns of \<open>-2147483648.0\<close> and \<open>2147483648.0\<close>.\<close>

definition toI32_F32 :: "llvm64 \<Rightarrow> u32 \<Rightarrow> u32" where
  "toI32_F32 L v =
    (let ok = bin1 L And (fcmp32 L OGE v 0xcf000000) (fcmp32 L OLT v 0x4f000000)
     in sel32 L ok (fptosi32 L v) 0x80000000)"

definition toI32_F64 :: "llvm64 \<Rightarrow> u64 \<Rightarrow> u32" where
  "toI32_F64 L v =
    (let ok = bin1 L And (fcmp64 L OGE v 0xc1e0000000000000) (fcmp64 L OLT v 0x41e0000000000000)
     in sel32 L ok (fptosi64 L v) 0x80000000)"

text \<open>The comparison of a \<open>c.cond\<close>, if it is one of those translated.\<close>

definition fp_cond :: "u32 \<Rightarrow> fcmp option" where
  "fp_cond insn =
    (let c = insn AND 15
     in if c = 1 \<or> c = 2 then Some OEQ else if c = 12 then Some OLT else if c = 14 then Some OLE else None)"

definition set_fcc :: "llvm64 \<Rightarrow> predicate \<Rightarrow> u32 \<Rightarrow> bool \<Rightarrow> 'x fnframe \<Rightarrow> 'x fnframe" where
  "set_fcc L pred insn c fr =
    (let cc = unat (drop_bit 8 insn AND 7);
         old = load_cell32 FccP fr;
         set_it = bin32 L Or old (push_bit cc 1);
         clr = bin32 L And old (NOT (push_bit cc 1))
     in storeGuarded32 L pred FccP (sel32 L c set_it clr) fr)"

text \<open>\<open>FMT_S\<close> and \<open>FMT_D\<close>: the case of \<open>emitCop1\<close> the two share, at each type.\<close>

definition emit_fmt_s :: "llvm64 \<Rightarrow> predicate \<Rightarrow> u32 \<Rightarrow> 'x fnframe \<Rightarrow> 'x fnframe option" where
  "emit_fmt_s L pred insn fr =
    (let fs = drop_bit 11 insn AND 31; fd = drop_bit 6 insn AND 31; ft = drop_bit 16 insn AND 31; fn = insn AND 0x3f;
         a = getF32 fs fr; b = getF32 ft fr; put = setF32 L pred fd
     in if fn = 0x00 then Some (put (fbin32 L FAdd a b) fr)
        else if fn = 0x01 then Some (put (fbin32 L FSub a b) fr)
        else if fn = 0x02 then Some (put (fbin32 L FMul a b) fr)
        else if fn = 0x03 then Some (put (fbin32 L FDiv a b) fr)
        else if fn = 0x05 then Some (put (fabs32 L a) fr)
        else if fn = 0x06 then Some (put a fr)
        else if fn = 0x07 then Some (put (fneg32 L a) fr)
        else if fn = 0x0d then Some (storeGuarded32 L pred (Lower (fprPtr fd)) (toI32_F32 L a) fr)
        else if 0x30 \<le> fn then map_option (\<lambda>p. set_fcc L pred insn (fcmp32 L p a b) fr) (fp_cond insn)
        else if fn = 0x21 then Some (setF64 L pred fd (fpext L a) fr)
        else None)"

definition emit_fmt_d :: "llvm64 \<Rightarrow> predicate \<Rightarrow> u32 \<Rightarrow> 'x fnframe \<Rightarrow> 'x fnframe option" where
  "emit_fmt_d L pred insn fr =
    (let fs = drop_bit 11 insn AND 31; fd = drop_bit 6 insn AND 31; ft = drop_bit 16 insn AND 31; fn = insn AND 0x3f;
         a = getF64 fs fr; b = getF64 ft fr; put = setF64 L pred fd
     in if fn = 0x00 then Some (put (fbin64 L FAdd a b) fr)
        else if fn = 0x01 then Some (put (fbin64 L FSub a b) fr)
        else if fn = 0x02 then Some (put (fbin64 L FMul a b) fr)
        else if fn = 0x03 then Some (put (fbin64 L FDiv a b) fr)
        else if fn = 0x05 then Some (put (fabs64 L a) fr)
        else if fn = 0x06 then Some (put a fr)
        else if fn = 0x07 then Some (put (fneg64 L a) fr)
        else if fn = 0x0d then Some (storeGuarded32 L pred (Lower (fprPtr fd)) (toI32_F64 L a) fr)
        else if 0x30 \<le> fn then map_option (\<lambda>p. set_fcc L pred insn (fcmp64 L p a b) fr) (fp_cond insn)
        else if fn = 0x20 then Some (setF32 L pred fd (fptrunc L a) fr)
        else None)"

text \<open>\<open>FMT_W\<close>: from a word.\<close>

definition emit_fmt_w :: "llvm64 \<Rightarrow> predicate \<Rightarrow> u32 \<Rightarrow> 'x fnframe \<Rightarrow> 'x fnframe option" where
  "emit_fmt_w L pred insn fr =
    (let fs = drop_bit 11 insn AND 31; fd = drop_bit 6 insn AND 31; fn = insn AND 0x3f;
         iv = load_cell32 (Lower (fprPtr fs)) fr
     in if fn = 0x20 then Some (setF32 L pred fd (sitofp32 L iv) fr)
        else if fn = 0x21 then Some (setF64 L pred fd (sitofp64 L iv) fr)
        else None)"

definition emitCop1 :: "llvm64 \<Rightarrow> predicate \<Rightarrow> u32 \<Rightarrow> 'x fnframe \<Rightarrow> 'x fnframe option" where
  "emitCop1 L pred insn fr =
    (let rs = drop_bit 21 insn AND 31; rt = drop_bit 16 insn AND 31; fs = drop_bit 11 insn AND 31
     in if rs = 0x00 then Some (r_setGPR L pred rt (sext32_64 L (load_cell32 (fprHalfPtr fs) fr)) fr)
        else if rs = 0x04 then Some (storeGuarded32 L pred (fprHalfPtr fs) (trunc64_32 L (r_getGPR rt fr)) fr)
        else if rs = 0x10 then emit_fmt_s L pred insn fr
        else if rs = 0x11 then emit_fmt_d L pred insn fr
        else if rs = 0x14 then emit_fmt_w L pred insn fr
        else None)"

subsection \<open>Multiplication and division\<close>

text \<open>\<open>lo\<close> and \<open>hi\<close> from the two halves of a product, \<open>sh\<close> being the shift for the upper one.\<close>

definition put_product :: "llvm64 \<Rightarrow> predicate \<Rightarrow> binop \<Rightarrow> u64 \<Rightarrow> 'x fnframe \<Rightarrow> 'x fnframe" where
  "put_product L pred sh y fr =
    (let fr = storeGuarded64 L pred LoP (sext32_64 L (trunc64_32 L y)) fr
     in storeGuarded64 L pred HiP (sext32_64 L (trunc64_32 L (bin64 L sh y 32))) fr)"

definition emit_mult :: "llvm64 \<Rightarrow> predicate \<Rightarrow> u32 \<Rightarrow> u32 \<Rightarrow> 'x fnframe \<Rightarrow> 'x fnframe" where
  "emit_mult L pred rs rt fr =
    (let y = bin64 L Mul (sext32_64 L (trunc64_32 L (r_getGPR rs fr))) (sext32_64 L (trunc64_32 L (r_getGPR rt fr)))
     in put_product L pred AShr y fr)"

definition emit_multu :: "llvm64 \<Rightarrow> predicate \<Rightarrow> u32 \<Rightarrow> u32 \<Rightarrow> 'x fnframe \<Rightarrow> 'x fnframe" where
  "emit_multu L pred rs rt fr =
    (let y = bin64 L Mul (zext32_64 L (trunc64_32 L (r_getGPR rs fr))) (zext32_64 L (trunc64_32 L (r_getGPR rt fr)))
     in put_product L pred LShr y fr)"

definition emit_div :: "llvm64 \<Rightarrow> predicate \<Rightarrow> bool \<Rightarrow> u32 \<Rightarrow> u32 \<Rightarrow> 'x fnframe \<Rightarrow> 'x fnframe" where
  "emit_div L pred sg rs rt fr =
    (let a32 = trunc64_32 L (r_getGPR rs fr);
         b32 = trunc64_32 L (r_getGPR rt fr);
         nz = (if sg then cmp32 L NE b32 0 else cmp64 L NE (r_getGPR rt fr) 0);
         ok = cmp32 L NE b32 0;
         (q, r) =
           (if sg then
              (let a = sext32_64 L a32; d = sext32_64 L (sel32 L ok b32 1)
               in (sext32_64 L (trunc64_32 L (sdiv64 L a d)), sext32_64 L (trunc64_32 L (srem64 L a d))))
            else
              (let d = sel32 L ok b32 1
               in (sext32_64 L (udiv32 L a32 d), sext32_64 L (urem32 L a32 d))));
         oldLo = load_cell64 LoP fr;
         oldHi = load_cell64 HiP fr;
         fr = storeGuarded64 L pred LoP (sel64 L nz q oldLo) fr
     in storeGuarded64 L pred HiP (sel64 L nz r oldHi) fr)"

subsection \<open>One instruction\<close>

text \<open>The \<open>SPECIAL\<close> opcodes; \<open>None\<close> where \<open>emitOne\<close> returns false.\<close>

definition emit_special :: "llvm64 \<Rightarrow> predicate \<Rightarrow> u32 \<Rightarrow> 'x fnframe \<Rightarrow> 'x fnframe option" where
  "emit_special L pred insn fr =
    (let rs = drop_bit 21 insn AND 31; rt = drop_bit 16 insn AND 31; rd = drop_bit 11 insn AND 31; sa = drop_bit 6 insn AND 31;
         fn = insn AND 0x3f;
         vs = r_getGPR rs fr; vt = r_getGPR rt fr;
         lo32 = trunc64_32 L; amt = bin32 L And (lo32 vs) 31;
         set = (\<lambda>v. Some (r_setGPR L pred rd v fr));
         set32 = (\<lambda>v. Some (r_setGPR L pred rd (sext32_64 L v) fr))
     in if fn = 0x00 then set32 (bin32 L Shl (lo32 vt) sa)
        else if fn = 0x02 then set32 (bin32 L LShr (lo32 vt) sa)
        else if fn = 0x03 then set32 (bin32 L AShr (lo32 vt) sa)
        else if fn = 0x04 then set32 (bin32 L Shl (lo32 vt) amt)
        else if fn = 0x06 then set32 (bin32 L LShr (lo32 vt) amt)
        else if fn = 0x07 then set32 (bin32 L AShr (lo32 vt) amt)
        else if fn = 0x21 then set32 (bin32 L Add (lo32 vs) (lo32 vt))
        else if fn = 0x23 then set32 (bin32 L Sub (lo32 vs) (lo32 vt))
        else if fn = 0x24 then set (bin64 L And vs vt)
        else if fn = 0x25 then set (bin64 L Or vs vt)
        else if fn = 0x26 then set (bin64 L Xor vs vt)
        else if fn = 0x27 then set (bin64 L Xor (bin64 L Or vs vt) (- 1))
        else if fn = 0x10 then set (load_cell64 HiP fr)
        else if fn = 0x11 then Some (storeGuarded64 L pred HiP vs fr)
        else if fn = 0x12 then set (load_cell64 LoP fr)
        else if fn = 0x13 then Some (storeGuarded64 L pred LoP vs fr)
        else if fn = 0x18 then Some (emit_mult L pred rs rt fr)
        else if fn = 0x19 then Some (emit_multu L pred rs rt fr)
        else if fn = 0x1a \<or> fn = 0x1b then Some (emit_div L pred (fn = 0x1a) rs rt fr)
        else if fn = 0x2a then set (zext1_64 L (cmp64 L SLT vs vt))
        else if fn = 0x2b then set (zext1_64 L (cmp64 L ULT vs vt))
        else None)"

definition emitOne :: "llvm64 \<Rightarrow> predicate \<Rightarrow> u32 \<Rightarrow> 'x fnframe \<Rightarrow> 'x fnframe option" where
  "emitOne L pred insn fr =
    (let op = drop_bit 26 insn; rs = drop_bit 21 insn AND 31; rt = drop_bit 16 insn AND 31; imm = insn AND 0xffff;
         simm = scast (ucast imm :: u16) :: u64;
         vs = r_getGPR rs fr; vt = r_getGPR rt fr; ea = r_effAddr L insn fr;
         set = (\<lambda>v. Some (r_setGPR L pred rt v fr))
     in if op = 0x00 then emit_special L pred insn fr
        else if op = 0x09 then set (sext32_64 L (bin32 L Add (trunc64_32 L vs) (ucast simm)))
        else if op = 0x0a then set (zext1_64 L (cmp64 L SLT vs simm))
        else if op = 0x0b then set (zext1_64 L (cmp64 L ULT vs simm))
        else if op = 0x0c then set (bin64 L And vs (ucast imm))
        else if op = 0x0d then set (bin64 L Or vs (ucast imm))
        else if op = 0x0e then set (bin64 L Xor vs (ucast imm))
        else if op = 0x0f then set (scast (push_bit 16 imm))
        else if op = 0x20 then set (sext8_64 L (loadMem8 L ea fr))
        else if op = 0x21 then set (sext16_64 L (loadMem16 L ea fr))
        else if op = 0x23 then set (sext32_64 L (loadMem32 L ea fr))
        else if op = 0x24 then set (zext8_64 L (loadMem8 L ea fr))
        else if op = 0x25 then set (zext16_64 L (loadMem16 L ea fr))
        else if op = 0x27 then set (zext32_64 L (loadMem32 L ea fr))
        else if op = 0x37 then set (loadMem64 L ea fr)
        else if op = 0x28 then Some (storeMem8 L pred ea (trunc64_8 L vt) fr)
        else if op = 0x29 then Some (storeMem16 L pred ea (trunc64_16 L vt) fr)
        else if op = 0x2b then Some (storeMem32 L pred ea (trunc64_32 L vt) fr)
        else if op = 0x3f then Some (storeMem64 L pred ea vt fr)
        else if op = 0x31 then Some (storeGuarded32 L pred (fprHalfPtr rt) (loadMem32 L ea fr) fr)
        else if op = 0x35 then Some (storeGuarded64 L pred (fprDblPtr rt) (loadMem64 L ea fr) fr)
        else if op = 0x39 then Some (storeMem32 L pred ea (load_cell32 (fprHalfPtr rt) fr) fr)
        else if op = 0x3d then Some (storeMem64 L pred ea (load_cell64 (fprDblPtr rt) fr) fr)
        else if op = 0x11 then emitCop1 L pred insn fr
        else None)"

text \<open>Whether an instruction is translated is decided by its word alone.\<close>

definition plain_ok :: "u32 \<Rightarrow> bool" where
  "plain_ok insn =
    (let op = drop_bit 26 insn; rs = drop_bit 21 insn AND 31; fn = insn AND 0x3f
     in if op = 0x00 then fn \<in> {0x00, 0x02, 0x03, 0x04, 0x06, 0x07, 0x10, 0x11, 0x12, 0x13, 0x18, 0x19, 0x1a, 0x1b, 0x21, 0x23, 0x24, 0x25,
          0x26, 0x27, 0x2a, 0x2b}
        else if op = 0x11 then rs = 0x00 \<or> rs = 0x04 \<or>
          (rs = 0x10 \<and> (fn \<in> {0x00, 0x01, 0x02, 0x03, 0x05, 0x06, 0x07, 0x0d, 0x21} \<or> 0x30 \<le> fn \<and> fp_cond insn \<noteq> None)) \<or>
          (rs = 0x11 \<and> (fn \<in> {0x00, 0x01, 0x02, 0x03, 0x05, 0x06, 0x07, 0x0d, 0x20} \<or> 0x30 \<le> fn \<and> fp_cond insn \<noteq> None)) \<or>
          (rs = 0x14 \<and> (fn = 0x20 \<or> fn = 0x21))
        else op \<in> {0x09, 0x0a, 0x0b, 0x0c, 0x0d, 0x0e, 0x0f, 0x20, 0x21, 0x23, 0x24, 0x25, 0x27, 0x37, 0x28, 0x29, 0x2b, 0x3f, 0x31, 0x35,
          0x39, 0x3d})"

end
