(* ===== verification/R4300_Cfg.thy ===== *)
theory R4300_Cfg
  imports Rsp_State
begin

text \<open>
  Function discovery and control-flow graphs for MIPS III code, \<open>r4300cfg.cc\<close>: the decoder of
  control transfers, the reader of jump tables, \<open>build\<close>, which walks one function and cuts it into
  basic blocks, and \<open>discover\<close>, which follows the calls.  Guest memory is the caller's \<open>read\<close>
  function, as in the source.  The loops over it need not end (memory may be mapped and free of
  control transfers all the way round), so they return an option.
\<close>

type_synonym read_fn = "u32 \<Rightarrow> u32 option"

subsection \<open>Control transfers\<close>

datatype kind = Fall | Branch | Likely | Jump | Call | Jr | Jalr | Trap

record ctl =
  ctl_k :: kind
  ctl_target :: u32
  ctl_reg :: u32

definition decode_ctl :: "u32 \<Rightarrow> u32 \<Rightarrow> ctl" where
  "decode_ctl pc insn =
    (let c = \<lparr>ctl_k = Fall, ctl_target = 0, ctl_reg = 0\<rparr>;
         op = drop_bit 26 insn;
         rs = drop_bit 21 insn AND 31;
         rt = drop_bit 16 insn AND 31;
         simm = scast (ucast (insn AND 0xffff) :: 16 word) :: u32;
         btgt = pc + 4 + push_bit 2 simm;
         jtgt = (pc AND 0xf0000000) OR push_bit 2 (insn AND 0x3ffffff);
         likely_or_branch = (if rt AND 2 \<noteq> 0 then Likely else Branch)
     in if op = 0x00 then
          (let fn = insn AND 0x3f
           in if fn = 0x08 then c\<lparr>ctl_k := Jr, ctl_reg := rs\<rparr>
              else if fn = 0x09 then c\<lparr>ctl_k := Jalr, ctl_reg := rs\<rparr>
              else if fn = 0x0c \<or> fn = 0x0d then c\<lparr>ctl_k := Trap\<rparr>
              else c)
        else if op = 0x01 then
          (if rt AND 0x0c = 0x00 \<or> rt AND 0x0c = 0x10 then c\<lparr>ctl_k := likely_or_branch, ctl_target := btgt\<rparr> else c)
        else if op = 0x02 then c\<lparr>ctl_k := Jump, ctl_target := jtgt\<rparr>
        else if op = 0x03 then c\<lparr>ctl_k := Call, ctl_target := jtgt\<rparr>
        else if op = 0x04 \<or> op = 0x05 \<or> op = 0x06 \<or> op = 0x07 then c\<lparr>ctl_k := Branch, ctl_target := btgt\<rparr>
        else if op = 0x14 \<or> op = 0x15 \<or> op = 0x16 \<or> op = 0x17 then c\<lparr>ctl_k := Likely, ctl_target := btgt\<rparr>
        else if op = 0x11 then
          (if rs = 0x08 then c\<lparr>ctl_k := likely_or_branch, ctl_target := btgt\<rparr> else c)
        else c)"

subsection \<open>Jump tables\<close>

text \<open>The bound of the index: the \<open>sltiu\<close> in front of the \<open>lui\<close> at \<open>pc\<close>, zero if there is none.\<close>

partial_function (option) find_bound :: "read_fn \<Rightarrow> u32 \<Rightarrow> u32 \<Rightarrow> u32 option" where
  "find_bound read pc q =
    (if pc \<le> q + 64 then
       (case read q of
          None \<Rightarrow> Some 0
        | Some insn \<Rightarrow>
            if drop_bit 26 insn = 0x0b then Some (insn AND 0xffff)
            else find_bound read pc (q - 4))
     else Some 0)"

text \<open>
  The scan backwards from the \<open>jr\<close>: \<open>base\<close> is \<open>None\<close> until the \<open>lw\<close> has been seen.  The result is
  \<open>None\<close> when the scan ran into unmapped memory, else the base and the bound.
\<close>

partial_function (option) scan_table :: "read_fn \<Rightarrow> u32 \<Rightarrow> u32 \<Rightarrow> u32 \<Rightarrow> u32 option \<Rightarrow> (u32 option \<times> u32) option option" where
  "scan_table read jr_pc pc reg base =
    (if jr_pc \<le> pc + 64 then
       (case read pc of
          None \<Rightarrow> Some None
        | Some insn \<Rightarrow>
            let op = drop_bit 26 insn;
                rs = drop_bit 21 insn AND 31;
                rt = drop_bit 16 insn AND 31;
                imm = insn AND 0xffff
            in case base of
                 None \<Rightarrow>
                   if op = 0x23 \<and> rt = reg then scan_table read jr_pc (pc - 4) rs (Some (scast (ucast imm :: 16 word)))
                   else scan_table read jr_pc (pc - 4) reg base
               | Some b \<Rightarrow>
                   if op = 0x0f \<and> rt = reg then
                     Option.bind (find_bound read pc (pc - 4)) (\<lambda>count. Some (Some (Some (b + push_bit 16 imm), count)))
                   else scan_table read jr_pc (pc - 4) reg base)
     else Some (Some (base, 0)))"

text \<open>\<open>out\<close> keeps what was read before an unmapped entry.\<close>

fun read_table :: "read_fn \<Rightarrow> u32 \<Rightarrow> nat list \<Rightarrow> bool \<times> u32 list" where
  "read_table read base [] = (True, [])"
| "read_table read base (i # is) =
    (case read (base + of_nat i * 4) of
       None \<Rightarrow> (False, [])
     | Some e \<Rightarrow> (let (ok, es) = read_table read base is in (ok, e # es)))"

definition jump_table :: "read_fn \<Rightarrow> u32 \<Rightarrow> (bool \<times> u32 list) option" where
  "jump_table read jr_pc =
    (case read jr_pc of
       None \<Rightarrow> Some (False, [])
     | Some insn \<Rightarrow>
         Option.bind (scan_table read jr_pc (jr_pc - 4) (drop_bit 21 insn AND 31) None) (\<lambda>r.
           Some (case r of
             None \<Rightarrow> (False, [])
           | Some (None, count) \<Rightarrow> (False, [])
           | Some (Some base, count) \<Rightarrow>
               if count = 0 \<or> 256 < count then (False, [])
               else read_table read base [0..<unat count])))"

subsection \<open>Functions and blocks\<close>

record block =
  b_start :: u32
  b_end :: u32
  b_succs :: "u32 list"
  ends_call :: bool
  ends_return :: bool
  ends_trap :: bool
  ends_likely :: bool
  ends_indirect :: bool
  b_unresolved :: bool

record func =
  fn_entry :: u32
  leaf :: bool
  fn_blocks :: "u32 \<rightharpoonup> block"
  fn_calls :: "u32 set"
  indirect_sites :: "u32 set"
  unresolved_calls :: nat
  fn_n_insns :: nat

datatype problem = Unmapped_instruction | Jalr_without_target | Target_missing_from_table | Unresolved_jr

record cfg =
  rd :: read_fn
  hints :: "u32 \<rightharpoonup> u32 set"
  funcs :: "u32 \<rightharpoonup> func"
  problems :: "(u32 \<times> problem) list"
  n_jr_static :: nat
  n_jr_hint :: nat
  n_traps :: nat

subsection \<open>Pass one: finding the leaders\<close>

text \<open>The locals of \<open>build\<close> that pass one works on, with the object it is a method of.\<close>

record pass1 =
  p_cfg :: cfg
  p_fn :: func
  p_leaders :: "u32 set"
  p_ends :: "u32 set"
  p_edges :: "u32 \<rightharpoonup> u32 list"
  p_work :: "u32 list"
  p_seen :: "u32 set"
  p_terms :: "u32 set"

definition problem_at :: "u32 \<Rightarrow> problem \<Rightarrow> pass1 \<Rightarrow> pass1" where
  "problem_at pc what st = st\<lparr>p_cfg := (p_cfg st)\<lparr>problems := problems (p_cfg st) @ [(pc, what)]\<rparr>\<rparr>"

definition add_succ :: "u32 \<Rightarrow> u32 \<Rightarrow> pass1 \<Rightarrow> pass1" where
  "add_succ after t st =
    st\<lparr>p_edges := (p_edges st)(after \<mapsto> (case p_edges st after of None \<Rightarrow> [] | Some s \<Rightarrow> s) @ [t]),
       p_leaders := insert t (p_leaders st), p_work := p_work st @ [t]\<rparr>"

text \<open>\<open>edges[after]\<close> makes an empty entry.\<close>

definition open_edges :: "u32 \<Rightarrow> u32 \<Rightarrow> pass1 \<Rightarrow> pass1" where
  "open_edges pc after st =
    st\<lparr>p_terms := insert pc (p_terms st), p_ends := insert after (p_ends st),
       p_edges := (p_edges st)(after \<mapsto> (case p_edges st after of None \<Rightarrow> [] | Some s \<Rightarrow> s))\<rparr>"

definition jr_targets :: "u32 \<Rightarrow> bool \<Rightarrow> u32 list \<Rightarrow> pass1 \<Rightarrow> u32 list \<times> pass1" where
  "jr_targets pc static tgts st =
    (let hint = hints (p_cfg st) pc
     in if static then
          (let st = st\<lparr>p_cfg := (p_cfg st)\<lparr>n_jr_static := n_jr_static (p_cfg st) + 1\<rparr>\<rparr>
           in (tgts, case hint of
                None \<Rightarrow> st
              | Some ts \<Rightarrow> fold (\<lambda>t st. if t \<in> set tgts then st else problem_at pc Target_missing_from_table st) (sorted_list_of_set ts) st))
        else case hint of
          Some ts \<Rightarrow> (sorted_list_of_set ts, st\<lparr>p_cfg := (p_cfg st)\<lparr>n_jr_hint := n_jr_hint (p_cfg st) + 1\<rparr>\<rparr>)
        | None \<Rightarrow> (tgts, problem_at pc Unresolved_jr st))"

definition terminator :: "u32 \<Rightarrow> ctl \<Rightarrow> pass1 \<Rightarrow> pass1 option" where
  "terminator pc c st =
    (let after = pc + 8;
         st = open_edges pc after st
     in case ctl_k c of
          Jump \<Rightarrow> Some (add_succ after (ctl_target c) st)
        | Call \<Rightarrow>
            Some (add_succ after after (st\<lparr>p_fn := (p_fn st)\<lparr>leaf := False, fn_calls := insert (ctl_target c) (fn_calls (p_fn st))\<rparr>\<rparr>))
        | Jalr \<Rightarrow>
            (let st = st\<lparr>p_fn := (p_fn st)\<lparr>leaf := False, indirect_sites := insert pc (indirect_sites (p_fn st))\<rparr>\<rparr>;
                 st = (case hints (p_cfg st) pc of
                         Some ts \<Rightarrow> st\<lparr>p_fn := (p_fn st)\<lparr>fn_calls := fn_calls (p_fn st) \<union> ts\<rparr>\<rparr>
                       | None \<Rightarrow> problem_at pc Jalr_without_target st)
             in Some (add_succ after after st))
        | Jr \<Rightarrow>
            if ctl_reg c = 31 then Some st
            else Option.bind (jump_table (rd (p_cfg st)) pc) (\<lambda>(static, tgts).
              Some (let (tgts, st) = jr_targets pc static tgts st in fold (add_succ after) tgts st))
        | _ \<Rightarrow> Some (add_succ after after (add_succ after (ctl_target c) st)))"

text \<open>One straight-line run.\<close>

partial_function (option) walk_run :: "u32 \<Rightarrow> pass1 \<Rightarrow> pass1 option" where
  "walk_run pc st =
    (case rd (p_cfg st) pc of
       None \<Rightarrow> Some (let st = problem_at pc Unmapped_instruction st in st\<lparr>p_ends := insert pc (p_ends st)\<rparr>)
     | Some insn \<Rightarrow>
         let c = decode_ctl pc insn
         in if ctl_k c = Fall then walk_run (pc + 4) st
            else if ctl_k c = Trap then Some (st\<lparr>p_cfg := (p_cfg st)\<lparr>n_traps := n_traps (p_cfg st) + 1\<rparr>\<rparr>)
            else if pc \<in> p_terms st then Some st
            else terminator pc c st)"

partial_function (option) walk_all :: "pass1 \<Rightarrow> pass1 option" where
  "walk_all st =
    (case p_work st of
       [] \<Rightarrow> Some st
     | pc # rest \<Rightarrow>
         let st = st\<lparr>p_work := rest\<rparr>
         in if pc \<in> p_seen st then walk_all st
            else Option.bind (walk_run pc (st\<lparr>p_seen := insert pc (p_seen st)\<rparr>)) (\<lambda>st. walk_all st))"

subsection \<open>Pass two: cutting blocks\<close>

text \<open>The end of the block, and the control transfer it ends with unless it runs into the next block.\<close>

partial_function (option) cut_block :: "read_fn \<Rightarrow> u32 set \<Rightarrow> u32 \<Rightarrow> (u32 \<times> ctl option) option" where
  "cut_block read bounds pc =
    (case read pc of
       None \<Rightarrow> Some (pc, None)
     | Some insn \<Rightarrow>
         let c = decode_ctl pc insn
         in if ctl_k c = Trap then Some (pc + 4, Some c)
            else if ctl_k c \<noteq> Fall then Some (pc + 8, Some c)
            else if pc + 4 \<in> bounds then Some (pc + 4, None)
            else cut_block read bounds (pc + 4))"

definition make_block :: "pass1 \<Rightarrow> u32 \<Rightarrow> u32 \<Rightarrow> ctl option \<Rightarrow> block" where
  "make_block st start pc tm =
    (let k = map_option ctl_k tm;
         succs = (case tm of None \<Rightarrow> [pc] | Some _ \<Rightarrow> (case p_edges st pc of None \<Rightarrow> [] | Some s \<Rightarrow> s));
         indirect = (case tm of Some c \<Rightarrow> ctl_k c = Jr \<and> ctl_reg c \<noteq> 31 | None \<Rightarrow> False)
     in \<lparr>b_start = start, b_end = pc, b_succs = succs,
         ends_call = (k = Some Call \<or> k = Some Jalr),
         ends_return = (case tm of Some c \<Rightarrow> ctl_k c = Jr \<and> ctl_reg c = 31 | None \<Rightarrow> False),
         ends_trap = (k = Some Trap), ends_likely = (k = Some Likely), ends_indirect = indirect,
         b_unresolved = ((k = Some Jalr \<and> hints (p_cfg st) (pc - 8) = None) \<or> (indirect \<and> succs = []))\<rparr>)"

definition add_block :: "pass1 \<Rightarrow> u32 \<Rightarrow> func \<Rightarrow> func option" where
  "add_block st start fn =
    (if start \<notin> p_seen st then Some fn
     else map_option (\<lambda>(pc, tm).
       (let b = make_block st start pc tm
        in fn\<lparr>unresolved_calls := unresolved_calls fn +
                (if map_option ctl_k tm = Some Jalr \<and> hints (p_cfg st) (pc - 8) = None then 1 else 0),
              fn_n_insns := fn_n_insns fn + unat ((b_end b - b_start b) div 4),
              fn_blocks := (fn_blocks fn)(start \<mapsto> b)\<rparr>))
       (cut_block (rd (p_cfg st)) (p_leaders st \<union> p_ends st) start))"

fun add_blocks :: "pass1 \<Rightarrow> u32 list \<Rightarrow> func \<Rightarrow> func option" where
  "add_blocks st [] fn = Some fn"
| "add_blocks st (start # starts) fn = Option.bind (add_block st start fn) (add_blocks st starts)"

definition pass1_init :: "u32 \<Rightarrow> cfg \<Rightarrow> pass1" where
  "pass1_init entry g =
    \<lparr>p_cfg = g,
     p_fn = \<lparr>fn_entry = entry, leaf = True, fn_blocks = Map.empty, fn_calls = {}, indirect_sites = {},
       unresolved_calls = 0, fn_n_insns = 0\<rparr>,
     p_leaders = {entry}, p_ends = {}, p_edges = Map.empty, p_work = [entry], p_seen = {}, p_terms = {}\<rparr>"

definition build :: "u32 \<Rightarrow> cfg \<Rightarrow> cfg option" where
  "build entry g =
    Option.bind (walk_all (pass1_init entry g)) (\<lambda>st.
      map_option (\<lambda>fn. (p_cfg st)\<lparr>funcs := (funcs (p_cfg st))(entry \<mapsto> fn)\<rparr>)
        (add_blocks st (sorted_list_of_set (p_leaders st)) (p_fn st)))"

subsection \<open>Following the calls\<close>

partial_function (option) discover_from :: "u32 list \<Rightarrow> cfg \<Rightarrow> cfg option" where
  "discover_from work g =
    (case work of
       [] \<Rightarrow> Some g
     | f # rest \<Rightarrow>
         if f \<in> dom (funcs g) then discover_from rest g
         else Option.bind (build f g) (\<lambda>g.
           discover_from (rest @ (case funcs g f of
               None \<Rightarrow> []
             | Some fn \<Rightarrow> filter (\<lambda>callee. callee \<notin> dom (funcs g)) (sorted_list_of_set (fn_calls fn)))) g))"

definition discover :: "u32 list \<Rightarrow> cfg \<Rightarrow> cfg option" where
  "discover roots g = discover_from roots g"

end
