(* ===== verification/R4300_Bt.thy ===== *)
theory R4300_Bt
  imports R4300_Emit R4300_Cfg
begin

text \<open>
  The R4300 translator, \<open>r4300bt.cc\<close>: calls out of translated code, \<open>emitBody\<close> for a function of the
  control-flow graph, and \<open>translate\<close> and \<open>run\<close>.  The interpreter's \<open>execMips\<close> is an argument: a step on
  \<open>state_t\<close> and guest memory.
\<close>

type_synonym 'x machine = "'x state_t_scheme \<times> (nat \<Rightarrow> u8)"

datatype bt_error = Never_returned u32 | Not_translated u32

subsection \<open>Calls\<close>

text \<open>The loop of \<open>r4300bt_call\<close>, with what is left of its budget.\<close>

fun interp_loop :: "('x machine \<Rightarrow> 'x machine) \<Rightarrow> u32 \<Rightarrow> u32 \<Rightarrow> nat \<Rightarrow> 'x machine \<Rightarrow> bt_error + 'x machine" where
  "interp_loop execMips target link 0 m = Inl (Never_returned target)"
| "interp_loop execMips target link (Suc n) m =
    (if ucast (s_pc (fst m)) = link then Inr m
     else (let m = execMips m in if n = 0 then Inl (Never_returned target) else interp_loop execMips target link n m))"

definition r4300bt_call :: "('x machine \<Rightarrow> 'x machine) \<Rightarrow> u32 \<Rightarrow> u32 \<Rightarrow> 'x machine \<Rightarrow> bt_error + 'x machine" where
  "r4300bt_call execMips target link m =
    (case m of (s, mem) \<Rightarrow> interp_loop execMips target link (2 ^ 32) (s\<lparr>s_pc := scast target\<rparr>, mem))"

definition spillGPRs :: "'x fnframe \<Rightarrow> 'x fnframe" where
  "spillGPRs fr = fr\<lparr>st := (st fr)\<lparr>s_gpr := (\<lambda>i. if 1 \<le> i \<and> i < 32 then slot fr i else s_gpr (st fr) i)\<rparr>\<rparr>"

definition reloadGPRs :: "'x fnframe \<Rightarrow> 'x fnframe" where
  "reloadGPRs fr = fr\<lparr>slot := (\<lambda>i. if 1 \<le> i \<and> i < 32 then s_gpr (st fr) i else slot fr i)\<rparr>"

text \<open>The machine a callee works on is the caller's.\<close>

definition on_machine :: "('x machine \<Rightarrow> bt_error + 'x machine) \<Rightarrow> 'x fnframe \<Rightarrow> bt_error + 'x fnframe" where
  "on_machine f fr = map_sum id (\<lambda>(s, mem). fr\<lparr>st := s, ram := mem\<rparr>) (f (st fr, ram fr))"

text \<open>
  What calling the translated function of an entry gives: the pc it returns with the machine, or
  the end of the process.  \<open>None\<close>: it does not return.
\<close>

type_synonym 'x callee = "u32 \<Rightarrow> 'x machine \<Rightarrow> (bt_error + u32 \<times> 'x machine) option"

definition emitDirectCall :: "llvm64 \<Rightarrow> ('x machine \<Rightarrow> 'x machine) \<Rightarrow> 'x callee \<Rightarrow> u32 \<Rightarrow> u32 \<Rightarrow> 'x fnframe \<Rightarrow> (bt_error + 'x fnframe) option" where
  "emitDirectCall L execMips call callee link fr =
    map_option (\<lambda>res. case res of
        Inl e \<Rightarrow> Inl e
      | Inr (r, s, mem) \<Rightarrow>
          (let fr = fr\<lparr>st := s, ram := mem\<rparr>
           in if cmp32 L NE r 0 then on_machine (r4300bt_call execMips r link) fr else Inr fr))
      (call callee (st fr, ram fr))"

definition emitCall :: "llvm64 \<Rightarrow> ('x machine \<Rightarrow> 'x machine) \<Rightarrow> 'x callee \<Rightarrow> u32 \<Rightarrow> u32 \<Rightarrow> bool \<Rightarrow> 'x fnframe \<Rightarrow> (bt_error + 'x fnframe) option" where
  "emitCall L execMips call target link direct fr =
    (let fr = spillGPRs fr
     in map_option (map_sum id reloadGPRs)
          (if direct then emitDirectCall L execMips call target link fr
           else Some (on_machine (r4300bt_call execMips target link) fr)))"

fun icall_chain :: "llvm64 \<Rightarrow> ('x machine \<Rightarrow> 'x machine) \<Rightarrow> 'x callee \<Rightarrow> u32 set \<Rightarrow> u32 \<Rightarrow> u32 \<Rightarrow> u32 list \<Rightarrow> 'x fnframe \<Rightarrow> (bt_error + 'x fnframe) option" where
  "icall_chain L execMips call decls target link [] fr = Some (on_machine (r4300bt_call execMips target link) fr)"
| "icall_chain L execMips call decls target link (t # ts) fr =
    (if t \<notin> decls then icall_chain L execMips call decls target link ts fr
     else if cmp32 L EQ target t then emitDirectCall L execMips call t link fr
     else icall_chain L execMips call decls target link ts fr)"

definition emitIndirectCall :: "llvm64 \<Rightarrow> ('x machine \<Rightarrow> 'x machine) \<Rightarrow> 'x callee \<Rightarrow> u32 set \<Rightarrow> u32 \<Rightarrow> u32 \<Rightarrow> u32 set \<Rightarrow> 'x fnframe \<Rightarrow> (bt_error + 'x fnframe) option" where
  "emitIndirectCall L execMips call decls target link tgts fr =
    map_option (map_sum id reloadGPRs) (icall_chain L execMips call decls target link (sorted_list_of_set tgts) (spillGPRs fr))"

subsection \<open>Branches\<close>

text \<open>The condition of a conditional branch; other words have none.\<close>

definition branchCond :: "llvm64 \<Rightarrow> u32 \<Rightarrow> 'x fnframe \<Rightarrow> bool" where
  "branchCond L insn fr =
    (let op = drop_bit 26 insn; rs = drop_bit 21 insn AND 31; rt = drop_bit 16 insn AND 31;
         vs = r_getGPR rs fr; vt = r_getGPR rt fr
     in if op = 0x04 \<or> op = 0x14 then cmp64 L EQ vs vt
        else if op = 0x05 \<or> op = 0x15 then cmp64 L NE vs vt
        else if op = 0x06 \<or> op = 0x16 then cmp64 L SLE vs 0
        else if op = 0x07 \<or> op = 0x17 then cmp64 L SGT vs 0
        else if op = 0x01 then (if rt AND 1 = 0 then cmp64 L SLT vs 0 else cmp64 L SGE vs 0)
        else if op = 0x11 then
          (let cc = unat (drop_bit 18 insn AND 7);
               isSet = cmp32 L NE (bin32 L And (load_cell32 FccP fr) (push_bit cc 1)) 0
           in if rt AND 1 \<noteq> 0 then isSet else bin1 L Xor isSet True)
        else False)"

definition isCtl :: "u32 \<Rightarrow> bool" where
  "isCtl insn =
    (let op = drop_bit 26 insn; rs = drop_bit 21 insn AND 31; fn = insn AND 0x3f
     in op = 0x02 \<or> op = 0x03 \<or> (0x04 \<le> op \<and> op \<le> 0x07) \<or> op = 0x01 \<or> (0x14 \<le> op \<and> op \<le> 0x17) \<or>
        (op = 0x11 \<and> rs = 0x08) \<or> (op = 0x00 \<and> (fn = 0x08 \<or> fn = 0x09)))"

definition is_likely :: "u32 \<Rightarrow> bool" where
  "is_likely insn =
    (let op = drop_bit 26 insn
     in (0x14 \<le> op \<and> op \<le> 0x17) \<or> (op = 0x01 \<and> drop_bit 16 insn AND 0x02 \<noteq> 0) \<or> (op = 0x11 \<and> drop_bit 16 insn AND 0x02 \<noteq> 0))"

text \<open>
  How the code of a block is left: to another block, through the exit block, or with a call to
  make (the target, the link address) after which the block at the link address, or for a tail
  call the exit block, follows.
\<close>

datatype 'x leaving =
    Goes u32 "'x fnframe"
  | Leaves "'x fnframe"
  | Calls u32 u32 "'x fnframe"
  | Calls_one_of "u32 set" u32 u32 "'x fnframe"
  | Calls_unknown u32 u32 "'x fnframe"
  | Tail_calls u32 u32 "'x fnframe"

definition bailTo :: "u32 \<Rightarrow> 'x fnframe \<Rightarrow> 'x leaving" where
  "bailTo pc fr = Leaves (fr\<lparr>bail := pc\<rparr>)"

text \<open>The end of a control transfer once its slot has run: \<open>cond\<close> and \<open>jrTarget\<close> are from before it.\<close>

definition emit_transfer :: "llvm64 \<Rightarrow> cfg \<Rightarrow> func \<Rightarrow> block \<Rightarrow> u32 \<Rightarrow> u32 \<Rightarrow> bool \<Rightarrow> u64 \<Rightarrow> 'x fnframe \<Rightarrow> 'x leaving" where
  "emit_transfer L g gf blk pc insn cond jrTarget fr =
    (let op = drop_bit 26 insn; fn = insn AND 0x3f; rs = drop_bit 21 insn AND 31;
         link = pc + 8;
         jtgt = (pc AND 0xf0000000) OR push_bit 2 (insn AND 0x3ffffff);
         t32 = trunc64_32 L jrTarget
     in if op = 0x02 then
          (if fn_blocks gf jtgt \<noteq> None then Goes jtgt fr else Tail_calls jtgt link fr)
        else if op = 0x03 then Calls jtgt link fr
        else if op = 0x00 \<and> fn = 0x09 then
          (case hints g pc of
             Some tgts \<Rightarrow> Calls_one_of tgts t32 link fr
           | None \<Rightarrow> Calls_unknown t32 link fr)
        else if op = 0x00 then
          (if rs = 31 then bailTo 0 fr
           else if b_succs blk \<noteq> [] then
             (if t32 \<in> set (b_succs blk) then Goes t32 fr else bailTo t32 (spillGPRs fr))
           else bailTo t32 (spillGPRs fr))
        else (let tgt = pc + 4 + push_bit 2 (scast (ucast (insn AND 0xffff) :: u16))
              in Goes (if cond then tgt else link) fr))"

definition emit_control :: "llvm64 \<Rightarrow> cfg \<Rightarrow> func \<Rightarrow> block \<Rightarrow> u32 \<Rightarrow> u32 \<Rightarrow> 'x fnframe \<Rightarrow> 'x leaving" where
  "emit_control L g gf blk pc insn fr =
    (let op = drop_bit 26 insn; fn = insn AND 0x3f; rs = drop_bit 21 insn AND 31; rt = drop_bit 16 insn AND 31
     in case rd g (pc + 4) of
          None \<Rightarrow> bailTo pc fr
        | Some slot_insn \<Rightarrow>
            if op = 0x01 \<and> 3 < rt then bailTo pc fr
            else
              (let likely = is_likely insn;
                   cond = branchCond L insn fr;
                   jrTarget = r_getGPR rs fr;
                   fr = (if op = 0x03 \<or> (op = 0x00 \<and> fn = 0x09) then r_setGPR L None 31 (scast (pc + 8)) fr else fr);
                   pred = (if likely then Some cond else None)
               in case (if slot_insn = 0 then Some fr else emitOne L pred slot_insn fr) of
                    None \<Rightarrow> bailTo pc fr
                  | Some fr \<Rightarrow> emit_transfer L g gf blk pc insn cond jrTarget fr))"

subsection \<open>Blocks and functions\<close>

text \<open>The code of a block from \<open>pc\<close> on; \<open>None\<close> if generating it does not end.\<close>

partial_function (option) emit_block :: "llvm64 \<Rightarrow> cfg \<Rightarrow> func \<Rightarrow> block \<Rightarrow> u32 \<Rightarrow> 'x fnframe \<Rightarrow> 'x leaving option" where
  "emit_block L g gf blk pc fr =
    (if pc < b_end blk then
       (case rd g pc of
          None \<Rightarrow> Some (bailTo pc fr)
        | Some insn \<Rightarrow>
            if isCtl insn then Some (emit_control L g gf blk pc insn fr)
            else (case emitOne L None insn fr of
                    None \<Rightarrow> Some (bailTo pc fr)
                  | Some fr \<Rightarrow> emit_block L g gf blk (pc + 4) fr))
     else Some (Goes (b_end blk) fr))"

text \<open>
  Running from block to block, with \<open>n\<close> for the blocks and calls.  A block the graph does not have leaves
  through the interpreter.
\<close>

fun run_body :: "llvm64 \<Rightarrow> ('x machine \<Rightarrow> 'x machine) \<Rightarrow> 'x callee \<Rightarrow> cfg \<Rightarrow> u32 set \<Rightarrow> func \<Rightarrow> nat \<Rightarrow> 'x leaving \<Rightarrow> (bt_error + 'x fnframe) option" where
  "run_body L execMips call g decls gf n (Leaves fr) = Some (Inr fr)"
| "run_body L execMips call g decls gf 0 out = None"
| "run_body L execMips call g decls gf (Suc n) (Goes t fr) =
    (case fn_blocks gf t of
       None \<Rightarrow> Some (Inr ((spillGPRs fr)\<lparr>bail := t\<rparr>))
     | Some blk \<Rightarrow> Option.bind (emit_block L g gf blk (b_start blk) fr) (run_body L execMips call g decls gf n))"
| "run_body L execMips call g decls gf (Suc n) (Calls target link fr) =
    Option.bind (emitCall L execMips call target link (target \<in> decls) fr)
      (\<lambda>res. case res of Inl e \<Rightarrow> Some (Inl e) | Inr fr \<Rightarrow> run_body L execMips call g decls gf n (Goes link fr))"
| "run_body L execMips call g decls gf (Suc n) (Calls_one_of tgts target link fr) =
    Option.bind (emitIndirectCall L execMips call decls target link tgts fr)
      (\<lambda>res. case res of Inl e \<Rightarrow> Some (Inl e) | Inr fr \<Rightarrow> run_body L execMips call g decls gf n (Goes link fr))"
| "run_body L execMips call g decls gf (Suc n) (Calls_unknown target link fr) =
    Option.bind (emitCall L execMips call target link False fr)
      (\<lambda>res. case res of Inl e \<Rightarrow> Some (Inl e) | Inr fr \<Rightarrow> run_body L execMips call g decls gf n (Goes link fr))"
| "run_body L execMips call g decls gf (Suc n) (Tail_calls target link fr) =
    map_option (map_sum id (\<lambda>fr. fr\<lparr>bail := 0\<rparr>)) (emitCall L execMips call target link (target \<in> decls) fr)"

text \<open>A translated function: it returns the pc to go on at, zero if it returned.\<close>

definition enter_frame :: "'x machine \<Rightarrow> 'x fnframe" where
  "enter_frame m = (case m of (s, mem) \<Rightarrow> reloadGPRs \<lparr>slot = (\<lambda>_. 0), bail = 0, st = s, ram = mem\<rparr>)"

definition leave_frame :: "'x fnframe \<Rightarrow> u32 \<times> 'x machine" where
  "leave_frame fr = (let fr = spillGPRs fr in (bail fr, st fr, ram fr))"

definition emitBody :: "llvm64 \<Rightarrow> ('x machine \<Rightarrow> 'x machine) \<Rightarrow> 'x callee \<Rightarrow> cfg \<Rightarrow> u32 set \<Rightarrow> func \<Rightarrow> u32 \<Rightarrow> nat \<Rightarrow> 'x machine \<Rightarrow> (bt_error + u32 \<times> 'x machine) option" where
  "emitBody L execMips call g decls gf entry n m =
    map_option (map_sum id leave_frame) (run_body L execMips call g decls gf n (Goes entry (enter_frame m)))"

text \<open>The functions of a module, \<open>n\<close> calls deep.\<close>

fun r4300_fn :: "llvm64 \<Rightarrow> ('x machine \<Rightarrow> 'x machine) \<Rightarrow> cfg \<Rightarrow> u32 set \<Rightarrow> nat \<Rightarrow> 'x callee" where
  "r4300_fn L execMips g decls 0 entry m = None"
| "r4300_fn L execMips g decls (Suc n) entry m =
    (case funcs g entry of
       None \<Rightarrow> None
     | Some gf \<Rightarrow> emitBody L execMips (r4300_fn L execMips g decls n) g decls gf entry n m)"

subsection \<open>The translator\<close>

text \<open>\<open>fns\<close>: for every translated entry the graph and the declarations of its module.\<close>

record r4300bt =
  fns :: "u32 \<rightharpoonup> cfg \<times> u32 set"
  n_bails :: u64

definition r4300bt_new :: r4300bt where
  "r4300bt_new = \<lparr>fns = Map.empty, n_bails = 0\<rparr>"

definition decls_of :: "cfg \<Rightarrow> u32 list \<Rightarrow> u32 set" where
  "decls_of g entries = {e \<in> set entries. funcs g e \<noteq> None}"

definition r_translate :: "cfg \<Rightarrow> u32 list \<Rightarrow> r4300bt \<Rightarrow> r4300bt" where
  "r_translate g entries b =
    (let decls = decls_of g entries in b\<lparr>fns := (\<lambda>e. if e \<in> decls then Some (g, decls) else fns b e)\<rparr>)"

definition have_fn :: "r4300bt \<Rightarrow> u32 \<Rightarrow> bool" where
  "have_fn b entry \<longleftrightarrow> fns b entry \<noteq> None"

text \<open>The entry must have been translated: otherwise the program calls a null pointer.\<close>

definition r_run :: "llvm64 \<Rightarrow> ('x machine \<Rightarrow> 'x machine) \<Rightarrow> nat \<Rightarrow> 'x machine \<Rightarrow> u32 \<Rightarrow> r4300bt \<Rightarrow> (bt_error + u32 \<times> 'x machine \<times> r4300bt) option" where
  "r_run L execMips n m entry b =
    (case fns b entry of
       None \<Rightarrow> Some (Inl (Not_translated entry))
     | Some (g, decls) \<Rightarrow>
         map_option (map_sum id (\<lambda>(r, m). (r, m, if r \<noteq> 0 then b\<lparr>n_bails := n_bails b + 1\<rparr> else b)))
           (r4300_fn L execMips g decls n entry m))"

end
