(* ===== verification/R4300_Pred.thy ===== *)
theory R4300_Pred
  imports R4300_Emit
begin

text \<open>
  Predicated code: which words \<open>emitOne\<close> translates, and what the code it emits does under the
  predicate of a likely branch.
\<close>

subsection \<open>The documented meaning as rewrite rules\<close>

lemma truncate_simps [simp]:
  "bin1 (llvm.truncate L) = bin1 L" "bin32 (llvm.truncate L) = bin32 L" "bin64 (llvm.truncate L) = bin64 L"
  "cmp32 (llvm.truncate L) = cmp32 L" "cmp64 (llvm.truncate L) = cmp64 L" "zext1_64 (llvm.truncate L) = zext1_64 L"
  "zext16_64 (llvm.truncate L) = zext16_64 L" "sext16_64 (llvm.truncate L) = sext16_64 L" "trunc64_16 (llvm.truncate L) = trunc64_16 L"
  "bswap16 (llvm.truncate L) = bswap16 L" "bswap32 (llvm.truncate L) = bswap32 L" "load16 (llvm.truncate L) = load16 L"
  "load32 (llvm.truncate L) = load32 L" "bytes16 (llvm.truncate L) = bytes16 L" "bytes32 (llvm.truncate L) = bytes32 L"
  by (simp_all add: llvm.truncate_def)

lemma llvm64_base: "llvm64_doc L \<Longrightarrow> llvm_doc (llvm.truncate L)"
  by (simp add: llvm64_doc_def)

lemmas llvm64_old = llvm_laws [OF llvm64_base, simplified] llvm_cmp [OF llvm64_base, simplified]
  llvm_casts [OF llvm64_base, simplified] llvm_bytes [OF llvm64_base, simplified]

lemma llvm64_casts:
  assumes "llvm64_doc L"
  shows "zext8_64 L b = ucast b" "zext32_64 L w = ucast w" "sext8_64 L b = scast b" "sext32_64 L w = scast w"
    "trunc64_8 L d = ucast d" "trunc64_32 L d = ucast d" "sel32 L p w w' = (if p then w else w')" "sel64 L p d d' = (if p then d else d')"
    "load64 L m = le64 m" "k < 8 \<Longrightarrow> bytes64 L d k = byte_of k d"
  using assms by (simp_all add: llvm64_doc_def)

lemma llvm64_more:
  assumes "llvm64_doc L"
  shows "bin64 L Xor u v = u XOR v" "cmp64 L EQ u v = (u = v)" "cmp64 L SLE u v = (u <=s v)" "cmp64 L SGE u v = (v <=s u)"
    "cmp64 L ULT u v = (u < v)"
  using llvm64_base [OF assms] by (simp_all add: llvm_doc_def gives_def doc_bin_def doc_cmp_def)

subsection \<open>Predicated effects\<close>

text \<open>Equal but for the bytes of the bit bucket.\<close>

definition same_but_bucket :: "'x fnframe \<Rightarrow> 'x fnframe \<Rightarrow> bool" where
  "same_but_bucket fr fr' \<longleftrightarrow> fr' = fr\<lparr>ram := ram fr'\<rparr> \<and>
    (\<forall>i. i < unat BITBUCKET_PA \<or> unat BITBUCKET_PA + 8 \<le> i \<longrightarrow> ram fr' i = ram fr i)"

lemma same_but_bucket_refl [simp]: "same_but_bucket fr fr"
  by (simp add: same_but_bucket_def)

lemma store_load_cell64: "store_cell64 p (load_cell64 p fr) fr = fr"
  by (cases p) simp_all

lemma halves: "(v AND push_bit 32 (mask 32)) OR ucast (ucast v :: u32) = v" "(v AND mask 32) OR push_bit 32 (ucast (ucast (drop_bit 32 v) :: u32)) = v" for v :: u64
  by (rule bit_word_eqI; auto simp: bit_simps)+

lemma store_load_cell32: "store_cell32 p (load_cell32 p fr) fr = fr"
  by (cases p) (simp_all add: halves store_load_cell64)

lemma squashed:
  assumes "llvm64_doc L"
  shows "r_setGPR L (Some False) r v fr = fr" "storeGuarded64 L (Some False) p v fr = fr" "storeGuarded32 L (Some False) q w fr = fr"
    "store_pa L (Some False) ea = BITBUCKET_PA"
  by (simp_all add: r_setGPR_def storeGuarded64_def storeGuarded32_def store_pa_def Let_def llvm64_casts [OF assms]
    store_load_cell64 store_load_cell32)

lemma committed:
  assumes "llvm64_doc L"
  shows "r_setGPR L (Some True) r v fr = r_setGPR L None r v fr" "storeGuarded64 L (Some True) p v fr = storeGuarded64 L None p v fr"
    "storeGuarded32 L (Some True) q w fr = storeGuarded32 L None q w fr" "store_pa L (Some True) ea = store_pa L None ea"
  by (simp_all add: r_setGPR_def storeGuarded64_def storeGuarded32_def store_pa_def Let_def llvm64_casts [OF assms])

lemma put_in_bucket: "n \<le> 8 \<Longrightarrow> same_but_bucket fr (ram_put BITBUCKET_PA n bytes fr)"
  by (auto simp: same_but_bucket_def ram_put_def)

lemmas pred_defs = setF32_def setF64_def set_fcc_def put_product_def emit_mult_def emit_multu_def emit_div_def
  storeMem8_def storeMem16_def storeMem32_def storeMem64_def

lemma squashed_fmt:
  assumes "llvm64_doc L"
  shows "emit_fmt_s L (Some False) insn fr = Some fr' \<Longrightarrow> fr' = fr" "emit_fmt_d L (Some False) insn fr = Some fr' \<Longrightarrow> fr' = fr"
    "emit_fmt_w L (Some False) insn fr = Some fr' \<Longrightarrow> fr' = fr"
  by (auto simp: emit_fmt_s_def emit_fmt_d_def emit_fmt_w_def Let_def pred_defs squashed [OF assms] split: if_splits)

lemma squashed_special: "llvm64_doc L \<Longrightarrow> emit_special L (Some False) insn fr = Some fr' \<Longrightarrow> fr' = fr"
  by (auto simp: emit_special_def Let_def pred_defs squashed split: if_splits)

lemma committed_parts:
  assumes "llvm64_doc L"
  shows "emit_fmt_s L (Some True) insn fr = emit_fmt_s L None insn fr" "emit_fmt_d L (Some True) insn fr = emit_fmt_d L None insn fr"
    "emit_fmt_w L (Some True) insn fr = emit_fmt_w L None insn fr" "emit_special L (Some True) insn fr = emit_special L None insn fr"
  by (simp_all add: emit_fmt_s_def emit_fmt_d_def emit_fmt_w_def emit_special_def Let_def pred_defs committed [OF assms] cong: if_cong)

lemma fmt_ok:
  "emit_fmt_s L pred insn fr \<noteq> None \<longleftrightarrow> insn AND 0x3f \<in> {0x00, 0x01, 0x02, 0x03, 0x05, 0x06, 0x07, 0x0d, 0x21} \<or> 0x30 \<le> insn AND 0x3f \<and> fp_cond insn \<noteq> None"
  "emit_fmt_d L pred insn fr \<noteq> None \<longleftrightarrow> insn AND 0x3f \<in> {0x00, 0x01, 0x02, 0x03, 0x05, 0x06, 0x07, 0x0d, 0x20} \<or> 0x30 \<le> insn AND 0x3f \<and> fp_cond insn \<noteq> None"
  "emit_fmt_w L pred insn fr \<noteq> None \<longleftrightarrow> insn AND 0x3f \<in> {0x20, 0x21}"
  by (auto simp: emit_fmt_s_def emit_fmt_d_def emit_fmt_w_def Let_def)

lemma special_ok: "emit_special L pred insn fr \<noteq> None \<longleftrightarrow>
    insn AND 0x3f \<in> {0x00, 0x02, 0x03, 0x04, 0x06, 0x07, 0x10, 0x11, 0x12, 0x13, 0x18, 0x19, 0x1a, 0x1b, 0x21, 0x23, 0x24, 0x25, 0x26, 0x27, 0x2a, 0x2b}"
  by (simp add: emit_special_def Let_def)

lemma cop1_ok: "emitCop1 L pred insn fr \<noteq> None \<longleftrightarrow>
   (let rs = drop_bit 21 insn AND 31; fn = insn AND 0x3f
    in rs = 0x00 \<or> rs = 0x04 \<or>
      (rs = 0x10 \<and> (fn \<in> {0x00, 0x01, 0x02, 0x03, 0x05, 0x06, 0x07, 0x0d, 0x21} \<or> 0x30 \<le> fn \<and> fp_cond insn \<noteq> None)) \<or>
      (rs = 0x11 \<and> (fn \<in> {0x00, 0x01, 0x02, 0x03, 0x05, 0x06, 0x07, 0x0d, 0x20} \<or> 0x30 \<le> fn \<and> fp_cond insn \<noteq> None)) \<or>
      (rs = 0x14 \<and> (fn = 0x20 \<or> fn = 0x21)))"
  unfolding emitCop1_def Let_def using fmt_ok [of L pred insn fr] by auto

lemma emitOne_ok: "emitOne L pred insn fr \<noteq> None \<longleftrightarrow> plain_ok insn"
proof (cases "drop_bit 26 insn = 0 \<or> drop_bit 26 insn = 0x11")
  case True
  then show ?thesis
    using special_ok [of L pred insn fr] cop1_ok [of L pred insn fr] unfolding emitOne_def plain_ok_def Let_def by auto
next
  case False
  then show ?thesis by (simp add: emitOne_def plain_ok_def Let_def)
qed

lemma squashed_cop1: "llvm64_doc L \<Longrightarrow> emitCop1 L (Some False) insn fr = Some fr' \<Longrightarrow> fr' = fr"
  using squashed_fmt [of L insn fr fr'] by (auto simp: emitCop1_def Let_def squashed split: if_splits)

lemma squashed_one:
  assumes "llvm64_doc L" and "emitOne L (Some False) insn fr = Some fr'"
  shows "same_but_bucket fr fr'"
proof (cases "drop_bit 26 insn = 0 \<or> drop_bit 26 insn = 0x11")
  case True
  then show ?thesis
    using squashed_special [OF assms(1), of insn fr fr'] squashed_cop1 [OF assms(1), of insn fr fr'] assms(2)
    by (auto simp: emitOne_def Let_def)
next
  case False
  then show ?thesis
    using assms(2)
    by (auto simp: emitOne_def Let_def pred_defs squashed [OF assms(1)] put_in_bucket split: if_splits)
qed

lemma committed_one: "llvm64_doc L \<Longrightarrow> emitOne L (Some True) insn fr = emitOne L None insn fr"
  by (simp add: emitOne_def emitCop1_def Let_def pred_defs committed committed_parts cong: if_cong)

text \<open>
  C14: Under the predicate of a likely branch an instruction has its whole effect when the branch is
  taken, and none outside the bit bucket when it is not; the same words are translated.
\<close>

theorem likely_slot_is_predicated:
  assumes "llvm64_doc L"
  shows "emitOne L (Some True) insn fr = emitOne L None insn fr \<and>
    (case emitOne L (Some False) insn fr of None \<Rightarrow> emitOne L None insn fr = None | Some fr' \<Rightarrow> same_but_bucket fr fr')"
  using committed_one [OF assms, of insn fr] squashed_one [OF assms, of insn fr] emitOne_ok [of L "Some False" insn fr] emitOne_ok [of L None insn fr]
  by (auto split: option.splits)


text \<open>A frame with 7 in every register, and \<open>sw $1, 0($2)\<close> squashed on it.\<close>

definition some_frame :: "unit fnframe" where
  "some_frame = \<lparr>slot = (\<lambda>_. 7), bail = 0,
     st = \<lparr>s_pc = 0, s_gpr = (\<lambda>_. 7), s_lo = 0, s_hi = 0, s_cpr1 = (\<lambda>_. 0), s_fcr25 = 0\<rparr>, ram = (\<lambda>_. 0)\<rparr>"

theorem likely_slot_is_predicated_witness:
  "\<exists>fr'. emitOne llvm64_ref (Some False) 0xac410000 some_frame = Some fr' \<and> same_but_bucket some_frame fr'"
proof -
  have "plain_ok 0xac410000" by (simp add: plain_ok_def Let_def)
  then obtain fr' where "emitOne llvm64_ref (Some False) 0xac410000 some_frame = Some fr'"
    using emitOne_ok [of llvm64_ref "Some False" "0xac410000" some_frame] by blast
  then show ?thesis using likely_slot_is_predicated [OF llvm64_ref_doc, of "0xac410000" some_frame] by simp
qed

end
