(* ===== verification/R4300_Walk.thy ===== *)
theory R4300_Walk
  imports R4300_Cfg
begin

text \<open>
  \<open>r4300_cfg::build\<close>: its loops end when no straight line of addresses is mapped all the way
  round, and the blocks it cuts have the instructions and edges the code in memory has.
\<close>

subsection \<open>What a terminator records\<close>

text \<open>The successors of the control transfer at \<open>pc\<close>, \<open>None\<close> if the scan for its table does not end.\<close>

definition term_succs :: "read_fn \<Rightarrow> (u32 \<rightharpoonup> u32 set) \<Rightarrow> u32 \<Rightarrow> ctl \<Rightarrow> u32 list option" where
  "term_succs read hint pc c =
    (case ctl_k c of
       Jump \<Rightarrow> Some [ctl_target c]
     | Call \<Rightarrow> Some [pc + 8]
     | Jalr \<Rightarrow> Some [pc + 8]
     | Jr \<Rightarrow>
         if ctl_reg c = 31 then Some []
         else map_option (\<lambda>(static, tgts).
           if static then tgts else case hint pc of Some ts \<Rightarrow> sorted_list_of_set ts | None \<Rightarrow> tgts) (jump_table read pc)
     | _ \<Rightarrow> Some [ctl_target c, pc + 8])"

text \<open>The parts of the state of pass one the walk is about, and what it leaves alone.\<close>

definition kept :: "pass1 \<Rightarrow> (u32 \<rightharpoonup> func) \<times> u32 \<times> (u32 \<rightharpoonup> block)" where
  "kept st = (funcs (p_cfg st), fn_entry (p_fn st), fn_blocks (p_fn st))"

lemma kept_simps [simp]:
  "kept (st\<lparr>p_leaders := a\<rparr>) = kept st" "kept (st\<lparr>p_ends := a\<rparr>) = kept st" "kept (st\<lparr>p_edges := e\<rparr>) = kept st"
  "kept (st\<lparr>p_work := w\<rparr>) = kept st" "kept (st\<lparr>p_seen := a\<rparr>) = kept st" "kept (st\<lparr>p_terms := a\<rparr>) = kept st"
  "kept (st\<lparr>p_cfg := (p_cfg st)\<lparr>problems := ps\<rparr>\<rparr>) = kept st" "kept (st\<lparr>p_cfg := (p_cfg st)\<lparr>n_traps := n\<rparr>\<rparr>) = kept st"
  "kept (st\<lparr>p_cfg := (p_cfg st)\<lparr>n_jr_static := n\<rparr>\<rparr>) = kept st" "kept (st\<lparr>p_cfg := (p_cfg st)\<lparr>n_jr_hint := n\<rparr>\<rparr>) = kept st"
  by (simp_all add: kept_def)

definition shape :: "pass1 \<Rightarrow> (u32 set \<times> u32 set \<times> (u32 \<rightharpoonup> u32 list) \<times> u32 list \<times> u32 set \<times> u32 set) \<times> read_fn \<times> (u32 \<rightharpoonup> u32 set) \<times> (u32 \<rightharpoonup> func) \<times> u32 \<times> (u32 \<rightharpoonup> block)" where
  "shape st = ((p_leaders st, p_ends st, p_edges st, p_work st, p_seen st, p_terms st),
    rd (p_cfg st), hints (p_cfg st), kept st)"

lemma shape_problem [simp]: "shape (problem_at pc what st) = shape st"
  by (simp add: shape_def problem_at_def)

lemma shape_jr_targets: "jr_targets pc static tgts st = (ts, st') \<Longrightarrow> shape st' = shape st"
proof -
  have f: "shape (fold (\<lambda>t st. if P t then st else problem_at pc what st) xs st) = shape st" for P what xs st
    by (induction xs arbitrary: st) simp_all
  have n: "shape (st\<lparr>p_cfg := (p_cfg st)\<lparr>n_jr_static := n\<rparr>\<rparr>) = shape st" "shape (st\<lparr>p_cfg := (p_cfg st)\<lparr>n_jr_hint := n\<rparr>\<rparr>) = shape st" for n
    by (simp_all add: shape_def)
  assume "jr_targets pc static tgts st = (ts, st')"
  then show ?thesis by (auto simp: jr_targets_def Let_def f n split: if_splits option.splits)
qed

lemma jr_targets_fst: "fst (jr_targets pc static tgts st) =
    (if static then tgts else case hints (p_cfg st) pc of Some ts \<Rightarrow> sorted_list_of_set ts | None \<Rightarrow> tgts)"
  by (simp add: jr_targets_def Let_def split: option.splits)

lemma add_succs:
  "p_edges st after = Some s \<Longrightarrow> shape (fold (add_succ after) ts st) =
    ((p_leaders st \<union> set ts, p_ends st, (p_edges st)(after \<mapsto> s @ ts), p_work st @ ts, p_seen st, p_terms st),
     rd (p_cfg st), hints (p_cfg st), kept st)"
proof (induction ts arbitrary: st s)
  case Nil
  then show ?case by (auto simp: shape_def map_upd_triv)
next
  case (Cons t ts)
  have "p_edges (add_succ after t st) after = Some (s @ [t])" using Cons.prems by (simp add: add_succ_def)
  from Cons.IH [OF this] show ?case using Cons.prems by (simp add: add_succ_def) (simp add: fun_eq_iff)
qed

lemma terminator_shape:
  assumes "terminator pc c st = Some st'" and "p_edges st (pc + 8) = None" and "ctl_k c \<notin> {Fall, Trap}"
  obtains ss where "term_succs (rd (p_cfg st)) (hints (p_cfg st)) pc c = Some ss"
    "shape st' = ((p_leaders st \<union> set ss, insert (pc + 8) (p_ends st), (p_edges st)(pc + 8 \<mapsto> ss), p_work st @ ss, p_seen st, insert pc (p_terms st)),
      rd (p_cfg st), hints (p_cfg st), kept st)"
proof -
  let ?o = "open_edges pc (pc + 8) st"
  have opened: "p_edges u (pc + 8) = Some []" "p_leaders u = p_leaders st" "p_ends u = insert (pc + 8) (p_ends st)"
    "p_work u = p_work st" "p_seen u = p_seen st" "p_terms u = insert pc (p_terms st)"
    "(p_edges u)(pc + 8 \<mapsto> ss) = (p_edges st)(pc + 8 \<mapsto> ss)" "rd (p_cfg u) = rd (p_cfg st)" "hints (p_cfg u) = hints (p_cfg st)" "kept u = kept st"
    if "shape u = shape ?o" for u ss
    using that assms(2) by (simp_all add: shape_def open_edges_def)
  have folded: "shape (fold (add_succ (pc + 8)) ss u) =
      ((p_leaders st \<union> set ss, insert (pc + 8) (p_ends st), (p_edges st)(pc + 8 \<mapsto> ss), p_work st @ ss, p_seen st, insert pc (p_terms st)),
      rd (p_cfg st), hints (p_cfg st), kept st)" if u: "shape u = shape ?o" for u ss
    using add_succs [OF opened(1) [OF u], of ss] opened(2-10) [OF u] by simp
  have fn: "shape (?o\<lparr>p_fn := f\<rparr>) = shape ?o" if "fn_entry f = fn_entry (p_fn ?o)" "fn_blocks f = fn_blocks (p_fn ?o)" for f
    using that by (simp add: shape_def kept_def)
  show thesis
  proof (cases "ctl_k c = Jr")
    case True
    show thesis
    proof (cases "ctl_reg c = 31")
      case r31: True
      then have "st' = fold (add_succ (pc + 8)) [] ?o" using assms(1) True by (simp add: terminator_def)
      then show thesis using that [of "[]"] folded [OF refl, of "[]"] True r31 by (simp add: term_succs_def)
    next
      case False
      then obtain static tgts where j: "jump_table (rd (p_cfg st)) pc = Some (static, tgts)"
        using assms(1) True by (auto simp: terminator_def Let_def open_edges_def bind_eq_Some_conv)
      obtain ts u where t: "jr_targets pc static tgts ?o = (ts, u)" by (cases "jr_targets pc static tgts ?o")
      have "st' = fold (add_succ (pc + 8)) ts u"
        using assms(1) True False j t by (simp add: terminator_def Let_def) (simp add: open_edges_def)
      moreover have "term_succs (rd (p_cfg st)) (hints (p_cfg st)) pc c = Some ts"
        using jr_targets_fst [of pc static tgts ?o] True False j t by (simp add: term_succs_def) (simp add: open_edges_def)
      ultimately show thesis using that folded [OF shape_jr_targets [OF t], of ts] by simp
    qed
  next
    case False
    have jalr: "shape (case h of None \<Rightarrow> problem_at pc Jalr_without_target (?o\<lparr>p_fn := f\<rparr>) | Some ts \<Rightarrow> ?o\<lparr>p_fn := g ts\<rparr>) = shape ?o"
      if "fn_entry f = fn_entry (p_fn ?o)" "fn_blocks f = fn_blocks (p_fn ?o)" "\<And>ts. fn_entry (g ts) = fn_entry (p_fn ?o)" "\<And>ts. fn_blocks (g ts) = fn_blocks (p_fn ?o)" for h f g
      by (simp add: fn that split: option.splits)
    obtain ss u where "term_succs (rd (p_cfg st)) (hints (p_cfg st)) pc c = Some ss" "st' = fold (add_succ (pc + 8)) ss u" "shape u = shape ?o"
    proof (cases "ctl_k c")
      case Jalr
      then show thesis using that [of "[pc + 8]"] assms(1) jalr by (auto simp: terminator_def term_succs_def Let_def fn split: option.splits)
    qed (use that [of "[ctl_target c, pc + 8]"] that [of "[ctl_target c]"] that [of "[pc + 8]"] assms(1,3) False fn in
        \<open>auto simp: terminator_def term_succs_def Let_def\<close>)
    then show thesis using that folded by metis
  qed
qed


subsection \<open>Straight-line runs\<close>

definition falls_at :: "read_fn \<Rightarrow> u32 \<Rightarrow> bool" where
  "falls_at read pc \<longleftrightarrow> (\<exists>insn. read pc = Some insn \<and> ctl_k (decode_ctl pc insn) = Fall)"

definition transfers_at :: "read_fn \<Rightarrow> u32 \<Rightarrow> ctl \<Rightarrow> bool" where
  "transfers_at read pc c \<longleftrightarrow> (\<exists>insn. read pc = Some insn \<and> c = decode_ctl pc insn) \<and> ctl_k c \<notin> {Fall, Trap}"

definition traps_at :: "read_fn \<Rightarrow> u32 \<Rightarrow> bool" where
  "traps_at read pc \<longleftrightarrow> (\<exists>insn. read pc = Some insn \<and> ctl_k (decode_ctl pc insn) = Trap)"

lemma at_cases:
  obtains "read pc = None" | "falls_at read pc" | "traps_at read pc" | c where "transfers_at read pc c"
proof (cases "read pc")
  case (Some insn)
  let ?c = "decode_ctl pc insn"
  consider "ctl_k ?c = Fall" | "ctl_k ?c = Trap" | "ctl_k ?c \<notin> {Fall, Trap}" by blast
  then show thesis
  proof cases
    case 1
    then show thesis using Some by (intro that(2)) (simp add: falls_at_def)
  next
    case 2
    then show thesis using Some by (intro that(3)) (simp add: traps_at_def)
  next
    case 3
    then show thesis using Some by (intro that(4) [of ?c]) (simp add: transfers_at_def)
  qed
qed (use that in blast)

lemma at_excl:
  "falls_at read pc \<Longrightarrow> \<not> traps_at read pc \<and> \<not> transfers_at read pc c \<and> read pc \<noteq> None"
  "traps_at read pc \<Longrightarrow> \<not> transfers_at read pc c \<and> read pc \<noteq> None"
  "transfers_at read pc c \<Longrightarrow> read pc \<noteq> None"
  "transfers_at read pc c \<Longrightarrow> transfers_at read pc d \<Longrightarrow> c = d"
  by (auto simp: falls_at_def traps_at_def transfers_at_def)

text \<open>
  Every straight line of addresses meets an unmapped one: without it the program's loops over
  memory need not end.
\<close>

definition gaps :: "read_fn \<Rightarrow> bool" where
  "gaps read \<longleftrightarrow> (\<forall>a. \<exists>n. read (a + 4 * of_nat n) = None)"

lemma gaps_below:
  assumes "gaps read"
  obtains n where "read (a - 4 * of_nat n) = None"
proof -
  obtain k where k: "read (a + 4 * of_nat k) = None" using assms unfolding gaps_def by blast
  have "(of_nat (4 * (2 ^ 30 * k)) :: u32) = 0"
    unfolding word_of_nat_eq_0_iff by (rule dvdI [of _ _ k]) simp
  moreover have "(of_nat (4 * (2 ^ 30 * k - k)) :: u32) = of_nat (4 * (2 ^ 30 * k)) - of_nat (4 * k)"
    by (simp add: diff_mult_distrib2 of_nat_diff)
  ultimately have "a - 4 * of_nat (2 ^ 30 * k - k) = a + 4 * of_nat k" by simp
  then show thesis using that k by metis
qed

lemma find_bound_total: "read (q - 4 * of_nat n) = None \<Longrightarrow> \<exists>r. find_bound read pc q = Some r"
proof (induction n arbitrary: q)
  case 0
  then show ?case by (simp add: find_bound.simps [of read pc q])
next
  case (Suc n)
  have "read (q - 4 - 4 * of_nat n) = None" using Suc.prems by (simp add: algebra_simps)
  then show ?case using Suc.IH [of "q - 4"] by (auto simp: find_bound.simps [of read pc q] split: option.splits)
qed

lemma scan_table_total:
  "gaps read \<Longrightarrow> read (pc - 4 * of_nat n) = None \<Longrightarrow> \<exists>r. scan_table read jr_pc pc reg base = Some r"
proof (induction n arbitrary: pc reg base)
  case 0
  then show ?case by (simp add: scan_table.simps [of read jr_pc pc])
next
  case (Suc n)
  have "read (pc - 4 - 4 * of_nat n) = None" using Suc.prems(2) by (simp add: algebra_simps)
  note IH = Suc.IH [OF Suc.prems(1) this]
  have "\<exists>r. find_bound read pc (pc - 4) = Some r"
    using gaps_below [OF Suc.prems(1), of "pc - 4"] find_bound_total by metis
  then show ?case using IH by (auto simp: scan_table.simps [of read jr_pc pc] Let_def split: option.splits)
qed

lemma jump_table_total:
  assumes "gaps read"
  shows "\<exists>r. jump_table read pc = Some r"
proof (cases "read pc")
  case (Some insn)
  obtain n where "read (pc - 4 - 4 * of_nat n) = None" using gaps_below [OF assms] by metis
  from scan_table_total [OF assms this] obtain r where "scan_table read pc (pc - 4) (drop_bit 21 insn AND 31) None = Some r" by blast
  then show ?thesis by (simp add: jump_table_def Some)
qed (auto simp: jump_table_def)

lemma term_succs_total: "gaps read \<Longrightarrow> \<exists>ss. term_succs read hint pc c = Some ss"
  using jump_table_total [of read pc] by (cases "ctl_k c") (auto simp: term_succs_def)


subsection \<open>The invariant of pass one\<close>

text \<open>A run from \<open>a\<close> that has been walked ends where pass one took note of it.\<close>

definition covered :: "pass1 \<Rightarrow> u32 \<Rightarrow> bool" where
  "covered st a \<longleftrightarrow> (\<exists>n. (\<forall>i < n. falls_at (rd (p_cfg st)) (a + 4 * of_nat i)) \<and>
    (let x = a + 4 * of_nat n
     in rd (p_cfg st) x = None \<and> x \<in> p_ends st \<or> traps_at (rd (p_cfg st)) x \<or> x \<in> p_terms st))"

text \<open>Every terminator taken note of has the edges \<open>term_succs\<close> says, and they lead to leaders.\<close>

definition noted :: "pass1 \<Rightarrow> u32 \<Rightarrow> bool" where
  "noted st t \<longleftrightarrow> (\<exists>c ss. transfers_at (rd (p_cfg st)) t c \<and> term_succs (rd (p_cfg st)) (hints (p_cfg st)) t c = Some ss \<and>
    p_edges st (t + 8) = Some ss \<and> set ss \<subseteq> p_leaders st \<and> t + 8 \<in> p_ends st)"

definition pass1_ok :: "u32 set \<Rightarrow> pass1 \<Rightarrow> bool" where
  "pass1_ok pend st \<longleftrightarrow> p_leaders st = p_seen st \<union> set (p_work st) \<and> (\<forall>t \<in> p_terms st. noted st t) \<and>
    (\<forall>a. p_edges st a \<noteq> None \<longrightarrow> a - 8 \<in> p_terms st) \<and> (\<forall>a \<in> p_seen st - pend. covered st a) \<and>
    (\<forall>x \<in> p_ends st. x - 8 \<in> p_terms st \<or> rd (p_cfg st) x = None)"

definition later :: "pass1 \<Rightarrow> pass1 \<Rightarrow> bool" where
  "later st st' \<longleftrightarrow> p_leaders st \<subseteq> p_leaders st' \<and> p_ends st \<subseteq> p_ends st' \<and> p_terms st \<subseteq> p_terms st' \<and> p_seen st' = p_seen st \<and>
    rd (p_cfg st') = rd (p_cfg st) \<and> hints (p_cfg st') = hints (p_cfg st) \<and> kept st' = kept st"

lemma covered_later:
  assumes "covered st a" and "later st st'"
  shows "covered st' a"
proof -
  have l: "p_ends st \<subseteq> p_ends st'" "p_terms st \<subseteq> p_terms st'" "rd (p_cfg st') = rd (p_cfg st)"
    using assms(2) by (simp_all add: later_def)
  obtain n where n: "\<forall>i < n. falls_at (rd (p_cfg st)) (a + 4 * of_nat i)"
    "let x = a + 4 * of_nat n in rd (p_cfg st) x = None \<and> x \<in> p_ends st \<or> traps_at (rd (p_cfg st)) x \<or> x \<in> p_terms st"
    using assms(1) unfolding covered_def by blast
  have "let x = a + 4 * of_nat n in rd (p_cfg st') x = None \<and> x \<in> p_ends st' \<or> traps_at (rd (p_cfg st')) x \<or> x \<in> p_terms st'"
    using n(2) l unfolding Let_def l(3) by blast
  then show ?thesis using n(1) unfolding covered_def l(3) by blast
qed

lemma same_shape:
  assumes "shape st' = shape st"
  shows "pass1_ok pend st' = pass1_ok pend st" "later st st'" "covered st' = covered st"
proof -
  have sel: "p_leaders st' = p_leaders st" "p_ends st' = p_ends st" "p_edges st' = p_edges st" "p_work st' = p_work st"
    "p_seen st' = p_seen st" "p_terms st' = p_terms st" "rd (p_cfg st') = rd (p_cfg st)" "hints (p_cfg st') = hints (p_cfg st)"
    "kept st' = kept st"
    using assms by (simp_all add: shape_def)
  show c: "covered st' = covered st" by (simp add: fun_eq_iff covered_def sel)
  have "noted st' = noted st" by (simp add: fun_eq_iff noted_def sel)
  then show "pass1_ok pend st' = pass1_ok pend st" by (simp add: pass1_ok_def sel c)
  show "later st st'" by (simp add: later_def sel)
qed

lemma later_trans: "later st st' \<Longrightarrow> later st' st'' \<Longrightarrow> later st st''"
  by (auto simp: later_def)

lemma covered_here:
  "rd (p_cfg st) a = None \<and> a \<in> p_ends st \<or> traps_at (rd (p_cfg st)) a \<or> a \<in> p_terms st \<Longrightarrow> covered st a"
  unfolding covered_def by (intro exI [of _ 0]) (simp add: Let_def)

lemma covered_next: "falls_at (rd (p_cfg st)) a \<Longrightarrow> covered st (a + 4) \<Longrightarrow> covered st a"
proof -
  assume f: "falls_at (rd (p_cfg st)) a"
  assume "covered st (a + 4)"
  then obtain n where n: "\<forall>i < n. falls_at (rd (p_cfg st)) (a + 4 + 4 * of_nat i)"
    "let x = a + 4 + 4 * of_nat n in rd (p_cfg st) x = None \<and> x \<in> p_ends st \<or> traps_at (rd (p_cfg st)) x \<or> x \<in> p_terms st"
    unfolding covered_def by blast
  have e: "a + 4 * of_nat (Suc i) = a + 4 + 4 * of_nat i" for i by (simp add: algebra_simps)
  have "\<forall>i < Suc n. falls_at (rd (p_cfg st)) (a + 4 * of_nat i)"
  proof (intro allI impI)
    fix i
    assume "i < Suc n"
    then show "falls_at (rd (p_cfg st)) (a + 4 * of_nat i)"
      using f n(1) by (cases i) (simp_all add: e del: of_nat_Suc)
  qed
  then show "covered st a"
    using n(2) unfolding covered_def e [symmetric] by blast
qed

lemma terminator_right:
  assumes "pass1_ok pend st" and "transfers_at (rd (p_cfg st)) pc c" and "pc \<notin> p_terms st" and "gaps (rd (p_cfg st))"
  obtains st' where "terminator pc c st = Some st'" "pass1_ok pend st'" "later st st'" "pc \<in> p_terms st'"
proof -
  let ?rd = "rd (p_cfg st)" and ?hints = "hints (p_cfg st)"
  have k: "ctl_k c \<notin> {Fall, Trap}" using assms(2) by (simp add: transfers_at_def)
  obtain r where "jump_table ?rd pc = Some r" using jump_table_total [OF assms(4)] by blast
  then have "terminator pc c st \<noteq> None"
    by (cases "ctl_k c") (auto simp: terminator_def Let_def open_edges_def split: prod.splits)
  then obtain st' where st': "terminator pc c st = Some st'" by blast
  have new: "p_edges st (pc + 8) = None" using assms(1,3) unfolding pass1_ok_def by fastforce
  obtain ss where ss: "term_succs ?rd ?hints pc c = Some ss"
    "shape st' = ((p_leaders st \<union> set ss, insert (pc + 8) (p_ends st), (p_edges st)(pc + 8 \<mapsto> ss), p_work st @ ss, p_seen st, insert pc (p_terms st)),
      ?rd, ?hints, kept st)"
    by (rule terminator_shape [OF st' new k])
  have sel: "p_leaders st' = p_leaders st \<union> set ss" "p_ends st' = insert (pc + 8) (p_ends st)" "p_edges st' = (p_edges st)(pc + 8 \<mapsto> ss)"
    "p_work st' = p_work st @ ss" "p_seen st' = p_seen st" "p_terms st' = insert pc (p_terms st)" "rd (p_cfg st') = ?rd"
    "hints (p_cfg st') = ?hints" "kept st' = kept st"
    using ss(2) by (simp_all add: shape_def)
  have l: "later st st'" by (auto simp: later_def sel)
  have "noted st' t" if "t \<in> p_terms st'" for t
  proof (cases "t = pc")
    case True
    then show ?thesis using assms(2) ss(1) by (auto simp: noted_def sel)
  next
    case False
    then have "noted st t" using that assms(1) by (auto simp: pass1_ok_def sel)
    then show ?thesis using False unfolding noted_def sel by auto
  qed
  moreover have "covered st' a" if "a \<in> p_seen st' - pend" for a
    using that assms(1) covered_later [OF _ l] by (simp add: pass1_ok_def sel)
  moreover have "p_leaders st' = p_seen st' \<union> set (p_work st')" using assms(1) by (auto simp: pass1_ok_def sel)
  moreover have "a - 8 \<in> p_terms st'" if "p_edges st' a \<noteq> None" for a
    using that assms(1) unfolding pass1_ok_def sel by (auto split: if_splits)
  moreover have "\<forall>x \<in> p_ends st'. x - 8 \<in> p_terms st' \<or> rd (p_cfg st') x = None"
    using assms(1) unfolding pass1_ok_def sel by auto
  ultimately have "pass1_ok pend st'" unfolding pass1_ok_def by blast
  then show thesis using that st' l sel(6) by blast
qed

lemma unmapped_right:
  assumes "rd (p_cfg st) pc = None" and "pass1_ok pend st"
  shows "\<exists>st'. walk_run pc st = Some st' \<and> pass1_ok pend st' \<and> later st st' \<and> covered st' pc"
proof -
  let ?st = "problem_at pc Unmapped_instruction st"
  let ?st' = "?st\<lparr>p_ends := insert pc (p_ends ?st)\<rparr>"
  have step: "walk_run pc st = Some ?st'" using assms(1) by (simp add: walk_run.simps [of pc st] Let_def)
  have ok: "pass1_ok pend ?st" using assms(2) same_shape(1) [OF shape_problem] by blast
  have l: "later ?st ?st'" by (auto simp: later_def)
  have "noted ?st' t" if "t \<in> p_terms ?st" for t
    using that ok unfolding pass1_ok_def noted_def by fastforce
  moreover have "covered ?st' a" if "a \<in> p_seen ?st - pend" for a
    using that ok covered_later [OF _ l] unfolding pass1_ok_def by blast
  moreover have "rd (p_cfg ?st) pc = None" using assms(1) by (simp add: problem_at_def)
  ultimately have "pass1_ok pend ?st'" "covered ?st' pc"
    using ok unfolding pass1_ok_def by (auto intro: covered_here)
  moreover have "later st ?st'" by (rule later_trans [OF same_shape(2) [OF shape_problem] l])
  ultimately show ?thesis using step by blast
qed

lemma walk_run_right:
  "rd (p_cfg st) (pc + 4 * of_nat n) = None \<Longrightarrow> gaps (rd (p_cfg st)) \<Longrightarrow> pass1_ok pend st \<Longrightarrow>
    \<exists>st'. walk_run pc st = Some st' \<and> pass1_ok pend st' \<and> later st st' \<and> covered st' pc"
proof (induction n arbitrary: pc)
  case 0
  then show ?case using unmapped_right by simp
next
  case (Suc n)
  let ?rd = "rd (p_cfg st)"
  show ?case
  proof (cases rule: at_cases [of ?rd pc])
    case 1
    then show ?thesis using unmapped_right Suc.prems(3) by blast
  next
    case 2
    then obtain insn where "?rd pc = Some insn" "ctl_k (decode_ctl pc insn) = Fall" by (auto simp: falls_at_def)
    then have step: "walk_run pc st = walk_run (pc + 4) st" by (subst walk_run.simps) simp
    have "?rd (pc + 4 + 4 * of_nat n) = None" using Suc.prems(1) by (simp add: algebra_simps)
    from Suc.IH [OF this Suc.prems(2,3)] obtain st' where st': "walk_run (pc + 4) st = Some st'" "pass1_ok pend st'" "later st st'" "covered st' (pc + 4)"
      by blast
    have "covered st' pc" using 2 st'(3,4) by (rule_tac covered_next) (simp_all add: later_def)
    then show ?thesis using st' unfolding step by blast
  next
    case 3
    let ?st = "st\<lparr>p_cfg := (p_cfg st)\<lparr>n_traps := n_traps (p_cfg st) + 1\<rparr>\<rparr>"
    have "shape ?st = shape st" by (simp add: shape_def)
    note s = same_shape [OF this]
    have "walk_run pc st = Some ?st" using 3 by (auto simp: walk_run.simps [of pc st] traps_at_def)
    moreover have "covered ?st pc" using 3 by (intro covered_here) simp
    ultimately show ?thesis using s Suc.prems(3) by blast
  next
    case (4 c)
    then obtain insn where i: "?rd pc = Some insn" "c = decode_ctl pc insn" "ctl_k c \<notin> {Fall, Trap}" by (auto simp: transfers_at_def)
    show ?thesis
    proof (cases "pc \<in> p_terms st")
      case True
      then have "walk_run pc st = Some st" "covered st pc" using i by (auto simp: walk_run.simps [of pc st] intro: covered_here)
      then show ?thesis using Suc.prems(3) same_shape(2) by blast
    next
      case False
      obtain st' where "terminator pc c st = Some st'" "pass1_ok pend st'" "later st st'" "pc \<in> p_terms st'"
        by (rule terminator_right [OF Suc.prems(3) 4 False Suc.prems(2)])
      moreover from this have "walk_run pc st = Some st'" using i False by (simp add: walk_run.simps [of pc st])
      ultimately show ?thesis using covered_here by blast
    qed
  qed
qed

subsection \<open>Pass one as a whole\<close>

lemma walk_all_right:
  "pass1_ok {} st \<Longrightarrow> gaps (rd (p_cfg st)) \<Longrightarrow>
    \<exists>st'. walk_all st = Some st' \<and> pass1_ok {} st' \<and> p_work st' = [] \<and> p_leaders st \<subseteq> p_leaders st' \<and>
      rd (p_cfg st') = rd (p_cfg st) \<and> hints (p_cfg st') = hints (p_cfg st) \<and> kept st' = kept st"
proof (induction st rule: wf_induct_rule [OF wf_inv_image [OF wf_lex_prod [OF wf_less_than wf_less_than], of "\<lambda>st. (card (UNIV - p_seen st), length (p_work st))"]])
  case (1 st)
  note ok = "1.prems"(1) [unfolded pass1_ok_def]
  show ?case
  proof (cases "p_work st")
    case Nil
    then show ?thesis using "1.prems"(1) by (simp add: walk_all.simps [of st])
  next
    case (Cons pc rest)
    let ?st = "st\<lparr>p_work := rest\<rparr>"
    show ?thesis
    proof (cases "pc \<in> p_seen st")
      case True
      have l: "p_leaders st = p_seen ?st \<union> set (p_work ?st)" using ok True by (auto simp: Cons)
      have "noted ?st = noted st" "covered ?st = covered st" by (simp_all add: fun_eq_iff noted_def covered_def)
      then have "pass1_ok {} ?st" using ok l unfolding pass1_ok_def by simp
      moreover have "(?st, st) \<in> inv_image (less_than <*lex*> less_than) (\<lambda>st. (card (UNIV - p_seen st), length (p_work st)))"
        by (simp add: Cons)
      moreover have "walk_all st = walk_all ?st" using True by (simp add: walk_all.simps [of st] Cons)
      ultimately show ?thesis using "1.IH" [of ?st] "1.prems"(2) by simp
    next
      case False
      let ?s = "?st\<lparr>p_seen := insert pc (p_seen ?st)\<rparr>"
      have "noted ?s = noted st" "covered ?s = covered st" by (simp_all add: fun_eq_iff noted_def covered_def)
      moreover have "p_leaders st = p_seen ?s \<union> set (p_work ?s)" using ok by (auto simp: Cons)
      ultimately have s: "pass1_ok {pc} ?s" using ok unfolding pass1_ok_def by auto
      obtain n where "rd (p_cfg ?s) (pc + 4 * of_nat n) = None" using "1.prems"(2) unfolding gaps_def by auto
      from walk_run_right [OF this _ s] "1.prems"(2) obtain u where u: "walk_run pc ?s = Some u" "pass1_ok {pc} u" "later ?s u" "covered u pc"
        by auto
      have u_ok: "pass1_ok {} u" using u(2,4) unfolding pass1_ok_def by auto
      have sel: "p_seen u = insert pc (p_seen st)" "rd (p_cfg u) = rd (p_cfg st)" "hints (p_cfg u) = hints (p_cfg st)" "kept u = kept st"
        "p_leaders st \<subseteq> p_leaders u"
        using u(3) by (simp_all add: later_def)
      have "card (UNIV - insert pc (p_seen st)) < card (UNIV - p_seen st)" using False by (intro psubset_card_mono) auto
      then have "(u, st) \<in> inv_image (less_than <*lex*> less_than) (\<lambda>st. (card (UNIV - p_seen st), length (p_work st)))"
        by (simp add: sel(1))
      moreover have "walk_all st = walk_all u" using False u(1) by (simp add: walk_all.simps [of st] Cons)
      ultimately show ?thesis using "1.IH" [of u] u_ok "1.prems"(2) sel by auto
    qed
  qed
qed

lemma pass1_init_ok: "pass1_ok {} (pass1_init entry g)"
  by (simp add: pass1_ok_def pass1_init_def)

subsection \<open>Cutting a block\<close>

text \<open>How a block that starts at \<open>a\<close> and ends in front of \<open>b\<close> may end: \<open>tm\<close> is its control transfer.\<close>

definition cut_at :: "read_fn \<Rightarrow> u32 set \<Rightarrow> u32 \<Rightarrow> u32 \<Rightarrow> ctl option \<Rightarrow> bool" where
  "cut_at read bounds a b tm \<longleftrightarrow> (\<exists>n. (\<forall>i < n. falls_at read (a + 4 * of_nat i) \<and> (0 < i \<longrightarrow> a + 4 * of_nat i \<notin> bounds)) \<and>
    (let x = a + 4 * of_nat n
     in case tm of
          None \<Rightarrow> b = x \<and> (if 0 < n then x \<in> bounds \<or> read x = None else read x = None)
        | Some c \<Rightarrow> (0 < n \<longrightarrow> x \<notin> bounds) \<and>
            (if traps_at read x then ctl_k c = Trap \<and> b = x + 4 else transfers_at read x c \<and> b = x + 8)))"

lemma cut_at_next:
  assumes "falls_at read a" and "a + 4 \<notin> bounds" and "cut_at read bounds (a + 4) b tm"
  shows "cut_at read bounds a b tm"
proof -
  obtain n where n: "\<forall>i < n. falls_at read (a + 4 + 4 * of_nat i) \<and> (0 < i \<longrightarrow> a + 4 + 4 * of_nat i \<notin> bounds)"
    "let x = a + 4 + 4 * of_nat n
     in case tm of
          None \<Rightarrow> b = x \<and> (if 0 < n then x \<in> bounds \<or> read x = None else read x = None)
        | Some c \<Rightarrow> (0 < n \<longrightarrow> x \<notin> bounds) \<and>
            (if traps_at read x then ctl_k c = Trap \<and> b = x + 4 else transfers_at read x c \<and> b = x + 8)"
    using assms(3) unfolding cut_at_def by blast
  have e: "a + 4 * of_nat (Suc i) = a + 4 + 4 * of_nat i" for i by (simp add: algebra_simps)
  have "\<forall>i < Suc n. falls_at read (a + 4 * of_nat i) \<and> (0 < i \<longrightarrow> a + 4 * of_nat i \<notin> bounds)"
  proof (intro allI impI)
    fix i
    assume "i < Suc n"
    then show "falls_at read (a + 4 * of_nat i) \<and> (0 < i \<longrightarrow> a + 4 * of_nat i \<notin> bounds)"
    proof (cases i)
      case (Suc j)
      have "falls_at read (a + 4 + 4 * of_nat j)" "a + 4 + 4 * of_nat j \<notin> bounds"
      proof -
        have "j < n" using \<open>i < Suc n\<close> Suc by simp
        then show "falls_at read (a + 4 + 4 * of_nat j)" using n(1) by blast
        show "a + 4 + 4 * of_nat j \<notin> bounds"
          using assms(2) n(1) \<open>j < n\<close> by (cases "j = 0") (simp, blast)
      qed
      then show ?thesis unfolding Suc e by simp
    qed (use assms(1) in simp)
  qed
  moreover have "a + 4 + 4 * of_nat n \<notin> bounds" if "n = 0" using assms(2) that by simp
  ultimately show ?thesis
    using n(2) unfolding cut_at_def
    by (intro exI [of _ "Suc n"]) (auto simp: e Let_def simp del: of_nat_Suc split: option.splits if_splits)
qed

lemma cut_block_right:
  "read (a + 4 * of_nat n) = None \<Longrightarrow> \<exists>b tm. cut_block read bounds a = Some (b, tm) \<and> cut_at read bounds a b tm"
proof (induction n arbitrary: a)
  case 0
  then show ?case by (simp add: cut_block.simps [of read bounds a] cut_at_def exI [of _ 0])
next
  case (Suc n)
  show ?case
  proof (cases rule: at_cases [of read a])
    case 1
    then show ?thesis by (simp add: cut_block.simps [of read bounds a] cut_at_def exI [of _ 0])
  next
    case 2
    then obtain insn where i: "read a = Some insn" "ctl_k (decode_ctl a insn) = Fall" by (auto simp: falls_at_def)
    show ?thesis
    proof (cases "a + 4 \<in> bounds")
      case True
      then have "cut_block read bounds a = Some (a + 4, None)" using i by (subst cut_block.simps) simp
      moreover have "cut_at read bounds a (a + 4) None"
        unfolding cut_at_def using 2 True by (intro exI [of _ 1]) simp
      ultimately show ?thesis by blast
    next
      case False
      then have step: "cut_block read bounds a = cut_block read bounds (a + 4)" using i by (subst cut_block.simps) simp
      have "read (a + 4 + 4 * of_nat n) = None" using Suc.prems by (simp add: algebra_simps)
      from Suc.IH [OF this] show ?thesis unfolding step using cut_at_next [OF 2 False] by blast
    qed
  next
    case 3
    then obtain insn where i: "read a = Some insn" "ctl_k (decode_ctl a insn) = Trap" by (auto simp: traps_at_def)
    then have "cut_block read bounds a = Some (a + 4, Some (decode_ctl a insn))" by (subst cut_block.simps) simp
    moreover have "cut_at read bounds a (a + 4) (Some (decode_ctl a insn))"
      unfolding cut_at_def using 3 i by (intro exI [of _ 0]) simp
    ultimately show ?thesis by blast
  next
    case (4 c)
    then obtain insn where i: "read a = Some insn" "c = decode_ctl a insn" "ctl_k c \<noteq> Fall" "ctl_k c \<noteq> Trap" by (auto simp: transfers_at_def)
    then have "cut_block read bounds a = Some (a + 8, Some c)" by (subst cut_block.simps) simp
    moreover have "cut_at read bounds a (a + 8) (Some c)"
      unfolding cut_at_def using 4 at_excl(2) by (intro exI [of _ 0]) auto
    ultimately show ?thesis by blast
  qed
qed

subsection \<open>The blocks of a function\<close>

text \<open>
  What a block has to be: straight-line code up to a control transfer with its delay slot, whose
  edges it has and all of which lead to blocks; or up to a trap; or up to where the next block
  starts or memory ends.
\<close>

definition block_ok :: "read_fn \<Rightarrow> (u32 \<rightharpoonup> u32 set) \<Rightarrow> func \<Rightarrow> u32 \<Rightarrow> block \<Rightarrow> bool" where
  "block_ok read hint fn start b \<longleftrightarrow> b_start b = start \<and>
    (\<exists>n. (\<forall>i < n. falls_at read (start + 4 * of_nat i)) \<and>
      (let x = start + 4 * of_nat n
       in (\<exists>c. transfers_at read x c \<and> b_end b = x + 8 \<and> term_succs read hint x c = Some (b_succs b) \<and>
             (\<forall>s \<in> set (b_succs b). fn_blocks fn s \<noteq> None) \<and>
             (ends_call b \<longleftrightarrow> ctl_k c \<in> {Call, Jalr}) \<and> (ends_return b \<longleftrightarrow> ctl_k c = Jr \<and> ctl_reg c = 31) \<and>
             (ends_likely b \<longleftrightarrow> ctl_k c = Likely) \<and> (ends_indirect b \<longleftrightarrow> ctl_k c = Jr \<and> ctl_reg c \<noteq> 31) \<and> \<not> ends_trap b) \<or>
          (traps_at read x \<and> b_end b = x + 4 \<and> ends_trap b) \<or>
          (b_end b = x \<and> b_succs b = [x] \<and> (0 < n \<or> read x = None) \<and> \<not> ends_trap b)))"

lemma add_block_right:
  assumes "gaps (rd (p_cfg st))"
  obtains fn' where "add_block st start fn = Some fn'" "fn_entry fn' = fn_entry fn" "fn_calls fn' = fn_calls fn"
    "fn_blocks fn' = (if start \<in> p_seen st
      then (fn_blocks fn)(start := map_option (\<lambda>(b, tm). make_block st start b tm)
        (cut_block (rd (p_cfg st)) (p_leaders st \<union> p_ends st) start))
      else fn_blocks fn)"
proof (cases "start \<in> p_seen st")
  case True
  obtain n where "rd (p_cfg st) (start + 4 * of_nat n) = None" using assms unfolding gaps_def by blast
  then obtain b tm where "cut_block (rd (p_cfg st)) (p_leaders st \<union> p_ends st) start = Some (b, tm)"
    using cut_block_right by blast
  then show thesis using True that by (simp add: add_block_def Let_def)
qed (use that in \<open>simp add: add_block_def\<close>)

lemma add_blocks_right:
  assumes "gaps (rd (p_cfg st))"
  shows "distinct starts \<Longrightarrow> \<exists>fn'. add_blocks st starts fn = Some fn' \<and> fn_entry fn' = fn_entry fn \<and> fn_calls fn' = fn_calls fn \<and>
    (\<forall>a. fn_blocks fn' a = (if a \<in> set starts \<and> a \<in> p_seen st
      then map_option (\<lambda>(b, tm). make_block st a b tm) (cut_block (rd (p_cfg st)) (p_leaders st \<union> p_ends st) a)
      else fn_blocks fn a))"
proof (induction starts arbitrary: fn)
  case (Cons start starts)
  obtain fn1 where f: "add_block st start fn = Some fn1" "fn_entry fn1 = fn_entry fn" "fn_calls fn1 = fn_calls fn"
    "fn_blocks fn1 = (if start \<in> p_seen st
      then (fn_blocks fn)(start := map_option (\<lambda>(b, tm). make_block st start b tm)
        (cut_block (rd (p_cfg st)) (p_leaders st \<union> p_ends st) start))
      else fn_blocks fn)"
    by (rule add_block_right [OF assms])
  from Cons.IH [of fn1] Cons.prems obtain fn' where "add_blocks st starts fn1 = Some fn'" "fn_entry fn' = fn_entry fn1" "fn_calls fn' = fn_calls fn1"
    "\<forall>a. fn_blocks fn' a = (if a \<in> set starts \<and> a \<in> p_seen st
      then map_option (\<lambda>(b, tm). make_block st a b tm) (cut_block (rd (p_cfg st)) (p_leaders st \<union> p_ends st) a)
      else fn_blocks fn1 a)"
    by auto
  then show ?case using f Cons.prems by (auto simp: fun_upd_def)
qed simp

lemma same_line:
  assumes "\<forall>i < n. falls_at read (a + 4 * of_nat i)" and "\<not> falls_at read (a + 4 * of_nat n)"
    and "\<forall>i < m. falls_at read (a + 4 * of_nat i)" and "\<not> falls_at read (a + 4 * of_nat m)"
  shows "n = m"
  using assms by (metis linorder_neqE_nat)

lemma make_block_right:
  assumes "pass1_ok {} st" and "p_work st = []" and "start \<in> p_seen st" and "\<And>s. s \<in> p_leaders st \<Longrightarrow> fn_blocks fn s \<noteq> None"
    and "cut_at (rd (p_cfg st)) bounds start b tm"
  shows "block_ok (rd (p_cfg st)) (hints (p_cfg st)) fn start (make_block st start b tm)"
proof -
  let ?rd = "rd (p_cfg st)"
  obtain n where n: "\<forall>i < n. falls_at ?rd (start + 4 * of_nat i)"
    "let x = start + 4 * of_nat n
     in case tm of
          None \<Rightarrow> b = x \<and> (if 0 < n then x \<in> bounds \<or> ?rd x = None else ?rd x = None)
        | Some c \<Rightarrow> (0 < n \<longrightarrow> x \<notin> bounds) \<and> (if traps_at ?rd x then ctl_k c = Trap \<and> b = x + 4 else transfers_at ?rd x c \<and> b = x + 8)"
    using assms(5) unfolding cut_at_def by blast
  let ?x = "start + 4 * of_nat n"
  show ?thesis
  proof (cases tm)
    case None
    then show ?thesis
      using n unfolding block_ok_def by (intro conjI exI [of _ n]) (auto simp: make_block_def Let_def split: if_splits)
  next
    case (Some c)
    show ?thesis
    proof (cases "traps_at ?rd ?x")
      case True
      then show ?thesis
        using n Some unfolding block_ok_def by (intro conjI exI [of _ n]) (auto simp: make_block_def Let_def)
    next
      case False
      then have c: "transfers_at ?rd ?x c" "b = ?x + 8" using n(2) Some by (simp_all add: Let_def)
      have "covered st start" using assms(1,3) unfolding pass1_ok_def by blast
      then obtain m where m: "\<forall>i < m. falls_at ?rd (start + 4 * of_nat i)"
        "?rd (start + 4 * of_nat m) = None \<or> traps_at ?rd (start + 4 * of_nat m) \<or> start + 4 * of_nat m \<in> p_terms st"
        unfolding covered_def Let_def by blast
      have noted: "noted st t" if "t \<in> p_terms st" for t using that assms(1) unfolding pass1_ok_def by blast
      have "\<not> falls_at ?rd (start + 4 * of_nat m)"
        using m(2) at_excl(1) noted unfolding noted_def by metis
      then have "m = n" using same_line [OF m(1) _ n(1)] at_excl(1) c(1) by metis
      then have "?x \<in> p_terms st" using m(2) False c(1) at_excl(3) by blast
      from noted [OF this] obtain d ss where d: "transfers_at ?rd ?x d" "term_succs ?rd (hints (p_cfg st)) ?x d = Some ss"
        "p_edges st (?x + 8) = Some ss" "set ss \<subseteq> p_leaders st"
        unfolding noted_def by blast
      have "d = c" using at_excl(4) [OF d(1) c(1)] .
      then show ?thesis
        using n(1) c d assms(4) unfolding block_ok_def Let_def
        by (intro conjI exI [of _ n] disjI1 exI [of _ c]) (auto simp: make_block_def Let_def Some transfers_at_def)
    qed
  qed
qed

lemma build_right:
  assumes "gaps (rd g)"
  obtains g' fn where "build entry g = Some g'" "funcs g' = (funcs g)(entry \<mapsto> fn)" "rd g' = rd g" "hints g' = hints g" "fn_entry fn = entry"
    "fn_blocks fn entry \<noteq> None" "\<And>start b. fn_blocks fn start = Some b \<Longrightarrow> block_ok (rd g) (hints g) fn start b"
proof -
  have "rd (p_cfg (pass1_init entry g)) = rd g" by (simp add: pass1_init_def)
  then obtain st where st: "walk_all (pass1_init entry g) = Some st" "pass1_ok {} st" "p_work st = []" "entry \<in> p_leaders st"
    "rd (p_cfg st) = rd g" "hints (p_cfg st) = hints g" "kept st = kept (pass1_init entry g)"
    using walk_all_right [OF pass1_init_ok, of entry g] assms by (auto simp: pass1_init_def)
  have gaps: "gaps (rd (p_cfg st))" using assms st(5) by simp
  obtain fn where fn: "add_blocks st (sorted_list_of_set (p_leaders st)) (p_fn st) = Some fn" "fn_entry fn = fn_entry (p_fn st)"
    "\<And>a. fn_blocks fn a = (if a \<in> p_leaders st \<and> a \<in> p_seen st
      then map_option (\<lambda>(b, tm). make_block st a b tm) (cut_block (rd (p_cfg st)) (p_leaders st \<union> p_ends st) a) else fn_blocks (p_fn st) a)"
    using add_blocks_right [OF gaps, of "sorted_list_of_set (p_leaders st)" "p_fn st"] by auto
  let ?g = "(p_cfg st)\<lparr>funcs := (funcs (p_cfg st))(entry \<mapsto> fn)\<rparr>"
  have start: "fn_entry (p_fn st) = entry" "fn_blocks (p_fn st) = Map.empty" "funcs (p_cfg st) = funcs g"
    using st(7) by (simp_all add: kept_def pass1_init_def)
  have seen: "p_leaders st = p_seen st" using st(2,3) by (simp add: pass1_ok_def)
  have cut: "\<exists>b tm. cut_block (rd (p_cfg st)) K a = Some (b, tm) \<and> cut_at (rd (p_cfg st)) K a b tm" for K a
  proof -
    obtain n where "rd (p_cfg st) (a + 4 * of_nat n) = None" using gaps unfolding gaps_def by blast
    then show ?thesis by (rule cut_block_right)
  qed
  have some: "fn_blocks fn a \<noteq> None" if "a \<in> p_leaders st" for a
    using that cut [of "p_leaders st \<union> p_ends st" a] by (auto simp: fn(3) seen)
  have ok: "block_ok (rd g) (hints g) fn a blk" if "fn_blocks fn a = Some blk" for a blk
  proof -
    have a: "a \<in> p_seen st" using that start(2) by (auto simp: fn(3) split: if_splits)
    obtain b tm where c: "cut_block (rd (p_cfg st)) (p_leaders st \<union> p_ends st) a = Some (b, tm)"
      "cut_at (rd (p_cfg st)) (p_leaders st \<union> p_ends st) a b tm"
      using cut by blast
    have "blk = make_block st a b tm" using that a by (simp add: fn(3) seen c(1) [unfolded seen])
    then show ?thesis using make_block_right [OF st(2,3) a some c(2)] by (simp only: st(5,6))
  qed
  have "build entry g = Some ?g" by (simp add: build_def st(1) fn(1))
  then show thesis using that [of ?g fn] st(4-6) start fn(2) some ok by simp
qed


subsection \<open>Following the calls\<close>

text \<open>What \<open>discover\<close> keeps: every callee of a discovered function is discovered or waits, as the roots do.\<close>

definition found :: "u32 set \<Rightarrow> u32 list \<Rightarrow> cfg \<Rightarrow> bool" where
  "found roots work g \<longleftrightarrow> gaps (rd g) \<and> roots \<subseteq> dom (funcs g) \<union> set work \<and>
    (\<forall>f fn. funcs g f = Some fn \<longrightarrow> fn_entry fn = f \<and> fn_blocks fn f \<noteq> None \<and> fn_calls fn \<subseteq> dom (funcs g) \<union> set work \<and>
      (\<forall>start b. fn_blocks fn start = Some b \<longrightarrow> block_ok (rd g) (hints g) fn start b))"

lemma discover_from_right:
  "found roots work g \<Longrightarrow> \<exists>g'. discover_from work g = Some g' \<and> found roots [] g' \<and> rd g' = rd g \<and> hints g' = hints g"
proof (induction "(work, g)" arbitrary: work g rule: wf_induct_rule [OF wf_inv_image [OF wf_lex_prod [OF wf_less_than wf_less_than],
    of "\<lambda>(work, g). (card (UNIV - dom (funcs g)), length work)"]])
  case (1 work g)
  note F = 1(2)
  show ?case
  proof (cases work)
    case Nil
    then show ?thesis using F by (subst discover_from.simps) simp
  next
    case (Cons f rest)
    show ?thesis
    proof (cases "f \<in> dom (funcs g)")
      case True
      have "found roots rest g" using F True unfolding found_def Cons by fastforce
      moreover have "discover_from work g = discover_from rest g" using True by (subst discover_from.simps) (simp add: Cons)
      ultimately show ?thesis using 1(1) [of rest g] by (simp add: Cons)
    next
      case False
      have gaps: "gaps (rd g)" using F by (simp add: found_def)
      obtain g1 fn where b: "build f g = Some g1" "funcs g1 = (funcs g)(f \<mapsto> fn)" "rd g1 = rd g" "hints g1 = hints g" "fn_entry fn = f"
        "fn_blocks fn f \<noteq> None" "\<And>start b. fn_blocks fn start = Some b \<Longrightarrow> block_ok (rd g) (hints g) fn start b"
        using build_right [OF gaps, of f] by metis
      let ?work = "rest @ filter (\<lambda>callee. callee \<notin> dom (funcs g1)) (sorted_list_of_set (fn_calls fn))"
      have step: "discover_from work g = discover_from ?work g1"
        using False b(1,2) by (subst discover_from.simps) (simp add: Cons)
      have "found roots ?work g1"
        unfolding found_def
      proof (intro conjI allI impI)
        show "gaps (rd g1)" using gaps b(3) by simp
        show "roots \<subseteq> dom (funcs g1) \<union> set ?work" using F unfolding found_def Cons by (auto simp: b(2))
      next
        fix e u
        assume u: "funcs g1 e = Some u"
        show "fn_entry u = e" "fn_blocks u e \<noteq> None" using u F b(2,5,6) unfolding found_def by (auto split: if_splits)
        show "fn_calls u \<subseteq> dom (funcs g1) \<union> set ?work"
          using u F b(2) unfolding found_def Cons by (fastforce split: if_splits)
        show "block_ok (rd g1) (hints g1) u start blk" if "fn_blocks u start = Some blk" for start blk
          using that u F b(2-4,7) unfolding found_def by (auto split: if_splits)
      qed
      moreover have "card (UNIV - dom (funcs g1)) < card (UNIV - dom (funcs g))"
        using False by (intro psubset_card_mono) (auto simp: b(2))
      ultimately show ?thesis using 1(1) [of ?work g1] unfolding step by (simp add: b(3,4))
    qed
  qed
qed

end
