(* ===== verification/R4300_Guest.thy ===== *)
theory R4300_Guest
  imports R4300_Bt R4300_Pred R4300_Walk
begin

text \<open>
  The guest the R4300 translator has to agree with: its steps, decoded by the control-flow decoder
  and with delay slots and annulled slots, and its runs through a function.  The code of a control
  transfer does the guest's step.
\<close>

subsection \<open>The guest\<close>

text \<open>Whether a conditional branch is taken.\<close>

definition taken :: "u32 \<Rightarrow> 'x fnframe \<Rightarrow> bool" where
  "taken insn fr =
    (let op = drop_bit 26 insn; rt = drop_bit 16 insn AND 31;
         vs = sint (r_getGPR (drop_bit 21 insn AND 31) fr); vt = sint (r_getGPR rt fr)
     in if op \<in> {0x04, 0x14} then vs = vt
        else if op \<in> {0x05, 0x15} then vs \<noteq> vt
        else if op \<in> {0x06, 0x16} then vs \<le> 0
        else if op \<in> {0x07, 0x17} then 0 < vs
        else if op = 0x01 then (if even rt then vs < 0 else 0 \<le> vs)
        else if op = 0x11 then bit (s_fcr25 (st fr)) (unat (drop_bit 18 insn AND 7)) = odd rt
        else False)"

text \<open>
  One step of the guest at \<open>pc\<close>: an instruction, or a control transfer with its delay slot.  \<open>None\<close>
  where the translator leaves the work to the interpreter.  The annulled slot of a likely
  branch leaves its mark in the bit bucket.
\<close>

definition guest_step :: "llvm64 \<Rightarrow> read_fn \<Rightarrow> u32 \<times> 'x fnframe \<Rightarrow> (u32 \<times> 'x fnframe) option" where
  "guest_step L read = (\<lambda>(pc, fr).
    (case read pc of
       None \<Rightarrow> None
     | Some insn \<Rightarrow>
         (let c = decode_ctl pc insn; k = ctl_k c
          in if k = Fall then map_option (\<lambda>fr. (pc + 4, fr)) (emitOne L None insn fr)
             else if k = Trap \<or> (drop_bit 26 insn = 1 \<and> 3 < drop_bit 16 insn AND 31) then None
             else (case read (pc + 4) of
                     None \<Rightarrow> None
                   | Some d \<Rightarrow>
                       (let go = (k \<in> {Branch, Likely} \<longrightarrow> taken insn fr);
                            target = (if k \<in> {Jr, Jalr} then ucast (r_getGPR (ctl_reg c) fr) else ctl_target c);
                            fr = (if k \<in> {Call, Jalr} then r_setGPR L None 31 (scast (pc + 8)) fr else fr)
                        in map_option (\<lambda>fr. (if go then target else pc + 8, fr))
                             (emitOne L (if k = Likely then Some go else None) d fr))))))"

lemma emit_nop: "llvm64_doc L \<Longrightarrow> emitOne L pred 0 fr = Some fr"
  by (simp add: emitOne_def emit_special_def r_setGPR_def)

lemma bit_of_one: "a AND push_bit n 1 \<noteq> 0 \<longleftrightarrow> bit a n" if "n < 32" for a :: u32
  using that by (auto simp: and_exp_eq_0_iff_not_bit push_bit_eq_mult)

lemma branchCond_taken:
  assumes "llvm64_doc L"
  shows "branchCond L insn fr = taken insn fr"
proof -
  have "unat (drop_bit 18 insn AND 7) < 32"
    using word_and_le1 [of "drop_bit 18 insn" 7] by (simp add: word_le_nat_alt)
  note b = bit_of_one [OF this, simplified]
  have e: "(x AND 1 = 0) = even x" for x :: u32 by (simp add: and_one_eq even_iff_mod_2_eq_zero)
  show ?thesis
    by (simp add: branchCond_def taken_def Let_def llvm64_more [OF assms] llvm64_old [OF assms] b e word_sless_alt word_sle_eq
      flip: word_eq_iff_signed)
qed

lemma rt_two: "(drop_bit 16 insn AND 31) AND 2 = drop_bit 16 insn AND 2" for insn :: u32
  by (simp add: and.assoc)

lemma one_word: "\<not> (20 :: u32) \<le> 1" "\<not> (4 :: u32) \<le> 1" by (simp_all add: word_le_nat_alt)

lemma is_likely_kind: "ctl_k (decode_ctl pc insn) \<in> {Branch, Likely} \<Longrightarrow> is_likely insn \<longleftrightarrow> ctl_k (decode_ctl pc insn) = Likely"
  by (auto simp: decode_ctl_def Let_def is_likely_def rt_two one_word split: if_splits)

lemma isCtl_kind: "ctl_k (decode_ctl pc insn) \<notin> {Fall, Trap} \<Longrightarrow> isCtl insn"
  by (auto simp: decode_ctl_def Let_def isCtl_def one_word split: if_splits)


lemma transfer_cases:
  assumes "ctl_k (decode_ctl pc insn) \<notin> {Fall, Trap}"
  obtains (jr) "drop_bit 26 insn = 0" "insn AND 0x3f = 8" "decode_ctl pc insn = \<lparr>ctl_k = Jr, ctl_target = 0, ctl_reg = drop_bit 21 insn AND 31\<rparr>"
  | (jalr) "drop_bit 26 insn = 0" "insn AND 0x3f = 9" "decode_ctl pc insn = \<lparr>ctl_k = Jalr, ctl_target = 0, ctl_reg = drop_bit 21 insn AND 31\<rparr>"
  | (jump) "drop_bit 26 insn = 2"
      "decode_ctl pc insn = \<lparr>ctl_k = Jump, ctl_target = (pc AND 0xf0000000) OR push_bit 2 (insn AND 0x3ffffff), ctl_reg = 0\<rparr>"
  | (call) "drop_bit 26 insn = 3"
      "decode_ctl pc insn = \<lparr>ctl_k = Call, ctl_target = (pc AND 0xf0000000) OR push_bit 2 (insn AND 0x3ffffff), ctl_reg = 0\<rparr>"
  | (branch) "drop_bit 26 insn \<noteq> 0" "drop_bit 26 insn \<noteq> 2" "drop_bit 26 insn \<noteq> 3"
      "decode_ctl pc insn = \<lparr>ctl_k = (if is_likely insn then Likely else Branch),
        ctl_target = pc + 4 + push_bit 2 (scast (ucast (insn AND 0xffff) :: 16 word)), ctl_reg = 0\<rparr>"
  using assms by (simp add: decode_ctl_def Let_def is_likely_def rt_two one_word split: if_splits) (auto split: if_splits)

lemma emit_control_right:
  assumes "llvm64_doc L" and "rd g pc = Some insn" and "ctl_k (decode_ctl pc insn) \<notin> {Fall, Trap}"
  shows "case guest_step L (rd g) (pc, fr) of
      None \<Rightarrow> emit_control L g gf blk pc insn fr = bailTo pc fr \<or>
        ctl_k (decode_ctl pc insn) \<in> {Call, Jalr} \<and> emit_control L g gf blk pc insn fr = bailTo pc (r_setGPR L None 31 (scast (pc + 8)) fr)
    | Some (t, fr') \<Rightarrow> emit_control L g gf blk pc insn fr =
       (case ctl_k (decode_ctl pc insn) of
          Jump \<Rightarrow> if fn_blocks gf t \<noteq> None then Goes t fr' else Tail_calls t (pc + 8) fr'
        | Call \<Rightarrow> Calls t (pc + 8) fr'
        | Jalr \<Rightarrow> (case hints g pc of Some ts \<Rightarrow> Calls_one_of ts t (pc + 8) fr' | None \<Rightarrow> Calls_unknown t (pc + 8) fr')
        | Jr \<Rightarrow> if ctl_reg (decode_ctl pc insn) = 31 then bailTo 0 fr' else if t \<in> set (b_succs blk) then Goes t fr' else bailTo t (spillGPRs fr')
        | _ \<Rightarrow> Goes t fr')"
proof -
  note doc = assms(1)
  have nop: "(if d = 0 then Some f else emitOne L p d f) = emitOne L p d f" for d p and f :: "'x fnframe"
    using emit_nop [OF doc, of p f] by auto
  have slot: "(case (if d = 0 then Some f else emitOne L p d f) of None \<Rightarrow> a | Some x \<Rightarrow> b x) = (case emitOne L p d f of None \<Rightarrow> a | Some x \<Rightarrow> b x)"
    for d p a and f :: "'x fnframe" and b :: "'x fnframe \<Rightarrow> 'x leaving"
    using nop [of d f p] by simp
  show ?thesis
    using assms(3)
  proof (cases rule: transfer_cases)
    case jr
    then show ?thesis
      by (auto simp: guest_step_def emit_control_def emit_transfer_def Let_def assms(2) slot llvm64_casts [OF doc] is_likely_def split: option.splits)
  next
    case jalr
    then show ?thesis
      by (auto simp: guest_step_def emit_control_def emit_transfer_def Let_def assms(2) slot llvm64_casts [OF doc] is_likely_def split: option.splits)
  next
    case jump
    then show ?thesis
      by (auto simp: guest_step_def emit_control_def emit_transfer_def Let_def assms(2) slot is_likely_def split: option.splits)
  next
    case call
    then show ?thesis
      by (auto simp: guest_step_def emit_control_def emit_transfer_def Let_def assms(2) slot is_likely_def split: option.splits)
  next
    case branch
    then show ?thesis
      by (auto simp: guest_step_def emit_control_def emit_transfer_def Let_def assms(2) slot branchCond_taken [OF doc] split: option.splits if_splits)
  qed
qed


subsection \<open>Runs of a function\<close>

definition calls_at :: "read_fn \<Rightarrow> u32 \<Rightarrow> bool" where
  "calls_at read pc \<longleftrightarrow> (case read pc of None \<Rightarrow> False | Some insn \<Rightarrow> ctl_k (decode_ctl pc insn) \<in> {Call, Jalr})"

definition returns_at :: "read_fn \<Rightarrow> u32 \<Rightarrow> bool" where
  "returns_at read pc \<longleftrightarrow> (case read pc of None \<Rightarrow> False | Some insn \<Rightarrow> ctl_k (decode_ctl pc insn) = Jr \<and> ctl_reg (decode_ctl pc insn) = 31)"

text \<open>The call translated code makes for the \<open>jal\<close> or \<open>jalr\<close> at \<open>pc\<close>.\<close>

definition call_at :: "llvm64 \<Rightarrow> ('x machine \<Rightarrow> 'x machine) \<Rightarrow> 'x callee \<Rightarrow> cfg \<Rightarrow> u32 set \<Rightarrow> u32 \<Rightarrow> u32 \<Rightarrow> 'x fnframe \<Rightarrow> (bt_error + 'x fnframe) option" where
  "call_at L execMips call g decls pc target fr =
    (case rd g pc of
       None \<Rightarrow> None
     | Some insn \<Rightarrow>
         if ctl_k (decode_ctl pc insn) = Call then emitCall L execMips call target (pc + 8) (target \<in> decls) fr
         else (case hints g pc of
                 Some tgts \<Rightarrow> emitIndirectCall L execMips call decls target (pc + 8) tgts fr
               | None \<Rightarrow> emitCall L execMips call target (pc + 8) False fr))"

text \<open>
  The guest run through a function, with the number of its steps: single steps, and whole calls after
  which it goes on at the link address.
\<close>

inductive guest_run :: "llvm64 \<Rightarrow> ('x machine \<Rightarrow> 'x machine) \<Rightarrow> 'x callee \<Rightarrow> cfg \<Rightarrow> u32 set \<Rightarrow> nat \<Rightarrow> u32 \<times> 'x fnframe \<Rightarrow> u32 \<times> 'x fnframe \<Rightarrow> bool"
  for L execMips call g decls where
  here: "guest_run L execMips call g decls 0 c c"
| step: "guest_run L execMips call g decls k c (pc, fr) \<Longrightarrow> \<not> calls_at (rd g) pc \<Longrightarrow> \<not> returns_at (rd g) pc \<Longrightarrow>
    guest_step L (rd g) (pc, fr) = Some c' \<Longrightarrow> guest_run L execMips call g decls (Suc k) c c'"
| called: "guest_run L execMips call g decls k c (pc, fr) \<Longrightarrow> calls_at (rd g) pc \<Longrightarrow> guest_step L (rd g) (pc, fr) = Some (target, fr1) \<Longrightarrow>
    call_at L execMips call g decls pc target fr1 = Some (Inr fr2) \<Longrightarrow> guest_run L execMips call g decls (Suc k) c (pc + 8, fr2)"

text \<open>The guest is at a call, and what making it gives.\<close>

definition calls_with :: "llvm64 \<Rightarrow> ('x machine \<Rightarrow> 'x machine) \<Rightarrow> 'x callee \<Rightarrow> cfg \<Rightarrow> u32 set \<Rightarrow> u32 \<times> 'x fnframe \<Rightarrow> (bt_error + 'x fnframe) option \<Rightarrow> bool" where
  "calls_with L execMips call g decls = (\<lambda>(pc, f) res. calls_at (rd g) pc \<and>
    (\<exists>target f1. guest_step L (rd g) (pc, f) = Some (target, f1) \<and> call_at L execMips call g decls pc target f1 = res))"

definition at_machine :: "'x fnframe \<Rightarrow> 'x machine" where
  "at_machine fr = (st (spillGPRs fr), ram fr)"

text \<open>
  What a translated function hands over at the end of a run in \<open>(pc, f)\<close>: the machine after the return
  there, or the machine as it is, with the pc to go on at.  When the slot of a call is not
  translated the link register has been written already.
\<close>

definition hands_over :: "llvm64 \<Rightarrow> cfg \<Rightarrow> u32 \<times> 'x fnframe \<Rightarrow> u32 \<times> 'x machine \<Rightarrow> bool" where
  "hands_over L g = (\<lambda>(pc, f) (r, m).
    (r = 0 \<and> returns_at (rd g) pc \<and> (\<exists>t f'. guest_step L (rd g) (pc, f) = Some (t, f') \<and> m = at_machine f')) \<or>
    (r = pc \<and> (m = at_machine f \<or>
      (calls_at (rd g) pc \<and> guest_step L (rd g) (pc, f) = None \<and> m = at_machine (r_setGPR L None 31 (scast (pc + 8)) f)))))"

text \<open>
  Code was left in accordance with a run of the guest of at least \<open>k\<close> steps, a pending call counted.
\<close>

definition left_from :: "llvm64 \<Rightarrow> ('x machine \<Rightarrow> 'x machine) \<Rightarrow> 'x callee \<Rightarrow> cfg \<Rightarrow> u32 set \<Rightarrow> nat \<Rightarrow> u32 \<times> 'x fnframe \<Rightarrow> 'x leaving \<Rightarrow> bool" where
  "left_from L X call g decls k c out =
    (let run = guest_run L X call g decls;
         calling = (\<lambda>target link f res. \<exists>j pc e. k \<le> Suc j \<and> run j c (pc, e) \<and> calls_at (rd g) pc \<and>
           guest_step L (rd g) (pc, e) = Some (target, f) \<and> link = pc + 8 \<and> call_at L X call g decls pc target f = res)
     in case out of
       Goes t f \<Rightarrow> \<exists>j \<ge> k. run j c (t, f)
     | Leaves f \<Rightarrow> \<exists>j p. run j c p \<and> hands_over L g p (leave_frame f)
     | Calls target link f \<Rightarrow> calling target link f (emitCall L X call target link (target \<in> decls) f)
     | Calls_one_of tgts target link f \<Rightarrow> calling target link f (emitIndirectCall L X call decls target link tgts f)
     | Calls_unknown target link f \<Rightarrow> calling target link f (emitCall L X call target link False f)
     | Tail_calls _ _ _ \<Rightarrow> False)"

lemma left_weaken: "left_from L X call g decls k c out \<Longrightarrow> k' \<le> k \<Longrightarrow> left_from L X call g decls k' c out"
  unfolding left_from_def Let_def by (cases out) (auto, (blast intro: le_trans)+)

lemma spill_spill [simp]: "spillGPRs (spillGPRs f) = spillGPRs f" "spillGPRs (f\<lparr>bail := b\<rparr>) = (spillGPRs f)\<lparr>bail := b\<rparr>"
  "bail (spillGPRs f) = bail f" "ram (spillGPRs f) = ram f"
  by (simp_all add: spillGPRs_def cong: if_cong)

lemma leave_bail [simp]: "leave_frame (f\<lparr>bail := b\<rparr>) = (b, at_machine f)" "at_machine (spillGPRs f) = at_machine f" "at_machine (f\<lparr>bail := b\<rparr>) = at_machine f"
  by (simp_all add: leave_frame_def at_machine_def Let_def)

lemma left_bail: "guest_run L X call g decls k c (pc, f) \<Longrightarrow> left_from L X call g decls k' c (bailTo pc f)"
  "guest_run L X call g decls k c (pc, f) \<Longrightarrow> left_from L X call g decls k' c (bailTo pc (spillGPRs f))"
  by (auto simp: left_from_def bailTo_def hands_over_def intro!: exI [of _ k] exI [of _ "(pc, f)"])

lemma left_control:
  assumes "llvm64_doc L" and "rd g pc = Some insn" and "ctl_k (decode_ctl pc insn) \<notin> {Fall, Trap}" and run: "guest_run L X call g decls k c (pc, f)"
    and "\<And>t. ctl_k (decode_ctl pc insn) = Jump \<Longrightarrow> t = ctl_target (decode_ctl pc insn) \<Longrightarrow> fn_blocks gf t \<noteq> None"
  shows "left_from L X call g decls (Suc k) c (emit_control L g gf blk pc insn f)"
proof -
  let ?c = "decode_ctl pc insn"
  note right = emit_control_right [OF assms(1-3), where fr = f and gf = gf and blk = blk]
  show ?thesis
  proof (cases "guest_step L (rd g) (pc, f)")
    case None
    then have "emit_control L g gf blk pc insn f = bailTo pc f \<or>
        ctl_k ?c \<in> {Call, Jalr} \<and> emit_control L g gf blk pc insn f = bailTo pc (r_setGPR L None 31 (scast (pc + 8)) f)"
      using right by simp
    then show ?thesis
    proof (elim disjE conjE)
      assume "emit_control L g gf blk pc insn f = bailTo pc f"
      then show ?thesis using left_bail(1) [OF run] by simp
    next
      assume e: "ctl_k ?c \<in> {Call, Jalr}" "emit_control L g gf blk pc insn f = bailTo pc (r_setGPR L None 31 (scast (pc + 8)) f)"
      have "calls_at (rd g) pc" using e(1) by (simp add: calls_at_def assms(2))
      then show ?thesis using run None by (auto simp: e(2) left_from_def bailTo_def hands_over_def intro!: exI [of _ k] exI [of _ "(pc, f)"])
    qed
  next
    case (Some tf)
    obtain t f' where tf: "tf = (t, f')" by (cases tf)
    note s = Some [unfolded tf]
    have jump: "t = ctl_target ?c" if "ctl_k ?c = Jump"
      using s that by (auto simp: guest_step_def Let_def assms(2) split: option.splits if_splits)
    show ?thesis
    proof (cases "ctl_k ?c \<in> {Call, Jalr}")
      case True
      then have at: "calls_at (rd g) pc" by (simp add: calls_at_def assms(2))
      from True show ?thesis
        using right run at s by (auto simp: left_from_def Let_def call_at_def assms(2) split: option.splits intro!: exI [of _ k] exI [of _ pc] exI [of _ f])
    next
      case False
      then have c: "\<not> calls_at (rd g) pc" by (simp add: calls_at_def assms(2))
      show ?thesis
      proof (cases "ctl_k ?c = Jr \<and> ctl_reg ?c = 31")
        case True
        then have "returns_at (rd g) pc" by (simp add: returns_at_def assms(2))
        then show ?thesis
          using right True run s by (auto simp: left_from_def bailTo_def hands_over_def intro!: exI [of _ k] exI [of _ "(pc, f)"])
      next
        case r: False
        then have "\<not> returns_at (rd g) pc" by (auto simp: returns_at_def assms(2))
        then have go: "guest_run L X call g decls (Suc k) c (t, f')" using guest_run.step [OF run c _ s] by blast
        have "emit_control L g gf blk pc insn f \<in> {Goes t f', bailTo t (spillGPRs f')}"
          using right s False r assms(3,5) jump by (cases "ctl_k ?c") (auto split: if_splits)
        moreover have "left_from L X call g decls (Suc k) c (Goes t f')" using go by (auto simp: left_from_def)
        ultimately show ?thesis using left_bail(2) [OF go] by (metis empty_iff insert_iff)
      qed
    qed
  qed
qed

end
