(* ===== verification/R4300_Props.thy ===== *)
theory R4300_Props
  imports R4300_Walk
begin

text \<open>
  What control-flow discovery does: its decoder against a table of the MIPS III encodings, the jump
  tables it follows, discovery as a whole, and what becomes of a branch into a delay slot and of a
  table that runs into unmapped memory.
\<close>

subsection \<open>The decoder\<close>

text \<open>
  The MIPS III control transfers as masks and patterns: the field of each mask is the whole
  opcode, and a word that matches none falls through.
\<close>

definition transfer_table :: "(u32 \<times> u32 \<times> kind) list" where
  "transfer_table =
    [(0xfc00003f, 0x00000008, Jr), (0xfc00003f, 0x00000009, Jalr),
     (0xfc00003f, 0x0000000c, Trap), (0xfc00003f, 0x0000000d, Trap),
     (0xfc1f0000, 0x04000000, Branch), (0xfc1f0000, 0x04010000, Branch), (0xfc1f0000, 0x04020000, Likely), (0xfc1f0000, 0x04030000, Likely),
     (0xfc1f0000, 0x04100000, Branch), (0xfc1f0000, 0x04110000, Branch), (0xfc1f0000, 0x04120000, Likely), (0xfc1f0000, 0x04130000, Likely),
     (0xfc000000, 0x08000000, Jump), (0xfc000000, 0x0c000000, Call),
     (0xfc000000, 0x10000000, Branch), (0xfc000000, 0x14000000, Branch), (0xfc000000, 0x18000000, Branch), (0xfc000000, 0x1c000000, Branch),
     (0xfc000000, 0x50000000, Likely), (0xfc000000, 0x54000000, Likely), (0xfc000000, 0x58000000, Likely), (0xfc000000, 0x5c000000, Likely),
     (0xffe20000, 0x45000000, Branch), (0xffe20000, 0x45020000, Likely)]"

fun classify :: "(u32 \<times> u32 \<times> kind) list \<Rightarrow> u32 \<Rightarrow> kind" where
  "classify [] insn = Fall"
| "classify ((m, v, k) # tab) insn = (if insn AND m = v then k else classify tab insn)"

lemma field_eq:
  fixes w :: u32
  assumes "drop_bit n (push_bit n m) = m" and "drop_bit n (push_bit n v) = v"
  shows "drop_bit n w AND m = v \<longleftrightarrow> w AND push_bit n m = push_bit n v"
proof
  assume "drop_bit n w AND m = v"
  then have "push_bit n (drop_bit n w) AND push_bit n m = push_bit n v" by (metis push_bit_and)
  moreover have "push_bit n (drop_bit n w) AND push_bit n m = w AND push_bit n m"
    by (rule bit_word_eqI) (auto simp: bit_simps)
  ultimately show "w AND push_bit n m = push_bit n v" by simp
next
  assume "w AND push_bit n m = push_bit n v"
  then have "drop_bit n (w AND push_bit n m) = v" using assms(2) by simp
  then show "drop_bit n w AND m = v" using assms(1) by simp
qed

lemma mask_both:
  fixes w :: u32
  assumes "m AND n = 0" and "u AND m = u" and "v AND n = v"
  shows "w AND (m OR n) = (u OR v) \<longleftrightarrow> w AND m = u \<and> w AND n = v"
proof -
  have "u AND n = u AND (m AND n)" "v AND m = v AND (m AND n)"
    using arg_cong [OF assms(2), of "\<lambda>x. x AND n"] arg_cong [OF assms(3), of "\<lambda>x. x AND m"] by (simp_all add: ac_simps)
  then have d: "u AND n = 0" "v AND m = 0" by (simp_all add: assms(1))
  show ?thesis
  proof
    assume e: "w AND (m OR n) = (u OR v)"
    have "(w AND (m OR n)) AND m = w AND m" "(w AND (m OR n)) AND n = w AND n"
      by (rule bit_word_eqI, auto simp: bit_simps)+
    moreover have "(u OR v) AND m = u" "(u OR v) AND n = v" using assms(2,3) d by (simp_all add: bit.conj_disj_distrib2)
    ultimately show "w AND m = u \<and> w AND n = v" using e by metis
  next
    assume "w AND m = u \<and> w AND n = v"
    then show "w AND (m OR n) = (u OR v)" by (simp add: bit.conj_disj_distrib)
  qed
qed

lemma op_field: "drop_bit 26 (push_bit 26 v) = v \<Longrightarrow> drop_bit 26 w = v \<longleftrightarrow> w AND 0xfc000000 = push_bit 26 v" for w :: u32
proof -
  assume v: "drop_bit 26 (push_bit 26 v) = v"
  have "drop_bit 26 w AND mask 6 = drop_bit 26 w"
    by (rule bit_word_eqI) (auto simp: bit_simps dest: bit_imp_le_length)
  then show ?thesis using field_eq [of 26 "mask 6" v w] v by (simp add: mask_eq_exp_minus_1)
qed

lemma pattern_eq:
  fixes w :: u32
  assumes "drop_bit 26 (push_bit 26 op) = op" and "drop_bit n (push_bit n m) = m" and "drop_bit n (push_bit n v) = v"
    and "0xfc000000 AND push_bit n m = 0" and "push_bit 26 op AND 0xfc000000 = push_bit 26 op" and "push_bit n v AND push_bit n m = push_bit n v"
  shows "w AND (0xfc000000 OR push_bit n m) = (push_bit 26 op OR push_bit n v) \<longleftrightarrow> drop_bit 26 w = op \<and> drop_bit n w AND m = v"
  by (simp add: mask_both [OF assms(4-6)] op_field [OF assms(1)] field_eq [OF assms(2,3)])

lemma cop1_eq:
  "insn AND 0xffe20000 = 0x45000000 \<longleftrightarrow> drop_bit 26 insn = 0x11 \<and> drop_bit 21 insn AND 31 = 8 \<and> drop_bit 16 insn AND 2 = 0"
  "insn AND 0xffe20000 = 0x45020000 \<longleftrightarrow> drop_bit 26 insn = 0x11 \<and> drop_bit 21 insn AND 31 = 8 \<and> drop_bit 16 insn AND 2 = 2"
  for insn :: u32
  using mask_both [of "0xffe00000" "0x20000" "0x45000000" 0 insn] mask_both [of "0xffe00000" "0x20000" "0x45000000" "0x20000" insn]
    pattern_eq [of "0x11" 21 31 8 insn] field_eq [of 16 2 0 insn] field_eq [of 16 2 2 insn]
  by simp_all

lemmas special_eq = pattern_eq [of 0 0 "0x3f" 8, simplified] pattern_eq [of 0 0 "0x3f" 9, simplified]
  pattern_eq [of 0 0 "0x3f" 12, simplified] pattern_eq [of 0 0 "0x3f" 13, simplified]

lemmas regimm_eq = pattern_eq [of 1 16 31 0, simplified] pattern_eq [of 1 16 31 1, simplified] pattern_eq [of 1 16 31 2, simplified]
  pattern_eq [of 1 16 31 3, simplified] pattern_eq [of 1 16 31 16, simplified] pattern_eq [of 1 16 31 17, simplified]
  pattern_eq [of 1 16 31 18, simplified] pattern_eq [of 1 16 31 19, simplified]

lemmas opcode_eq = op_field [of 2, simplified, symmetric] op_field [of 3, simplified, symmetric] op_field [of 4, simplified, symmetric]
  op_field [of 5, simplified, symmetric] op_field [of 6, simplified, symmetric] op_field [of 7, simplified, symmetric]
  op_field [of "0x14", simplified, symmetric] op_field [of "0x15", simplified, symmetric] op_field [of "0x16", simplified, symmetric]
  op_field [of "0x17", simplified, symmetric]

lemma five_bits: "drop_bit n w AND 31 \<in> set (map of_nat [0..<32])" for w :: u32
proof -
  have "unat (drop_bit n w AND 31) < 32"
    using word_and_le1 [of "drop_bit n w" 31] by (simp add: word_le_nat_alt)
  then show ?thesis by (auto intro!: image_eqI [of _ _ "unat (drop_bit n w AND 31)"])
qed

lemma regimm_rt:
  fixes insn :: u32
  defines "rt \<equiv> drop_bit 16 insn AND 31"
  shows "rt AND 0x0c = 0 \<longleftrightarrow> rt \<in> {0, 1, 2, 3, 16, 17, 18, 19}" "rt AND 0x0c \<noteq> 0x10"
    "rt AND 0x0c = 0 \<Longrightarrow> rt AND 2 = 0 \<longleftrightarrow> rt \<in> {0, 1, 16, 17}"
proof -
  have m: "rt \<in> set (map of_nat [0..<32])" unfolding rt_def by (rule five_bits)
  show "rt AND 0x0c = 0 \<longleftrightarrow> rt \<in> {0, 1, 2, 3, 16, 17, 18, 19}" "rt AND 0x0c \<noteq> 0x10"
    "rt AND 0x0c = 0 \<Longrightarrow> rt AND 2 = 0 \<longleftrightarrow> rt \<in> {0, 1, 16, 17}"
    using m by (auto simp: upt_rec)
qed

lemma decode_kind: "ctl_k (decode_ctl pc insn) = classify transfer_table insn"
proof -
  let ?op = "drop_bit 26 insn"
  have rt: "(drop_bit 16 insn AND 31) AND 2 = drop_bit 16 insn AND 2" by (simp add: and.assoc)
  have two: "x AND 2 = 2 \<longleftrightarrow> x AND 2 \<noteq> 0" for x :: u32
    using five_bits [of 0 x] by (subst (1 2) and.assoc [of x 31 2, simplified, symmetric]) (auto simp: upt_rec)
  have "ctl_k (decode_ctl pc insn) =
    (if ?op = 0 then (let fn = insn AND 63 in if fn = 8 then Jr else if fn = 9 then Jalr else if fn = 12 \<or> fn = 13 then Trap else Fall)
     else if ?op = 1 then
       (let rt = drop_bit 16 insn AND 31 in if rt \<in> {0, 1, 16, 17} then Branch else if rt \<in> {2, 3, 18, 19} then Likely else Fall)
     else if ?op = 2 then Jump else if ?op = 3 then Call else if ?op \<in> {4, 5, 6, 7} then Branch else if ?op \<in> {20, 21, 22, 23} then Likely
     else if ?op = 17 \<and> drop_bit 21 insn AND 31 = 8 then (if drop_bit 16 insn AND 2 = 0 then Branch else Likely) else Fall)"
    using regimm_rt [of insn] by (auto simp: decode_ctl_def Let_def rt)
  also have "\<dots> = classify transfer_table insn"
    unfolding transfer_table_def classify.simps special_eq regimm_eq opcode_eq cop1_eq Let_def two
    by auto
  finally show ?thesis .
qed

lemma jump_index: "(pc AND 0xf0000000) OR push_bit 2 (insn AND 0x3ffffff) = (pc AND 0xf0000000) + 4 * (insn AND 0x3ffffff)" for pc insn :: u32
proof -
  have "push_bit 2 (insn AND 0x3ffffff) = push_bit 2 insn AND 0x0ffffffc" by (simp add: push_bit_and)
  then have "(pc AND 0xf0000000) AND push_bit 2 (insn AND 0x3ffffff) = (pc AND push_bit 2 insn) AND (0xf0000000 AND 0x0ffffffc)"
    by (simp only: ac_simps)
  then have "(pc AND 0xf0000000) AND push_bit 2 (insn AND 0x3ffffff) = 0" by simp
  then show ?thesis by (simp add: disjunctive_add_eq_or [symmetric] push_bit_eq_mult)
qed

lemma branch_offset: "push_bit 2 (scast (ucast (insn AND 0xffff) :: 16 word)) = 4 * word_of_int (sint (ucast insn :: 16 word))" for insn :: u32
proof -
  have low: "insn AND 0xffff = take_bit 16 insn" by (simp add: take_bit_eq_mask mask_eq_exp_minus_1)
  have "(ucast (insn AND 0xffff) :: 16 word) = ucast insn"
    unfolding low by (rule bit_word_eqI) (simp add: bit_simps)
  then show ?thesis by (simp add: push_bit_eq_mult)
qed


subsection \<open>Jump tables\<close>

text \<open>The words a jump table is recognised by: the bound at \<open>s\<close> in front of the \<open>lui\<close> at \<open>u\<close>, and that \<open>lui\<close>.\<close>

definition bound_at :: "read_fn \<Rightarrow> u32 \<Rightarrow> u32 \<Rightarrow> bool" where
  "bound_at read u count \<longleftrightarrow> (\<exists>s slt. read s = Some slt \<and> drop_bit 26 slt = 0x0b \<and> count = slt AND 0xffff \<and> u \<le> s + 64)"

definition base_at :: "read_fn \<Rightarrow> u32 \<Rightarrow> u32 \<Rightarrow> u32 \<Rightarrow> u32 \<Rightarrow> u32 \<Rightarrow> bool" where
  "base_at read jr_pc reg lo b count \<longleftrightarrow> (\<exists>u lui. read u = Some lui \<and> drop_bit 26 lui = 0x0f \<and> drop_bit 16 lui AND 31 = reg \<and>
    jr_pc \<le> u + 64 \<and> b = lo + push_bit 16 (lui AND 0xffff) \<and> bound_at read u count)"

definition table_at :: "read_fn \<Rightarrow> u32 \<Rightarrow> u32 \<Rightarrow> u32 \<Rightarrow> u32 \<Rightarrow> bool" where
  "table_at read jr_pc reg b count \<longleftrightarrow> (\<exists>l lw. read l = Some lw \<and> drop_bit 26 lw = 0x23 \<and> drop_bit 16 lw AND 31 = reg \<and> jr_pc \<le> l + 64 \<and>
    base_at read jr_pc (drop_bit 21 lw AND 31) (scast (ucast (lw AND 0xffff) :: 16 word)) b count)"

lemma find_bound_found:
  assumes "find_bound read pc q = Some n" and "n \<noteq> 0"
  shows "bound_at read pc n"
proof -
  have "n \<noteq> 0 \<longrightarrow> bound_at read pc n"
    by (rule find_bound.raw_induct [OF _ assms(1), of "\<lambda>read pc q n. n \<noteq> 0 \<longrightarrow> bound_at read pc n"])
      (auto simp: bound_at_def split: if_splits option.splits)
  then show ?thesis using assms(2) by blast
qed

lemma scan_table_found:
  assumes "scan_table read jr_pc pc reg base = Some (Some (Some b, count))" and "count \<noteq> 0"
  shows "case base of None \<Rightarrow> table_at read jr_pc reg b count | Some lo \<Rightarrow> base_at read jr_pc reg lo b count"
proof -
  let ?P = "\<lambda>read jr_pc pc reg base r. \<forall>b count. r = Some (Some b, count) \<longrightarrow> count \<noteq> 0 \<longrightarrow>
    (case base of None \<Rightarrow> table_at read jr_pc reg b count | Some lo \<Rightarrow> base_at read jr_pc reg lo b count)"
  have "?P read jr_pc pc reg base (Some (Some b, count))"
  proof (rule scan_table.raw_induct [OF _ assms(1), of ?P], goal_cases)
    case (1 f read jr_pc pc reg base r)
    note step = 1(2) and IH = 1(1) [of read jr_pc "pc - 4" _ _ r]
    show ?case
    proof (cases base)
      case None
      then show ?thesis
        using step IH by (fastforce simp: Let_def table_at_def split: if_splits option.splits)
    next
      case (Some x)
      then show ?thesis
        using step IH find_bound_found [of read pc "pc - 4"]
        by (fastforce simp: Let_def base_at_def bind_eq_Some_conv split: if_splits option.splits)
    qed
  qed
  then show ?thesis using assms(2) by blast
qed

lemma read_table_all: "read_table read base is = (True, es) \<Longrightarrow> map (\<lambda>i. read (base + of_nat i * 4)) is = map Some es"
  by (induction "is" arbitrary: es) (auto split: option.splits prod.splits)

text \<open>
  C38: A jump table that is resolved has a bound between one and 256 that a \<open>sltiu\<close> gives, a base the
  \<open>lui\<close> and \<open>lw\<close> in front of the jump give, and its entries are the words of memory from the base on.
\<close>

theorem jump_table_is_bounded:
  assumes "jump_table read pc = Some (True, ts)"
  shows "\<exists>jr base count. read pc = Some jr \<and> table_at read pc (drop_bit 21 jr AND 31) base count \<and>
    0 < count \<and> count \<le> 256 \<and> length ts = unat count \<and> (\<forall>i < length ts. read (base + 4 * of_nat i) = Some (ts ! i))"
proof -
  obtain jr where jr: "read pc = Some jr" using assms by (auto simp: jump_table_def split: option.splits)
  obtain r where r: "scan_table read pc (pc - 4) (drop_bit 21 jr AND 31) None = Some r"
    using assms by (auto simp: jump_table_def jr bind_eq_Some_conv)
  then obtain base count where rb: "r = Some (Some base, count)"
    using assms by (auto simp: jump_table_def jr split: option.splits)
  have b: "count \<noteq> 0" "count \<le> 256" "read_table read base [0..<unat count] = (True, ts)"
    using assms by (auto simp: jump_table_def jr r rb not_less split: if_splits)
  have "table_at read pc (drop_bit 21 jr AND 31) base count" using scan_table_found [OF r [unfolded rb] b(1)] by simp
  moreover note m = read_table_all [OF b(3)]
  moreover have l: "length ts = unat count" using arg_cong [OF m, of length] by simp
  moreover have "read (base + 4 * of_nat i) = Some (ts ! i)" if "i < length ts" for i
    using arg_cong [OF m, of "\<lambda>xs. xs ! i"] that l by (simp add: ac_simps)
  ultimately show ?thesis using jr b(1,2) by (auto simp: word_neq_0_conv)
qed

definition switch_code :: "(u32 \<times> u32) list" where
  "switch_code = [(0x1ff8, 0x2c410002), (0x1ffc, 0x3c010000), (0x2000, 0x8c283000), (0x2004, 0x01000008), (0x2008, 0),
    (0x3000, 0x2004), (0x3004, 0x1ff8)]"

theorem jump_table_is_bounded_witness:
  "\<exists>jr base count. map_of switch_code 0x2004 = Some jr \<and> table_at (map_of switch_code) 0x2004 (drop_bit 21 jr AND 31) base count \<and>
    count \<le> 256 \<and> 2 = unat count \<and> map_of switch_code (base + 4) = Some 0x1ff8"
proof -
  have s: "scan_table (map_of switch_code) 0x2004 0x2000 8 None = Some (Some (Some 0x3000, 2))"
    by (subst scan_table.simps, simp add: switch_code_def, subst scan_table.simps, simp, subst find_bound.simps, simp)
  have "read_table (map_of switch_code) 0x3000 [0, 1] = (True, [0x2004, 0x1ff8])" by (simp add: switch_code_def)
  then have "jump_table (map_of switch_code) 0x2004 = Some (True, [0x2004, 0x1ff8])"
    using s unfolding jump_table_def by (simp add: switch_code_def upt_rec)
  from jump_table_is_bounded [OF this] obtain jr base count where b: "map_of switch_code 0x2004 = Some jr"
    "table_at (map_of switch_code) 0x2004 (drop_bit 21 jr AND 31) base count" "count \<le> 256" "2 = unat count"
    "\<forall>i < length [0x2004 :: u32, 0x1ff8]. map_of switch_code (base + 4 * of_nat i) = Some ([0x2004, 0x1ff8] ! i)"
    by auto
  have "map_of switch_code (base + 4) = Some 0x1ff8" using b(5) [rule_format, of 1] by simp
  then show ?thesis using b(1-4) by blast
qed

subsection \<open>Memories given as lists\<close>

definition cfg_of :: "(u32 \<times> u32) list \<Rightarrow> cfg" where
  "cfg_of code = \<lparr>rd = map_of code, hints = Map.empty, funcs = Map.empty, problems = [], n_jr_static = 0, n_jr_hint = 0, n_traps = 0\<rparr>"

lemma cfg_of_simps [simp]: "rd (cfg_of code) = map_of code" "hints (cfg_of code) = Map.empty" "funcs (cfg_of code) = Map.empty"
  by (simp_all add: cfg_of_def)

lemma gaps_map_of:
  assumes "length code < 2 ^ 30"
  shows "gaps (map_of code)"
  unfolding gaps_def
proof (rule allI, rule ccontr)
  fix a :: u32
  assume "\<nexists>n. map_of code (a + 4 * of_nat n) = None"
  then have "(\<lambda>n. a + 4 * of_nat n) ` {..<2 ^ 30} \<subseteq> dom (map_of code)" by auto
  then have "card ((\<lambda>n. a + 4 * of_nat n) ` {..<2 ^ 30}) \<le> card (dom (map_of code))"
    by (intro card_mono finite_dom_map_of)
  also have "\<dots> \<le> card (fst ` set code)" by (simp add: dom_map_of_conv_image_fst)
  also have "\<dots> \<le> length code" using card_image_le [of "set code" fst] card_length [of code] by simp
  finally have "card ((\<lambda>n. a + 4 * of_nat n) ` {..<2 ^ 30}) < 2 ^ 30" using assms by simp
  moreover have "inj_on (\<lambda>n. a + 4 * of_nat n) {..<2 ^ 30}"
  proof (rule inj_onI)
    fix m n :: nat
    assume m: "m \<in> {..<2 ^ 30}" "n \<in> {..<2 ^ 30}" "a + 4 * of_nat m = a + 4 * of_nat n"
    then have "(of_nat (4 * m) :: u32) = of_nat (4 * n)" by simp
    then have "take_bit 32 (4 * m) = take_bit 32 (4 * n)" by (simp add: word_of_nat_eq_iff del: of_nat_mult)
    then show "m = n" using m(1,2) by (simp add: take_bit_eq_mod)
  qed
  ultimately show False by (simp add: card_image)
qed

subsection \<open>Discovery\<close>



subsection \<open>A branch into a delay slot\<close>

text \<open>
  \<open>beq\<close> jumps over \<open>j\<close> into its delay slot at \<open>0x100c\<close>, from where the code goes on to the
  \<open>jr $ra\<close> at \<open>0x1010\<close>.
\<close>

definition slot_entry :: "(u32 \<times> u32) list" where
  "slot_entry = [(0x1000, 0x10000002), (0x1004, 0), (0x1008, 0x08000400), (0x100c, 0), (0x1010, 0x03e00008), (0x1014, 0)]"

lemma slot_entry_code:
  "decode_ctl 0x1000 0x10000002 = \<lparr>ctl_k = Branch, ctl_target = 0x100c, ctl_reg = 0\<rparr>"
  "decode_ctl 0x1008 0x08000400 = \<lparr>ctl_k = Jump, ctl_target = 0x1000, ctl_reg = 0\<rparr>"
  "decode_ctl 0x1010 0x03e00008 = \<lparr>ctl_k = Jr, ctl_target = 0, ctl_reg = 31\<rparr>"
  "decode_ctl pc 0 = \<lparr>ctl_k = Fall, ctl_target = 0, ctl_reg = 0\<rparr>"
  by (simp_all add: decode_ctl_def Let_def)

lemmas pass1_eval = terminator_def open_edges_def add_succ_def Let_def

lemma slot_entry_walk:
  "\<exists>st. walk_all (pass1_init 0x1000 (cfg_of slot_entry)) = Some st \<and> p_leaders st = {0x1000, 0x1008, 0x100c} \<and>
    p_seen st = {0x1000, 0x1008, 0x100c} \<and> p_ends st = {0x1008, 0x1010, 0x1018} \<and> p_cfg st = cfg_of slot_entry \<and>
    p_edges st = [0x1008 \<mapsto> [0x100c, 0x1008], 0x1010 \<mapsto> [0x1000], 0x1018 \<mapsto> []] \<and> fn_blocks (p_fn st) = Map.empty"
  unfolding pass1_init_def
  apply (subst walk_all.simps, simp add: walk_run.simps [of "0x1000"] slot_entry_code cfg_of_def slot_entry_def pass1_eval)
  apply (subst walk_all.simps, simp add: walk_run.simps [of "0x100c"] walk_run.simps [of "0x1010"] slot_entry_code pass1_eval)
  apply (subst walk_all.simps, simp add: walk_run.simps [of "0x1008"] slot_entry_code pass1_eval)
  apply (subst walk_all.simps, simp)
  apply (subst walk_all.simps, auto)
  done


subsection \<open>A table that runs into unmapped memory\<close>

text \<open>A switch with three entries of which only the first, \<open>0x2000\<close>, is mapped.\<close>

definition broken_table :: "(u32 \<times> u32) list" where
  "broken_table = [(0x2000, 0x2c410003), (0x2004, 0x3c010000), (0x2008, 0x8c283000), (0x200c, 0x01000008), (0x2010, 0), (0x3000, 0x2000)]"

lemma broken_table_code:
  "decode_ctl 0x2000 0x2c410003 = \<lparr>ctl_k = Fall, ctl_target = 0, ctl_reg = 0\<rparr>"
  "decode_ctl 0x2004 0x3c010000 = \<lparr>ctl_k = Fall, ctl_target = 0, ctl_reg = 0\<rparr>"
  "decode_ctl 0x2008 0x8c283000 = \<lparr>ctl_k = Fall, ctl_target = 0, ctl_reg = 0\<rparr>"
  "decode_ctl 0x200c 0x01000008 = \<lparr>ctl_k = Jr, ctl_target = 0, ctl_reg = 8\<rparr>"
  by (simp_all add: decode_ctl_def Let_def)

lemma broken_table_words:
  "map_of broken_table 0x2000 = Some 0x2c410003" "map_of broken_table 0x2004 = Some 0x3c010000"
  "map_of broken_table 0x2008 = Some 0x8c283000" "map_of broken_table 0x200c = Some 0x01000008"
  by (simp_all add: broken_table_def)

lemma broken_table_read: "jump_table (map_of broken_table) 0x200c = Some (False, [0x2000])"
proof -
  have s: "scan_table (map_of broken_table) 0x200c 0x2008 8 None = Some (Some (Some 0x3000, 3))"
    by (subst scan_table.simps, simp add: broken_table_def, subst scan_table.simps, simp, subst find_bound.simps, simp)
  have "read_table (map_of broken_table) 0x3000 [0, 1, 2] = (False, [0x2000])" by (simp add: broken_table_def)
  then show ?thesis using s unfolding jump_table_def by (simp add: broken_table_def upt_rec)
qed

lemma broken_table_walk:
  "\<exists>st. walk_all (pass1_init 0x2000 (cfg_of broken_table)) = Some st \<and> p_leaders st = {0x2000} \<and> p_seen st = {0x2000} \<and>
    p_ends st = {0x2014} \<and> p_cfg st = (cfg_of broken_table)\<lparr>problems := [(0x200c, Unresolved_jr)]\<rparr> \<and>
    p_edges st = [0x2014 \<mapsto> [0x2000]] \<and> fn_blocks (p_fn st) = Map.empty"
proof -
  note run = walk_run.simps [of "0x2000"] walk_run.simps [of "0x2004"] walk_run.simps [of "0x2008"] walk_run.simps [of "0x200c"]
  show ?thesis
    unfolding pass1_init_def
    apply (subst walk_all.simps, simp add: run broken_table_words broken_table_code broken_table_read pass1_eval jr_targets_def problem_at_def)
    apply (subst walk_all.simps, simp)
    apply (subst walk_all.simps, simp add: cfg_of_def)
    done
qed


end
