(* ===== verification/R4300_Sound.thy ===== *)
theory R4300_Sound
  imports R4300_Guest R4300_Props
begin

text \<open>
  Translated R4300 functions: the code of a block of the discovered graph does the guest's steps,
  and so does the run of a function, up to where it returns or hands over to the interpreter.
\<close>

subsection \<open>Blocks\<close>

lemma op_ranges:
  "4 \<le> x \<and> x \<le> 7 \<longleftrightarrow> x = 4 \<or> x = 5 \<or> x = 6 \<or> x = 7" "20 \<le> x \<and> x \<le> 23 \<longleftrightarrow> x = 20 \<or> x = 21 \<or> x = 22 \<or> x = 23" for x :: u32
  by (auto simp: word_le_nat_alt word_eq_iff_unsigned [where ?'a = nat])

lemma regimm_other: "rt AND 0x0c \<noteq> 0 \<Longrightarrow> 3 < rt" for rt :: u32
proof (rule ccontr)
  assume a: "rt AND 0x0c \<noteq> 0" "\<not> 3 < rt"
  then have "unat rt = 0 \<or> unat rt = 1 \<or> unat rt = 2 \<or> unat rt = 3" by (auto simp: word_less_nat_alt)
  then have "rt = 0 \<or> rt = 1 \<or> rt = 2 \<or> rt = 3" by (auto simp: word_eq_iff_unsigned [where ?'a = nat])
  then show False using a(1) by auto
qed

lemma fall_ctl:
  assumes "isCtl insn" and "ctl_k (decode_ctl pc insn) = Fall"
  shows "drop_bit 26 insn = 1 \<and> 3 < drop_bit 16 insn AND 31"
  using assms regimm_other [of "drop_bit 16 insn AND 31"]
  by (auto simp: decode_ctl_def Let_def isCtl_def op_ranges split: if_splits)

lemma trap_untranslated:
  assumes "ctl_k (decode_ctl pc insn) = Trap"
  shows "\<not> isCtl insn \<and> emitOne L None insn fr = None"
proof -
  have "drop_bit 26 insn = 0" "insn AND 0x3f = 12 \<or> insn AND 0x3f = 13"
    using assms by (auto simp: decode_ctl_def Let_def split: if_splits)
  then have "\<not> isCtl insn" "\<not> plain_ok insn" by (auto simp: isCtl_def plain_ok_def Let_def)
  then show ?thesis using emitOne_ok by blast
qed

text \<open>The top of the address space is not mapped, so that the end of a block is past its start.\<close>

definition top_unmapped :: "read_fn \<Rightarrow> bool" where
  "top_unmapped read \<longleftrightarrow> (\<forall>a \<ge> 0xfffffff8. read a = None)"

lemma mapped_below:
  assumes "top_unmapped read" and "read a \<noteq> None"
  shows "a < a + 4" "a < a + 8" "unat (a + 4) = unat a + 4"
proof -
  have "a < 0xfffffff8" using assms(1) [unfolded top_unmapped_def, rule_format, of a] assms(2) by (rule_tac ccontr) (simp add: not_less)
  then have "unat a < unat (0xfffffff8 :: u32)" by (simp only: word_less_nat_alt)
  then have "unat a < 0xfffffff8" by simp
  then have "unat a + unat (4 :: u32) < 2 ^ LENGTH(32)" "unat a + unat (8 :: u32) < 2 ^ LENGTH(32)" by simp_all
  then have u: "unat (a + 4) = unat a + 4" "unat (a + 8) = unat a + 8" by (simp_all only: unat_add_lem) simp_all
  then show "a < a + 4" "a < a + 8" "unat (a + 4) = unat a + 4" by (simp_all add: word_less_nat_alt)
qed

lemma falls_mapped: "falls_at read a \<Longrightarrow> read a \<noteq> None"
  by (auto simp: falls_at_def)

lemma falls_below:
  "top_unmapped read \<Longrightarrow> \<forall>i < n. falls_at read (pc + 4 * of_nat i) \<Longrightarrow> unat (pc + 4 * of_nat n) = unat pc + 4 * n"
proof (induction n)
  case (Suc n)
  have "read (pc + 4 * of_nat n) \<noteq> None" using Suc.prems(2) falls_mapped by blast
  from mapped_below(3) [OF Suc.prems(1) this] Suc show ?case by (simp add: algebra_simps)
qed simp

lemma emit_block_right:
  assumes "llvm64_doc L" and "top_unmapped (rd g)"
  shows "\<forall>i < n. falls_at (rd g) (pc + 4 * of_nat i) \<Longrightarrow> x = pc + 4 * of_nat n \<Longrightarrow>
    b_end blk = x \<or> traps_at (rd g) x \<and> b_end blk = x + 4 \<or>
    (\<exists>c. transfers_at (rd g) x c \<and> b_end blk = x + 8 \<and> (ctl_k c = Jump \<longrightarrow> fn_blocks gf (ctl_target c) \<noteq> None)) \<Longrightarrow>
    guest_run L X call g decls k c (pc, fr) \<Longrightarrow>
    \<exists>out. emit_block L g gf blk pc fr = Some out \<and>
      (left_from L X call g decls (Suc k) c out \<or> n = 0 \<and> b_end blk = pc \<and> out = Goes pc fr)"
proof (induction n arbitrary: pc fr k)
  case 0
  then have x: "x = pc" by simp
  note run = 0(4)
  consider "b_end blk = pc" | "traps_at (rd g) pc" "b_end blk = pc + 4"
    | c' where "transfers_at (rd g) pc c'" "b_end blk = pc + 8" "ctl_k c' = Jump \<longrightarrow> fn_blocks gf (ctl_target c') \<noteq> None"
    using 0(3) x by blast
  then show ?case
  proof cases
    case 1
    then have "emit_block L g gf blk pc fr = Some (Goes pc fr)" by (subst emit_block.simps) simp
    then show ?thesis using 1 by simp
  next
    case 2
    then obtain insn where i: "rd g pc = Some insn" "ctl_k (decode_ctl pc insn) = Trap" by (auto simp: traps_at_def)
    then have "emit_block L g gf blk pc fr = Some (bailTo pc fr)"
      using trap_untranslated [OF i(2), of L fr] mapped_below [OF assms(2), of pc] 2 by (subst emit_block.simps) simp
    then show ?thesis using left_bail(1) [OF run] by blast
  next
    case 3
    then obtain insn where i: "rd g pc = Some insn" "c' = decode_ctl pc insn" "ctl_k c' \<notin> {Fall, Trap}" by (auto simp: transfers_at_def)
    then have "emit_block L g gf blk pc fr = Some (emit_control L g gf blk pc insn fr)"
      using isCtl_kind [of pc insn] mapped_below [OF assms(2), of pc] 3 by (subst emit_block.simps) simp
    then show ?thesis using left_control [OF assms(1) i(1) _ run] i 3 by blast
  qed
next
  case (Suc n)
  have f: "falls_at (rd g) pc" using Suc.prems(1) by force
  then obtain insn where i: "rd g pc = Some insn" "ctl_k (decode_ctl pc insn) = Fall" by (auto simp: falls_at_def)
  have lt: "pc < b_end blk"
  proof -
    have x: "unat x = unat pc + 4 * Suc n" using falls_below [OF assms(2) Suc.prems(1)] Suc.prems(2) by simp
    have "rd g x \<noteq> None \<Longrightarrow> x < x + 4 \<and> x < x + 8" using mapped_below [OF assms(2)] by blast
    then have "x \<le> b_end blk" using Suc.prems(3) by (auto simp: traps_at_def transfers_at_def dest: less_imp_le)
    moreover have "pc < x" using x by (simp add: word_less_nat_alt)
    ultimately show ?thesis by simp
  qed
  have step: "guest_step L (rd g) (pc, fr) = map_option (\<lambda>fr. (pc + 4, fr)) (emitOne L None insn fr)" using i by (simp add: guest_step_def)
  show ?case
  proof (cases "isCtl insn \<or> emitOne L None insn fr = None")
    case True
    have "emit_block L g gf blk pc fr = Some (bailTo pc fr)"
      using True fall_ctl [of insn pc] i lt by (subst emit_block.simps) (auto simp: emit_control_def Let_def split: option.splits)
    then show ?thesis using left_bail(1) [OF Suc.prems(4)] by blast
  next
    case False
    then obtain fr' where e: "emitOne L None insn fr = Some fr'" by blast
    have "\<not> calls_at (rd g) pc" "\<not> returns_at (rd g) pc" using i by (simp_all add: calls_at_def returns_at_def)
    from guest_run.step [OF Suc.prems(4) this] have run: "guest_run L X call g decls (Suc k) c (pc + 4, fr')" by (simp add: step e)
    have s: "pc + 4 * of_nat (Suc j) = pc + 4 + 4 * of_nat j" for j by (simp add: algebra_simps)
    have "\<forall>j < n. falls_at (rd g) (pc + 4 + 4 * of_nat j)"
      using Suc.prems(1) by (metis s Suc_less_eq)
    from Suc.IH [OF this _ Suc.prems(3) run] obtain out where out: "emit_block L g gf blk (pc + 4) fr' = Some out"
      "left_from L X call g decls (Suc (Suc k)) c out \<or> out = Goes (pc + 4) fr'"
      using Suc.prems(2) unfolding s by blast
    have "left_from L X call g decls (Suc k) c out"
      using out(2)
    proof
      assume "left_from L X call g decls (Suc (Suc k)) c out"
      then show ?thesis by (rule left_weaken) simp
    next
      assume "out = Goes (pc + 4) fr'"
      then show ?thesis using run by (auto simp: left_from_def)
    qed
    then have "\<exists>out. emit_block L g gf blk (pc + 4) fr' = Some out \<and> left_from L X call g decls (Suc k) c out" using out(1) by blast
    moreover have "emit_block L g gf blk pc fr = emit_block L g gf blk (pc + 4) fr'"
      using False i lt e by (subst emit_block.simps) simp
    ultimately show ?thesis by simp
  qed
qed


lemma block_run:
  assumes "llvm64_doc L" and "top_unmapped (rd g)" and "block_ok (rd g) (hints g) gf start blk" and "guest_run L X call g decls k c (start, fr)"
  shows "\<exists>out. emit_block L g gf blk (b_start blk) fr = Some out \<and>
    (left_from L X call g decls (Suc k) c out \<or> rd g start = None \<and> out = Goes start fr)"
proof -
  have start: "b_start blk = start" using assms(3) by (simp add: block_ok_def)
  obtain n where n: "\<forall>i < n. falls_at (rd g) (start + 4 * of_nat i)" and e: "let x = start + 4 * of_nat n
       in (\<exists>c. transfers_at (rd g) x c \<and> b_end blk = x + 8 \<and> term_succs (rd g) (hints g) x c = Some (b_succs blk) \<and>
             (\<forall>s \<in> set (b_succs blk). fn_blocks gf s \<noteq> None)) \<or>
          (traps_at (rd g) x \<and> b_end blk = x + 4) \<or> b_end blk = x \<and> (0 < n \<or> rd g x = None)"
    using assms(3) unfolding block_ok_def Let_def by blast
  let ?x = "start + 4 * of_nat n"
  have "b_end blk = ?x \<or> traps_at (rd g) ?x \<and> b_end blk = ?x + 4 \<or>
    (\<exists>c. transfers_at (rd g) ?x c \<and> b_end blk = ?x + 8 \<and> (ctl_k c = Jump \<longrightarrow> fn_blocks gf (ctl_target c) \<noteq> None))"
    using e unfolding Let_def
  proof (elim disjE exE conjE)
    fix c
    assume c: "transfers_at (rd g) ?x c" "b_end blk = ?x + 8" "term_succs (rd g) (hints g) ?x c = Some (b_succs blk)"
      "\<forall>s \<in> set (b_succs blk). fn_blocks gf s \<noteq> None"
    have "b_succs blk = [ctl_target c]" if "ctl_k c = Jump" using c(3) that by (simp add: term_succs_def)
    then have "ctl_k c = Jump \<longrightarrow> fn_blocks gf (ctl_target c) \<noteq> None" using c(4) by simp
    then show ?thesis using c(1,2) by blast
  qed blast+
  from emit_block_right [OF assms(1,2) n refl this assms(4)] obtain out where out: "emit_block L g gf blk start fr = Some out"
    "left_from L X call g decls (Suc k) c out \<or> n = 0 \<and> b_end blk = start \<and> out = Goes start fr"
    by blast
  have "rd g start = None" if "n = 0" "b_end blk = start"
    using e that mapped_below [OF assms(2), of start] by (auto simp: Let_def)
  then show ?thesis using out unfolding start by blast
qed

text \<open>
  What a run of code with \<open>n\<close> for the blocks and calls comes to: the guest has got to a point
  where the function hands over, or at a call that ends the process.  Otherwise the guest has made half
  as many steps, or is at a call that does not return or where no memory is mapped.
\<close>

definition comes_to :: "llvm64 \<Rightarrow> ('x machine \<Rightarrow> 'x machine) \<Rightarrow> 'x callee \<Rightarrow> cfg \<Rightarrow> u32 set \<Rightarrow> bool \<Rightarrow> u32 \<times> 'x fnframe \<Rightarrow> (bt_error + u32 \<times> 'x machine) option \<Rightarrow> bool" where
  "comes_to L X call g decls enough p res =
    (case res of
       Some (Inr q) \<Rightarrow> hands_over L g p q
     | Some (Inl e) \<Rightarrow> calls_with L X call g decls p (Some (Inl e))
     | None \<Rightarrow> enough \<or> calls_with L X call g decls p None \<or> rd g (fst p) = None)"

abbreviation left_by :: "(bt_error + 'x fnframe) option \<Rightarrow> (bt_error + u32 \<times> 'x machine) option" where
  "left_by \<equiv> map_option (map_sum id leave_frame)"

definition pending :: "'x leaving \<Rightarrow> nat" where
  "pending out = (case out of Goes _ _ \<Rightarrow> 1 | _ \<Rightarrow> 2)"

lemma comes_to_weaken: "comes_to L X call g decls a p res \<Longrightarrow> (a \<Longrightarrow> b) \<Longrightarrow> comes_to L X call g decls b p res"
  by (auto simp: comes_to_def split: option.splits sum.splits)

lemma run_body_right:
  assumes "llvm64_doc L" and "top_unmapped (rd g)" and "\<And>start b. fn_blocks gf start = Some b \<Longrightarrow> block_ok (rd g) (hints g) gf start b"
  shows "left_from L X call g decls k c out \<Longrightarrow>
    \<exists>j p. guest_run L X call g decls j c p \<and>
      comes_to L X call g decls (2 * k + n \<le> 2 * j + pending out) p (left_by (run_body L X call g decls gf n out))"
proof (induction n arbitrary: k out)
  case 0
  then show ?case by (cases out) (fastforce simp: left_from_def Let_def comes_to_def pending_def)+
next
  case (Suc n)
  have call: "\<exists>j p. guest_run L X call g decls j c p \<and> comes_to L X call g decls (2 * k + Suc n \<le> 2 * j + 2) p
      (left_by (Option.bind res (\<lambda>res. case res of Inl e \<Rightarrow> Some (Inl e) | Inr fr \<Rightarrow> run_body L X call g decls gf n (Goes (pc + 8) fr))))"
    if "k \<le> Suc j" "guest_run L X call g decls j c (pc, e)" "calls_at (rd g) pc" "guest_step L (rd g) (pc, e) = Some (target, fr)"
      "call_at L X call g decls pc target fr = res" for j pc e target fr res
  proof -
    have at: "calls_with L X call g decls (pc, e) res" using that(3-5) by (auto simp: calls_with_def)
    show ?thesis
    proof (cases res)
      case None
      then show ?thesis using at that(2) by (intro exI [of _ j] exI [of _ "(pc, e)"]) (simp add: comes_to_def)
    next
      case (Some s)
      show ?thesis
      proof (cases s)
        case (Inl e')
        then show ?thesis using at that(2) Some by (intro exI [of _ j] exI [of _ "(pc, e)"]) (simp add: comes_to_def)
      next
        case (Inr fr')
        then have "left_from L X call g decls k c (Goes (pc + 8) fr')"
          using guest_run.called [OF that(2-4)] that(1,5) Some by (auto simp: left_from_def)
        from Suc.IH [OF this] show ?thesis using Some Inr by (fastforce simp: pending_def elim: comes_to_weaken)
      qed
    qed
  qed
  show ?case
  proof (cases out)
    case (Goes t fr)
    then obtain j where at: "k \<le> j" "guest_run L X call g decls j c (t, fr)" using Suc.prems by (auto simp: left_from_def)
    show ?thesis
    proof (cases "fn_blocks gf t")
      case None
      then have "hands_over L g (t, fr) (leave_frame ((spillGPRs fr)\<lparr>bail := t\<rparr>))" by (simp add: hands_over_def)
      then show ?thesis using at(2) Goes None by (intro exI [of _ j] exI [of _ "(t, fr)"]) (simp add: comes_to_def)
    next
      case (Some blk)
      obtain out' where o: "emit_block L g gf blk (b_start blk) fr = Some out'"
        "left_from L X call g decls (Suc j) c out' \<or> rd g t = None \<and> out' = Goes t fr"
        using block_run [OF assms(1,2) assms(3) [OF Some] at(2)] by blast
      have eq: "run_body L X call g decls gf (Suc n) out = run_body L X call g decls gf n out'" using Goes Some o(1) by simp
      show ?thesis
      proof (cases "left_from L X call g decls (Suc j) c out'")
        case True
        from Suc.IH [OF this] obtain j' p where p: "guest_run L X call g decls j' c p"
          "comes_to L X call g decls (2 * Suc j + n \<le> 2 * j' + pending out') p (left_by (run_body L X call g decls gf n out'))" by blast
        have "pending out' \<le> 2" by (simp add: pending_def split: leaving.split)
        then have "comes_to L X call g decls (2 * k + Suc n \<le> 2 * j' + pending out) p (left_by (run_body L X call g decls gf n out'))"
          using comes_to_weaken [OF p(2)] at(1) Goes by (simp add: pending_def)
        then show ?thesis using p(1) unfolding eq by blast
      next
        case False
        then have stuck: "rd g t = None" "out' = Goes t fr" using o(2) by blast+
        show ?thesis
        proof (cases "run_body L X call g decls gf n out'")
          case None
          then show ?thesis using at(2) stuck(1) unfolding eq by (intro exI [of _ j] exI [of _ "(t, fr)"]) (simp add: comes_to_def)
        next
          case (Some s)
          have "left_from L X call g decls k c out'" using at by (auto simp: stuck(2) left_from_def)
          from Suc.IH [OF this] show ?thesis unfolding eq Some by (auto simp: comes_to_def)
        qed
      qed
    qed
  next
    case (Leaves fr)
    then show ?thesis using Suc.prems by (auto simp: left_from_def Let_def comes_to_def)
  next
    case (Calls target link fr)
    then obtain j pc e where h: "link = pc + 8" "k \<le> Suc j" "guest_run L X call g decls j c (pc, e)" "calls_at (rd g) pc"
      "guest_step L (rd g) (pc, e) = Some (target, fr)" "call_at L X call g decls pc target fr = emitCall L X call target link (target \<in> decls) fr"
      using Suc.prems by (auto simp: left_from_def Let_def)
    from call [OF h(2-6)] show ?thesis unfolding Calls run_body.simps pending_def leaving.case h(1) .
  next
    case (Calls_one_of tgts target link fr)
    then obtain j pc e where h: "link = pc + 8" "k \<le> Suc j" "guest_run L X call g decls j c (pc, e)" "calls_at (rd g) pc"
      "guest_step L (rd g) (pc, e) = Some (target, fr)" "call_at L X call g decls pc target fr = emitIndirectCall L X call decls target link tgts fr"
      using Suc.prems by (auto simp: left_from_def Let_def)
    from call [OF h(2-6)] show ?thesis unfolding Calls_one_of run_body.simps pending_def leaving.case h(1) .
  next
    case (Calls_unknown target link fr)
    then obtain j pc e where h: "link = pc + 8" "k \<le> Suc j" "guest_run L X call g decls j c (pc, e)" "calls_at (rd g) pc"
      "guest_step L (rd g) (pc, e) = Some (target, fr)" "call_at L X call g decls pc target fr = emitCall L X call target link False fr"
      using Suc.prems by (auto simp: left_from_def Let_def)
    from call [OF h(2-6)] show ?thesis unfolding Calls_unknown run_body.simps pending_def leaving.case h(1) .
  next
    case (Tail_calls target link fr)
    then show ?thesis using Suc.prems by (simp add: left_from_def)
  qed
qed

lemma function_right:
  assumes "llvm64_doc L" and "gaps (rd g0)" and "top_unmapped (rd g0)" and "funcs g0 = Map.empty" and "discover roots g0 = Some g"
    and "funcs g entry \<noteq> None"
  shows "\<exists>j p. guest_run L execMips (r4300_fn L execMips g decls n) g decls j (entry, enter_frame m) p \<and>
    comes_to L execMips (r4300_fn L execMips g decls n) g decls (n div 2 \<le> j) p (r4300_fn L execMips g decls (Suc n) entry m)"
proof -
  have "found (set roots) roots g0" using assms(2,4) by (simp add: found_def)
  from discover_from_right [OF this] have g: "found (set roots) [] g" "rd g = rd g0" "hints g = hints g0"
    using assms(5) by (auto simp: discover_def)
  obtain gf where gf: "funcs g entry = Some gf" using assms(6) by blast
  then have ok: "block_ok (rd g) (hints g) gf start b" if "fn_blocks gf start = Some b" for start b
    using that g(1) unfolding found_def by blast
  let ?call = "r4300_fn L execMips g decls n"
  have "left_from L execMips ?call g decls 0 (entry, enter_frame m) (Goes entry (enter_frame m))"
    by (auto simp: left_from_def intro: guest_run.here)
  from run_body_right [OF assms(1) assms(3) [folded g(2)] ok this, of n] show ?thesis
    by (fastforce simp: gf emitBody_def pending_def elim: comes_to_weaken)
qed

definition return_code :: "(u32 \<times> u32) list" where
  "return_code = [(0x1000, 0x03e00008), (0x1004, 0)]"

definition some_machine :: "unit machine" where
  "some_machine = (\<lparr>s_pc = 0x1000, s_gpr = (\<lambda>_. 7), s_lo = 0, s_hi = 0, s_cpr1 = (\<lambda>_. 0), s_fcr25 = 0\<rparr>, \<lambda>_. 0)"

lemma return_ctl: "decode_ctl 0x1000 0x03e00008 = \<lparr>ctl_k = Jr, ctl_target = 0, ctl_reg = 31\<rparr>"
  by (simp add: decode_ctl_def Let_def)

subsection \<open>The translator\<close>

lemma translate_run:
  assumes "entry \<in> decls_of g entries"
  shows "r_run L execMips n m entry (r_translate g entries b) =
    map_option (map_sum id (\<lambda>(r, m). (r, m, (r_translate g entries b)\<lparr>n_bails := n_bails b + (if r = 0 then 0 else 1)\<rparr>)))
      (r4300_fn L execMips g (decls_of g entries) n entry m)"
proof -
  have "fns (r_translate g entries b) entry = Some (g, decls_of g entries)" using assms by (simp add: r_translate_def Let_def)
  then show ?thesis
    by (auto simp: r_run_def r_translate_def Let_def intro!: arg_cong [where f = "\<lambda>h. map_option (map_sum id h) _"] ext)
qed

lemma forget_count: "map_option (map_sum id (\<lambda>(r, m, b). (r, m))) (map_option (map_sum id (\<lambda>(r, m). (r, m, h r))) x) = x"
  by (cases x) (auto simp: map_sum_def split: sum.split)

lemma counted: "map_option (map_sum id (\<lambda>(r, m). (r, m, h r))) x = Some (Inr (r, m', b)) \<Longrightarrow> b = h r"
  by (cases "the x") (auto simp: map_sum_def)



subsection \<open>A block where nothing is mapped\<close>

text \<open>
  Pass one makes a leader of an address nothing is mapped at, pass two cuts an empty block there,
  and the code of an empty block branches to itself.
\<close>

lemma unmapped_block_loops:
  assumes "\<And>start b. fn_blocks gf start = Some b \<Longrightarrow> block_ok (rd g) (hints g) gf start b" and "fn_blocks gf t \<noteq> None" and "rd g t = None"
  shows "run_body L X call g decls gf n (Goes t fr) = None"
proof -
  obtain blk where blk: "fn_blocks gf t = Some blk" using assms(2) by blast
  from assms(1) [OF this] obtain k where k: "\<forall>i < k. falls_at (rd g) (t + 4 * of_nat i)" and e: "let x = t + 4 * of_nat k
       in (\<exists>c. transfers_at (rd g) x c) \<or> traps_at (rd g) x \<or> b_end blk = x"
    and start: "b_start blk = t"
    unfolding block_ok_def Let_def by blast
  have "k = 0" using k falls_mapped assms(3) by (cases k) force+
  then have "b_end blk = t" using e assms(3) by (auto simp: transfers_at_def traps_at_def)
  then have "emit_block L g gf blk t fr = Some (Goes t fr)" by (subst emit_block.simps) simp
  then show ?thesis by (induction n) (simp_all add: blk start)
qed

definition jump_away :: "(u32 \<times> u32) list" where
  "jump_away = [(0x1000, 0x08000800), (0x1004, 0)]"

lemma jump_away_ctl: "decode_ctl 0x1000 0x08000800 = \<lparr>ctl_k = Jump, ctl_target = 0x2000, ctl_reg = 0\<rparr>"
  by (simp add: decode_ctl_def Let_def)

text \<open>
  The function of a jump to an unmapped address never returns, though the interpreter would
  have to go on at that address.
\<close>

lemma unmapped_jump_hangs:
  "\<exists>g. discover [0x1000] (cfg_of jump_away) = Some g \<and> rd g 0x2000 = None \<and>
    (\<forall>n m. r4300_fn llvm64_ref execMips g decls n 0x1000 m = None)"
proof -
  have gaps: "gaps (rd (cfg_of jump_away))" unfolding cfg_of_simps by (rule gaps_map_of) (simp add: jump_away_def)
  have "found {0x1000} [0x1000] (cfg_of jump_away)" using gaps by (simp add: found_def)
  from discover_from_right [OF this] obtain g where g: "discover [0x1000] (cfg_of jump_away) = Some g" "found {0x1000} [] g"
    "rd g = map_of jump_away"
    by (auto simp: discover_def)
  obtain gf where gf: "funcs g 0x1000 = Some gf" "fn_blocks gf 0x1000 \<noteq> None"
    "\<And>start b. fn_blocks gf start = Some b \<Longrightarrow> block_ok (rd g) (hints g) gf start b"
    using g(2) unfolding found_def by (metis (no_types, lifting) Un_iff domD empty_iff insert_subset list.set(1))
  then obtain b where b: "fn_blocks gf 0x1000 = Some b" "b_start b = 0x1000" by (auto simp: block_ok_def)
  have rd: "rd g 0x1000 = Some 0x08000800" "rd g 0x1004 = Some 0" "rd g 0x2000 = None" by (simp_all add: g(3) jump_away_def)
  have no: "\<not> falls_at (rd g) 0x1000" "\<not> traps_at (rd g) 0x1000" by (simp_all add: falls_at_def traps_at_def rd jump_away_ctl)
  obtain n where n: "\<forall>i < n. falls_at (rd g) (0x1000 + 4 * of_nat i)" and e: "let x = 0x1000 + 4 * of_nat n
       in (\<exists>c. transfers_at (rd g) x c \<and> b_end b = x + 8 \<and> term_succs (rd g) (hints g) x c = Some (b_succs b) \<and>
             (\<forall>s \<in> set (b_succs b). fn_blocks gf s \<noteq> None)) \<or> traps_at (rd g) x \<or> (b_end b = x \<and> (0 < n \<or> rd g x = None))"
    using gf(3) [OF b(1)] unfolding block_ok_def Let_def by blast
  have "n = 0" using n no(1) by (cases n) force+
  then have "b_end b = 0x1008" "fn_blocks gf 0x2000 \<noteq> None"
    using e no rd by (auto simp: transfers_at_def term_succs_def jump_away_ctl) (metis list.set_intros(1))
  then have "emit_block llvm64_ref g gf b 0x1000 fr = Some (Goes 0x2000 fr)" for fr :: "'a fnframe"
    by (subst emit_block.simps) (simp add: rd isCtl_def emit_control_def emit_transfer_def Let_def is_likely_def)
  then have "run_body llvm64_ref execMips call g decls gf n (Goes 0x1000 fr) = None" for call n and fr :: "'a fnframe"
    using unmapped_block_loops [OF gf(3) \<open>fn_blocks gf 0x2000 \<noteq> None\<close> rd(3)] by (cases n) (simp_all add: b)
  then have "r4300_fn llvm64_ref execMips g decls n 0x1000 m = None" for n m
    by (cases n) (simp_all add: gf(1) emitBody_def)
  then show ?thesis using g(1) rd(3) by blast
qed

subsection \<open>Calls through the interpreter\<close>

definition pc_of :: "'x machine \<Rightarrow> u32" where
  "pc_of m = ucast (s_pc (fst m))"

lemma interp_loop_first:
  "interp_loop execMips target link n m = Inr m' \<longleftrightarrow>
    (\<exists>k < n. (execMips ^^ k) m = m' \<and> pc_of m' = link \<and> (\<forall>j < k. pc_of ((execMips ^^ j) m) \<noteq> link))"
proof (induction n arbitrary: m)
  case (Suc n)
  show ?case
  proof (cases "pc_of m = link")
    case True
    have "m = m'" if "(execMips ^^ k) m = m'" "\<forall>j < k. pc_of ((execMips ^^ j) m) \<noteq> link" for k
      using that True by (cases k) auto
    moreover have "interp_loop execMips target link (Suc n) m = Inr m" using True by (simp add: pc_of_def)
    ultimately show ?thesis using True by (auto intro!: exI [of _ 0])
  next
    case False
    have eq: "(\<exists>k < Suc n. P k) \<longleftrightarrow> P 0 \<or> (\<exists>k < n. P (Suc k))" for P using less_Suc_eq_0_disj by auto
    have al: "(\<forall>j < Suc k. P j) \<longleftrightarrow> P 0 \<and> (\<forall>j < k. P (Suc j))" for P k using less_Suc_eq_0_disj by auto
    have "interp_loop execMips target link (Suc n) m = Inr m' \<longleftrightarrow> interp_loop execMips target link n (execMips m) = Inr m'"
      using False by (cases n) (simp_all add: pc_of_def)
    then show ?thesis
      using False by (auto simp: Suc.IH eq al funpow_Suc_right simp del: funpow.simps)
  qed
qed simp

lemma interp_loop_error: "interp_loop execMips target link n m = Inl e \<Longrightarrow> e = Never_returned target"
  by (induction n arbitrary: m) (auto simp: Let_def split: if_splits)

text \<open>
  C36: A call through the interpreter starts at the target and returns the machine as it is when the pc first is
  the link address; when that is not so within \<open>2^32 - 1\<close> steps the program ends, naming the target.
\<close>

theorem interpreted_call_stops_at_link:
  "case r4300bt_call execMips target link (s, mem) of
     Inl e \<Rightarrow> e = Never_returned target \<and> (\<forall>k < 2 ^ 32. pc_of ((execMips ^^ k) (s\<lparr>s_pc := scast target\<rparr>, mem)) \<noteq> link)
   | Inr m' \<Rightarrow> \<exists>k < 2 ^ 32. (execMips ^^ k) (s\<lparr>s_pc := scast target\<rparr>, mem) = m' \<and> pc_of m' = link \<and>
       (\<forall>j < k. pc_of ((execMips ^^ j) (s\<lparr>s_pc := scast target\<rparr>, mem)) \<noteq> link)"
proof -
  let ?m = "(s\<lparr>s_pc := scast target\<rparr>, mem)"
  have call: "r4300bt_call execMips target link (s, mem) = interp_loop execMips target link (2 ^ 32) ?m"
    by (simp only: r4300bt_call_def prod.case)
  show ?thesis
  proof (cases "interp_loop execMips target link (2 ^ 32) ?m")
    case (Inl e)
    have "pc_of ((execMips ^^ k) ?m) \<noteq> link" if "k < 2 ^ 32" for k
    proof
      assume "pc_of ((execMips ^^ k) ?m) = link"
      then have l: "\<exists>k. pc_of ((execMips ^^ k) ?m) = link" by blast
      define k0 where "k0 = (LEAST k. pc_of ((execMips ^^ k) ?m) = link)"
      have "pc_of ((execMips ^^ k0) ?m) = link" unfolding k0_def by (rule LeastI_ex [OF l])
      moreover have "k0 \<le> k" unfolding k0_def by (rule Least_le) fact
      moreover have "pc_of ((execMips ^^ j) ?m) \<noteq> link" if "j < k0" for j using that unfolding k0_def by (rule not_less_Least)
      ultimately have "interp_loop execMips target link (2 ^ 32) ?m = Inr ((execMips ^^ k0) ?m)"
        unfolding interp_loop_first using \<open>k < 2 ^ 32\<close> by (intro exI [of _ k0]) (simp del: power_numeral)
      then show False using Inl by (simp only: sum.distinct)
    qed
    then show ?thesis unfolding call Inl using interp_loop_error [OF Inl] by simp
  next
    case (Inr m')
    then show ?thesis unfolding call Inr using interp_loop_first [THEN iffD1, OF Inr] by (simp only: sum.case)
  qed
qed

theorem interpreted_call_stops_at_link_witness:
  "\<exists>m'. r4300bt_call (\<lambda>(s, mem). (s\<lparr>s_pc := s_pc s + 4\<rparr>, mem)) 0x1000 0x1008 some_machine = Inr m' \<and> pc_of m' = 0x1008"
proof -
  let ?X = "\<lambda>(s :: state_t, mem :: nat \<Rightarrow> u8). (s\<lparr>s_pc := s_pc s + 4\<rparr>, mem)"
  obtain s mem where m: "some_machine = (s, mem)" by (cases some_machine)
  let ?m = "(s\<lparr>s_pc := scast (0x1000 :: u32)\<rparr>, mem)"
  have two: "pc_of ((?X ^^ Suc (Suc 0)) ?m) = 0x1008" by (simp add: pc_of_def)
  note law = interpreted_call_stops_at_link [where execMips = ?X and target = "0x1000" and link = "0x1008" and s = s and mem = mem, folded m]
  show ?thesis
  proof (cases "r4300bt_call ?X 0x1000 0x1008 some_machine")
    case (Inl e)
    have "Suc (Suc 0) < 2 ^ 32" by simp
    then have "pc_of ((?X ^^ Suc (Suc 0)) ?m) \<noteq> 0x1008" using law [unfolded Inl sum.case] by blast
    then show ?thesis using two by blast
  next
    case (Inr m')
    then show ?thesis using law [unfolded Inr sum.case] by blast
  qed
qed

end
