(* ===== verification/R4300_Isa.thy ===== *)
theory R4300_Isa
  imports R4300_Pred
begin

text \<open>
  MIPS III over the integers, for the instructions \<open>emitOne\<close> translates except floating-point
  arithmetic, and the proof that the emitted code does the same.
\<close>

subsection \<open>The instructions over the integers\<close>

text \<open>The low word of a register, with and without sign; and a 32-bit result in a register.\<close>

definition s32 :: "u64 \<Rightarrow> int" where
  "s32 v = sint (ucast v :: u32)"

definition n32 :: "u64 \<Rightarrow> int" where
  "n32 v = uint v mod 2 ^ 32"

definition res32 :: "int \<Rightarrow> u64" where
  "res32 i = scast (word_of_int i :: u32)"

definition isa_put :: "u32 \<Rightarrow> u64 \<Rightarrow> 'x fnframe \<Rightarrow> 'x fnframe" where
  "isa_put r v fr = (if r = 0 then fr else fr\<lparr>slot := (slot fr)(unat r := v)\<rparr>)"

text \<open>Guest addresses: the alias at \<open>0x70000000\<close>, and 29 bits of any other.\<close>

definition phys :: "u64 \<Rightarrow> nat" where
  "phys ea = (let va = unat ea mod 2 ^ 32 in if va div 2 ^ 28 = 7 then va mod 2 ^ 28 else va mod 2 ^ 29)"

text \<open>Big-endian memory: the value of \<open>n\<close> bytes, and storing the low \<open>n\<close> bytes of a value.\<close>

definition be_int :: "(nat \<Rightarrow> u8) \<Rightarrow> nat \<Rightarrow> int" where
  "be_int m n = foldl (\<lambda>v k. 256 * v + uint (m k)) 0 [0..<n]"

definition isa_load :: "nat \<Rightarrow> u64 \<Rightarrow> 'x fnframe \<Rightarrow> int" where
  "isa_load n ea fr = be_int (\<lambda>k. ram fr (phys ea + k)) n"

definition as_signed :: "nat \<Rightarrow> int \<Rightarrow> int" where
  "as_signed n v = (if 2 * v < 256 ^ n then v else v - 256 ^ n)"

definition isa_store :: "nat \<Rightarrow> u64 \<Rightarrow> int \<Rightarrow> 'x fnframe \<Rightarrow> 'x fnframe" where
  "isa_store n ea v fr = fr\<lparr>ram := (\<lambda>i. if phys ea \<le> i \<and> i < phys ea + n
     then word_of_int (v div 256 ^ (n - 1 - (i - phys ea))) else ram fr i)\<rparr>"

text \<open>A single in the floating-point file: half of an even register.\<close>

definition get_single :: "u32 \<Rightarrow> 'x fnframe \<Rightarrow> int" where
  "get_single r fr =
    (let v = uint (s_cpr1 (st fr) (2 * (unat r div 2))) in if even (unat r) then v mod 2 ^ 32 else v div 2 ^ 32)"

definition put_single :: "u32 \<Rightarrow> int \<Rightarrow> 'x fnframe \<Rightarrow> 'x fnframe" where
  "put_single r i fr =
    (let e = 2 * (unat r div 2); v = uint (s_cpr1 (st fr) e);
         v = (if even (unat r) then v div 2 ^ 32 * 2 ^ 32 + i mod 2 ^ 32 else i mod 2 ^ 32 * 2 ^ 32 + v mod 2 ^ 32)
     in fr\<lparr>st := (st fr)\<lparr>s_cpr1 := (s_cpr1 (st fr))(e := word_of_int v)\<rparr>\<rparr>)"

definition put_hilo :: "u64 \<Rightarrow> u64 \<Rightarrow> 'x fnframe \<Rightarrow> 'x fnframe" where
  "put_hilo h l fr = fr\<lparr>st := (st fr)\<lparr>s_hi := h, s_lo := l\<rparr>\<rparr>"

text \<open>
  \<open>SPECIAL\<close>.  A division by zero leaves \<open>lo\<close> and \<open>hi\<close> alone; \<open>divu\<close> looks at the whole register for that,
  and takes a divisor with no low word for one.
\<close>

definition isa_special :: "u32 \<Rightarrow> 'x fnframe \<Rightarrow> 'x fnframe option" where
  "isa_special insn fr =
    (let rs = drop_bit 21 insn AND 31; rt = drop_bit 16 insn AND 31; rd = drop_bit 11 insn AND 31;
         sa = unat (drop_bit 6 insn AND 31); fn = insn AND 0x3f;
         vs = r_getGPR rs fr; vt = r_getGPR rt fr; sh = unat vs mod 32;
         put = (\<lambda>v. Some (isa_put rd v fr))
     in if fn = 0x00 then put (res32 (n32 vt * 2 ^ sa))
        else if fn = 0x02 then put (res32 (n32 vt div 2 ^ sa))
        else if fn = 0x03 then put (res32 (s32 vt div 2 ^ sa))
        else if fn = 0x04 then put (res32 (n32 vt * 2 ^ sh))
        else if fn = 0x06 then put (res32 (n32 vt div 2 ^ sh))
        else if fn = 0x07 then put (res32 (s32 vt div 2 ^ sh))
        else if fn = 0x10 then put (s_hi (st fr))
        else if fn = 0x11 then Some (put_hilo vs (s_lo (st fr)) fr)
        else if fn = 0x12 then put (s_lo (st fr))
        else if fn = 0x13 then Some (put_hilo (s_hi (st fr)) vs fr)
        else if fn = 0x18 then (let p = s32 vs * s32 vt in Some (put_hilo (res32 (p div 2 ^ 32)) (res32 p) fr))
        else if fn = 0x19 then (let p = n32 vs * n32 vt in Some (put_hilo (res32 (p div 2 ^ 32)) (res32 p) fr))
        else if fn = 0x1a then
          Some (if s32 vt = 0 then fr else put_hilo (res32 (s32 vs smod s32 vt)) (res32 (s32 vs sdiv s32 vt)) fr)
        else if fn = 0x1b then
          (let d = (if n32 vt = 0 then 1 else n32 vt)
           in Some (if vt = 0 then fr else put_hilo (res32 (n32 vs mod d)) (res32 (n32 vs div d)) fr))
        else if fn = 0x21 then put (res32 (s32 vs + s32 vt))
        else if fn = 0x23 then put (res32 (s32 vs - s32 vt))
        else if fn = 0x24 then put (vs AND vt)
        else if fn = 0x25 then put (vs OR vt)
        else if fn = 0x26 then put (vs XOR vt)
        else if fn = 0x27 then put (NOT (vs OR vt))
        else if fn = 0x2a then put (of_bool (sint vs < sint vt))
        else if fn = 0x2b then put (of_bool (uint vs < uint vt))
        else None)"

text \<open>The other integer instructions, loads and stores, and moves to and from the floating-point file.\<close>

definition isa :: "u32 \<Rightarrow> 'x fnframe \<Rightarrow> 'x fnframe option" where
  "isa insn fr =
    (let op = drop_bit 26 insn; rs = drop_bit 21 insn AND 31; rt = drop_bit 16 insn AND 31; fs = drop_bit 11 insn AND 31;
         imm = uint (insn AND 0xffff); simm = sint (ucast insn :: u16);
         vs = r_getGPR rs fr; vt = r_getGPR rt fr; ea = vs + word_of_int simm;
         put = (\<lambda>v. Some (isa_put rt v fr)); dbl = 2 * (unat rt div 2)
     in if op = 0x00 then isa_special insn fr
        else if op = 0x09 then put (res32 (s32 vs + simm))
        else if op = 0x0a then put (of_bool (sint vs < simm))
        else if op = 0x0b then put (of_bool (uint vs < simm mod 2 ^ 64))
        else if op = 0x0c then put (vs AND word_of_int imm)
        else if op = 0x0d then put (vs OR word_of_int imm)
        else if op = 0x0e then put (vs XOR word_of_int imm)
        else if op = 0x0f then put (res32 (imm * 2 ^ 16))
        else if op = 0x20 then put (word_of_int (as_signed 1 (isa_load 1 ea fr)))
        else if op = 0x21 then put (word_of_int (as_signed 2 (isa_load 2 ea fr)))
        else if op = 0x23 then put (word_of_int (as_signed 4 (isa_load 4 ea fr)))
        else if op = 0x24 then put (word_of_int (isa_load 1 ea fr))
        else if op = 0x25 then put (word_of_int (isa_load 2 ea fr))
        else if op = 0x27 then put (word_of_int (isa_load 4 ea fr))
        else if op = 0x37 then put (word_of_int (isa_load 8 ea fr))
        else if op = 0x28 then Some (isa_store 1 ea (uint vt) fr)
        else if op = 0x29 then Some (isa_store 2 ea (uint vt) fr)
        else if op = 0x2b then Some (isa_store 4 ea (uint vt) fr)
        else if op = 0x3f then Some (isa_store 8 ea (uint vt) fr)
        else if op = 0x31 then Some (put_single rt (isa_load 4 ea fr) fr)
        else if op = 0x35 then Some (fr\<lparr>st := (st fr)\<lparr>s_cpr1 := (s_cpr1 (st fr))(dbl := word_of_int (isa_load 8 ea fr))\<rparr>\<rparr>)
        else if op = 0x39 then Some (isa_store 4 ea (get_single rt fr) fr)
        else if op = 0x3d then Some (isa_store 8 ea (uint (s_cpr1 (st fr) dbl)) fr)
        else if op = 0x11 \<and> rs = 0x00 then put (res32 (get_single fs fr))
        else if op = 0x11 \<and> rs = 0x04 then Some (put_single fs (uint vt) fr)
        else None)"


subsection \<open>Emitted arithmetic\<close>

lemma cast_of_int: "ucast (word_of_int i :: u64) = (word_of_int i :: u32)"
  by (simp add: unsigned_of_int word_of_int_eq_iff take_bit_take_bit)

lemma res32_low: "scast (ucast (word_of_int i :: u64) :: u32) = res32 i"
  by (simp add: res32_def cast_of_int)

lemma n32_uint: "n32 v = uint (ucast v :: u32)"
  by (simp add: n32_def unsigned_ucast_eq take_bit_eq_mod)

lemma res32_int: "scast x = res32 (sint x)" "scast x = res32 (uint x)" for x :: u32
  by (simp_all add: res32_def)

lemma res32_ops:
  fixes a b :: u64
  shows "scast (ucast a + ucast b :: u32) = res32 (s32 a + s32 b)" "scast (ucast a - ucast b :: u32) = res32 (s32 a - s32 b)"
    "scast (push_bit n (ucast a) :: u32) = res32 (n32 a * 2 ^ n)" "scast (drop_bit n (ucast a) :: u32) = res32 (n32 a div 2 ^ n)"
    "scast (signed_drop_bit n (ucast a) :: u32) = res32 (s32 a div 2 ^ n)"
proof -
  show "scast (ucast a + ucast b :: u32) = res32 (s32 a + s32 b)" "scast (ucast a - ucast b :: u32) = res32 (s32 a - s32 b)"
    "scast (push_bit n (ucast a) :: u32) = res32 (n32 a * 2 ^ n)"
    by (simp_all add: res32_def s32_def n32_uint push_bit_eq_mult)
  show "scast (drop_bit n (ucast a) :: u32) = res32 (n32 a div 2 ^ n)"
    unfolding res32_int(2) [of "drop_bit n (ucast a)"] n32_uint by (simp add: unsigned_drop_bit_eq drop_bit_eq_div [where ?'a = int] bintr_uint)
  show "scast (signed_drop_bit n (ucast a) :: u32) = res32 (s32 a div 2 ^ n)"
    unfolding res32_int(1) [of "signed_drop_bit n (ucast a)"] s32_def by (simp add: sint_signed_drop_bit_eq drop_bit_eq_div)
qed

lemma product:
  fixes a b :: u64
  shows "(scast (ucast a :: u32) :: u64) * scast (ucast b :: u32) = word_of_int (s32 a * s32 b)"
    "(ucast (ucast a :: u32) :: u64) * ucast (ucast b :: u32) = word_of_int (n32 a * n32 b)"
  by (simp_all add: s32_def n32_uint)

lemma s32_bounds: "- (2 ^ 31) \<le> s32 a" "s32 a < 2 ^ 31"
  using sint_ge [of "ucast a :: u32"] sint_lt [of "ucast a :: u32"] by (simp_all add: s32_def)

lemma n32_bounds: "0 \<le> n32 a" "n32 a < 2 ^ 32"
  by (simp_all add: n32_def)

lemma uint_shr: "uint (drop_bit n w) = uint w div 2 ^ n" for w :: "'a::len word"
  by (simp only: unsigned_drop_bit_eq drop_bit_eq_div [where ?'a = int] bintr_uint order_refl)

lemma unat_shr: "unat (drop_bit n w) = unat w div 2 ^ n" for w :: "'a::len word"
  using uint_shr [of n w] by (simp only: nat_uint_eq [symmetric]) (simp add: nat_div_distrib nat_power_eq)

lemma fits:
  "\<bar>i\<bar> \<le> 2 ^ 62 \<Longrightarrow> sint (word_of_int i :: u64) = i" "0 \<le> i \<Longrightarrow> i < 2 ^ 64 \<Longrightarrow> uint (word_of_int i :: u64) = i"
proof -
  show "\<bar>i\<bar> \<le> 2 ^ 62 \<Longrightarrow> sint (word_of_int i :: u64) = i"
    unfolding abs_le_iff by (simp add: sint_sbintrunc' signed_take_bit_int_eq_self_iff)
  show "0 \<le> i \<Longrightarrow> i < 2 ^ 64 \<Longrightarrow> uint (word_of_int i :: u64) = i"
    by (simp add: unsigned_of_int take_bit_int_eq_self_iff)
qed

lemma upper_signed: "scast (ucast (signed_drop_bit 32 (word_of_int (s32 a * s32 b) :: u64)) :: u32) = res32 (s32 a * s32 b div 2 ^ 32)"
proof -
  let ?p = "s32 a * s32 b"
  have "\<bar>s32 a\<bar> \<le> 2 ^ 31" "\<bar>s32 b\<bar> \<le> 2 ^ 31" using s32_bounds [of a] s32_bounds [of b] by auto
  then have "\<bar>?p\<bar> \<le> 2 ^ 31 * 2 ^ 31" unfolding abs_mult by (intro mult_mono) auto
  then have "sint (word_of_int ?p :: u64) = ?p" by (intro fits(1)) simp
  then have "word_of_int (sint (signed_drop_bit 32 (word_of_int ?p :: u64))) = (word_of_int (?p div 2 ^ 32) :: u64)"
    by (simp only: sint_signed_drop_bit_eq drop_bit_eq_div)
  then have "signed_drop_bit 32 (word_of_int ?p :: u64) = word_of_int (?p div 2 ^ 32)" by (simp only: of_int_sint scast_id)
  then show ?thesis by (simp only: res32_low)
qed

lemma upper_unsigned: "scast (ucast (drop_bit 32 (word_of_int (n32 a * n32 b) :: u64)) :: u32) = res32 (n32 a * n32 b div 2 ^ 32)"
proof -
  let ?p = "n32 a * n32 b"
  have "?p < 2 ^ 32 * 2 ^ 32" using n32_bounds [of a] n32_bounds [of b] by (intro mult_strict_mono) auto
  moreover have "0 \<le> ?p" using n32_bounds(1) by simp
  ultimately have "uint (word_of_int ?p :: u64) = ?p" by (intro fits(2)) simp_all
  then have "word_of_int (uint (drop_bit 32 (word_of_int ?p :: u64))) = (word_of_int (?p div 2 ^ 32) :: u64)" by (simp only: uint_shr)
  then have "drop_bit 32 (word_of_int ?p :: u64) = word_of_int (?p div 2 ^ 32)" by (simp only: of_int_uint ucast_id)
  then show ?thesis by (simp only: res32_low)
qed


lemma sint_sext: "sint (scast w :: u64) = sint w" for w :: u32
  by (rule sint_up_scast) (simp add: is_up)

lemma divided:
  assumes "llvm64_doc L" and "ucast b \<noteq> (0 :: u32)"
  shows "scast (ucast (sdiv64 L (scast (ucast a :: u32)) (scast (ucast b :: u32))) :: u32) = res32 (s32 a sdiv s32 b)"
    "scast (ucast (srem64 L (scast (ucast a :: u32)) (scast (ucast b :: u32))) :: u32) = res32 (s32 a smod s32 b)"
    "scast (udiv32 L (ucast a) (ucast b)) = res32 (n32 a div n32 b)" "scast (urem32 L (ucast a) (ucast b)) = res32 (n32 a mod n32 b)"
proof -
  let ?a = "scast (ucast a :: u32) :: u64" and ?b = "scast (ucast b :: u32) :: u64"
  have v: "sint ?a = s32 a" "sint ?b = s32 b" by (simp_all add: sint_sext s32_def)
  have "s32 b \<noteq> 0" using assms(2) word_eq_iff_signed [of "ucast b :: u32" 0] by (simp add: s32_def)
  then have "?b \<noteq> 0" using v(2) by force
  moreover have "sint ?a \<noteq> - (2 ^ 63)" using s32_bounds [of a] unfolding v by simp
  ultimately have "sdiv64 L ?a ?b = word_of_int (s32 a sdiv s32 b)" "srem64 L ?a ?b = word_of_int (s32 a smod s32 b)"
    using assms(1) unfolding llvm64_doc_def v [symmetric] by blast+
  then show "scast (ucast (sdiv64 L ?a ?b) :: u32) = res32 (s32 a sdiv s32 b)" "scast (ucast (srem64 L ?a ?b) :: u32) = res32 (s32 a smod s32 b)"
    by (simp_all only: res32_low)
  have "udiv32 L (ucast a) (ucast b) = ucast a div ucast b" "urem32 L (ucast a) (ucast b) = ucast a mod ucast b"
    using assms unfolding llvm64_doc_def by blast+
  then show "scast (udiv32 L (ucast a) (ucast b)) = res32 (n32 a div n32 b)" "scast (urem32 L (ucast a) (ucast b)) = res32 (n32 a mod n32 b)"
    by (simp_all only: res32_int(2) n32_uint uint_div_distrib uint_mod_distrib)
qed

subsection \<open>Emitted memory accesses\<close>

lemma physAddr_phys:
  assumes "llvm64_doc L"
  shows "unat (physAddr L ea) = phys ea"
proof -
  let ?va = "ucast ea :: u32"
  have va: "unat ?va = unat ea mod 2 ^ 32" by (simp add: unsigned_ucast_eq take_bit_eq_mod)
  have "drop_bit 28 ?va = 7 \<longleftrightarrow> unat (drop_bit 28 ?va) = 7" by (auto simp: word_eq_iff_unsigned [where ?'a = nat])
  then have ali: "drop_bit 28 ?va = 7 \<longleftrightarrow> unat ?va div 2 ^ 28 = 7" by (simp only: unat_shr)
  have "?va AND 0x0fffffff = take_bit 28 ?va" "?va AND 0x1fffffff = take_bit 29 ?va"
    by (simp_all add: take_bit_eq_mask mask_eq_exp_minus_1)
  then have m: "unat (?va AND 0x0fffffff) = unat ?va mod 2 ^ 28" "unat (?va AND 0x1fffffff) = unat ?va mod 2 ^ 29"
    by (simp_all only: unat_take_bit)
  have "physAddr L ea = (if drop_bit 28 ?va = 7 then ?va AND 0x0fffffff else ?va AND 0x1fffffff)"
    by (simp add: physAddr_def Let_def llvm64_casts [OF assms] llvm64_old [OF assms])
  then show ?thesis by (simp only: phys_def Let_def ali m va if_distrib [of unat])
qed

lemma be_int_simps:
  "be_int m 1 = uint (m 0)" "be_int m 2 = 256 * uint (m 0) + uint (m 1)"
  "be_int m 4 = 256 ^ 3 * uint (m 0) + 256 ^ 2 * uint (m 1) + 256 * uint (m 2) + uint (m 3)"
  "be_int m 8 = 256 ^ 4 * be_int m 4 + be_int (\<lambda>k. m (k + 4)) 4"
  by (simp_all add: be_int_def upt_rec eval_nat_numeral)

lemma le_sums:
  "le16 b0 b1 = 256 * ucast b1 + ucast b0"
  "le32 b0 b1 b2 b3 = 256 ^ 3 * ucast b3 + 256 ^ 2 * ucast b2 + 256 * ucast b1 + ucast b0"
proof -
  have "push_bit 8 (ucast b1 :: u16) AND ucast b0 = 0" by (rule bit_word_eqI) (auto simp: bit_simps dest: bit_u8_less)
  then show "le16 b0 b1 = 256 * ucast b1 + ucast b0"
    unfolding le16_def disjunctive_add_eq_or [symmetric, OF \<open>_ = 0\<close>] by (simp add: push_bit_eq_mult)
  have d: "push_bit 24 (ucast b3 :: u32) AND (push_bit 16 (ucast b2) OR push_bit 8 (ucast b1) OR ucast b0) = 0"
    "push_bit 16 (ucast b2 :: u32) AND (push_bit 8 (ucast b1) OR ucast b0) = 0" "push_bit 8 (ucast b1 :: u32) AND ucast b0 = 0"
    by (rule bit_word_eqI; auto simp: bit_simps dest: bit_u8_less)+
  show "le32 b0 b1 b2 b3 = 256 ^ 3 * ucast b3 + 256 ^ 2 * ucast b2 + 256 * ucast b1 + ucast b0"
    unfolding le32_def
    by (subst disjunctive_add_eq_or [symmetric, OF d(1)], subst disjunctive_add_eq_or [symmetric, OF d(2)],
      subst disjunctive_add_eq_or [symmetric, OF d(3)]) (simp add: push_bit_eq_mult)
qed


lemma le64_sum: "le64 b = 256 ^ 4 * ucast (le32 (b 4) (b 5) (b 6) (b 7)) + ucast (le32 (b 0) (b 1) (b 2) (b 3))"
proof -
  have "push_bit 32 (ucast (le32 (b 4) (b 5) (b 6) (b 7)) :: u64) AND ucast (le32 (b 0) (b 1) (b 2) (b 3)) = 0"
    by (rule bit_word_eqI) (auto simp: bit_simps dest: bit_imp_le_length)
  then show ?thesis unfolding le64_def by (simp add: disjunctive_add_eq_or [symmetric] push_bit_eq_mult)
qed

lemma be_bounds: "0 \<le> be_int m n" "be_int m n < 256 ^ n"
proof -
  show "0 \<le> be_int m n" by (induction n) (simp_all add: be_int_def)
  show "be_int m n < 256 ^ n"
  proof (induction n)
    case (Suc n)
    have "be_int m (Suc n) = 256 * be_int m n + uint (m n)" by (simp add: be_int_def)
    moreover have "uint (m n) < 256" using unsigned_less [of "m n", where ?'a = int] by simp
    ultimately show ?case using Suc by simp
  qed (simp add: be_int_def)
qed

lemma uint_le:
  "uint (le16 (m 1) (m 0)) = be_int m 2" "uint (le32 (m 3) (m 2) (m 1) (m 0)) = be_int m 4"
  "uint (le64 (\<lambda>k. m (7 - k))) = be_int m 8"
proof -
  have "le16 (m 1) (m 0) = word_of_int (be_int m 2)" by (simp add: le_sums be_int_simps)
  then show "uint (le16 (m 1) (m 0)) = be_int m 2" using be_bounds [of m 2] by (simp add: unsigned_of_int take_bit_int_eq_self_iff)
  have w: "le32 (m 3) (m 2) (m 1) (m 0) = word_of_int (be_int m 4)" for m by (simp add: le_sums be_int_simps)
  then show l: "uint (le32 (m 3) (m 2) (m 1) (m 0)) = be_int m 4" for m using be_bounds [of m 4] by (simp add: unsigned_of_int take_bit_int_eq_self_iff)
  have "le64 (\<lambda>k. m (7 - k)) = word_of_int (be_int m 8)"
  proof -
    have u: "ucast w = (word_of_int (uint w) :: u64)" for w :: u32 by simp
    have l2: "uint (le32 (m 7) (m 6) (m 5) (m 4)) = be_int (\<lambda>k. m (k + 4)) 4" using l [of "\<lambda>k. m (k + 4)"] by simp
    have "(ucast (le32 (m 3) (m 2) (m 1) (m 0)) :: u64) = word_of_int (be_int m 4)"
      "(ucast (le32 (m 7) (m 6) (m 5) (m 4)) :: u64) = word_of_int (be_int (\<lambda>k. m (k + 4)) 4)"
      by (simp_all only: u l l2)
    then show ?thesis by (simp add: le64_sum be_int_simps(4))
  qed
  then show "uint (le64 (\<lambda>k. m (7 - k))) = be_int m 8" using be_bounds [of m 8] by (simp add: unsigned_of_int take_bit_int_eq_self_iff)
qed


lemma le64_byte_of: "le64 (\<lambda>k. byte_of k x) = x"
proof (rule bit_word_eqI)
  fix n :: nat
  assume "n < LENGTH(64)"
  then have "n div 8 < 8" by simp
  from byte_of_le64 [OF this] have "bit (byte_of (n div 8) (le64 (\<lambda>k. byte_of k x))) (n mod 8) = bit (byte_of (n div 8) x) (n mod 8)" by simp
  then show "bit (le64 (\<lambda>k. byte_of k x)) n = bit x n"
    using \<open>n < LENGTH(64)\<close> by (simp add: byte_of_def bit_simps)
qed

lemma le64_cong: "(\<And>k. k < 8 \<Longrightarrow> f k = g k) \<Longrightarrow> le64 f = le64 g"
  by (simp add: le64_def)

lemma llvm_bswap64:
  assumes "llvm64_doc L"
  shows "bswap64 L x = le64 (\<lambda>k. byte_of (7 - k) x)"
proof -
  have "byte_of k (bswap64 L x) = byte_of (7 - k) x" if "k < 8" for k using assms that by (simp add: llvm64_doc_def)
  then have "le64 (\<lambda>k. byte_of k (bswap64 L x)) = le64 (\<lambda>k. byte_of (7 - k) x)" by (rule le64_cong)
  then show ?thesis by (simp add: le64_byte_of)
qed

lemma ram_at_phys: "llvm64_doc L \<Longrightarrow> ram_at (physAddr L ea) fr = (\<lambda>k. ram fr (phys ea + k))"
  by (simp add: ram_at_def physAddr_phys)

lemma uint_load:
  assumes "llvm64_doc L"
  shows "uint (loadMem8 L ea fr) = isa_load 1 ea fr" "uint (loadMem16 L ea fr) = isa_load 2 ea fr"
    "uint (loadMem32 L ea fr) = isa_load 4 ea fr" "uint (loadMem64 L ea fr) = isa_load 8 ea fr"
proof -
  let ?m = "\<lambda>k. ram fr (phys ea + k)"
  note loads = loadMem8_def loadMem16_def loadMem32_def loadMem64_def ram_at_phys [OF assms] isa_load_def
  show "uint (loadMem8 L ea fr) = isa_load 1 ea fr" by (simp add: loads be_int_simps(1) [simplified])
  show "uint (loadMem16 L ea fr) = isa_load 2 ea fr"
    using uint_le(1) [of ?m] by (simp add: loads llvm64_old [OF assms])
  show "uint (loadMem32 L ea fr) = isa_load 4 ea fr"
    using uint_le(2) [of ?m] by (simp add: loads llvm64_old [OF assms])
  have "le64 (\<lambda>k. byte_of (7 - k) (le64 m)) = le64 (\<lambda>k. m (7 - k))" for m by (rule le64_cong) (simp add: byte_of_le64)
  then show "uint (loadMem64 L ea fr) = isa_load 8 ea fr"
    using uint_le(3) [of ?m] by (simp only: loads llvm64_casts [OF assms] llvm_bswap64 [OF assms])
qed

lemma sint_as_signed:
  "sint b = as_signed 1 (uint b)" "sint h = as_signed 2 (uint h)" "sint w = as_signed 4 (uint w)" for b :: u8 and h :: u16 and w :: u32
proof -
  have wrap: "(i + m) mod (2 * m) - m = (if i < m then i else i - 2 * m)" if "0 \<le> i" "i < 2 * m" for i m :: int
  proof (cases "i < m")
    case False
    then have "(i + m) mod (2 * m) = i - m" using that by (subst mod_pos_geq) auto
    then show ?thesis using False by simp
  qed (use that in simp)
  show "sint b = as_signed 1 (uint b)" "sint h = as_signed 2 (uint h)" "sint w = as_signed 4 (uint w)"
    using wrap [of "uint b" "2 ^ 7"] unsigned_less [of b, where ?'a = int] wrap [of "uint h" "2 ^ 15"] unsigned_less [of h, where ?'a = int]
      wrap [of "uint w" "2 ^ 31"] unsigned_less [of w, where ?'a = int]
    by (auto simp: sint_uint signed_take_bit_eq_take_bit_shift take_bit_eq_mod as_signed_def)
qed

lemma loaded:
  assumes "llvm64_doc L"
  shows "scast (loadMem8 L ea fr) = (word_of_int (as_signed 1 (isa_load 1 ea fr)) :: u64)"
    "scast (loadMem16 L ea fr) = (word_of_int (as_signed 2 (isa_load 2 ea fr)) :: u64)"
    "scast (loadMem32 L ea fr) = (word_of_int (as_signed 4 (isa_load 4 ea fr)) :: u64)"
    "ucast (loadMem8 L ea fr) = (word_of_int (isa_load 1 ea fr) :: u64)" "ucast (loadMem16 L ea fr) = (word_of_int (isa_load 2 ea fr) :: u64)"
    "ucast (loadMem32 L ea fr) = (word_of_int (isa_load 4 ea fr) :: u64)" "loadMem64 L ea fr = word_of_int (isa_load 8 ea fr)"
  by (simp_all only: uint_load [OF assms, symmetric] sint_as_signed [symmetric] of_int_sint of_int_uint scast_id ucast_id)


lemma byte_of_int: "byte_of j x = word_of_int (uint x div 256 ^ j)"
proof -
  have "(256 :: int) ^ j = 2 ^ (8 * j)" by (simp add: power_mult)
  then have "byte_of j x = word_of_int (uint (drop_bit (8 * j) x))" by (simp add: byte_of_def)
  then show ?thesis using \<open>256 ^ j = 2 ^ (8 * j)\<close> by (simp only: uint_shr)
qed

lemma stored_by:
  assumes "llvm64_doc L" and "\<And>k. k < n \<Longrightarrow> bytes k = word_of_int (v div 256 ^ (n - 1 - k))"
  shows "ram_put (store_pa L None ea) n bytes fr = isa_store n ea v fr"
proof -
  have "unat (store_pa L None ea) = phys ea" by (simp add: store_pa_def Let_def physAddr_phys [OF assms(1)])
  moreover have "bytes (i - phys ea) = word_of_int (v div 256 ^ (n - 1 - (i - phys ea)))" if "phys ea \<le> i \<and> i < phys ea + n" for i
    using assms(2) [of "i - phys ea"] that by auto
  then have "(\<lambda>i. if phys ea \<le> i \<and> i < phys ea + n then bytes (i - phys ea) else ram fr i) =
      (\<lambda>i. if phys ea \<le> i \<and> i < phys ea + n then word_of_int (v div 256 ^ (n - 1 - (i - phys ea))) else ram fr i)"
    by (auto simp: fun_eq_iff)
  ultimately show ?thesis by (simp only: ram_put_def isa_store_def)
qed

lemma stored:
  fixes v :: u64 and w :: u32
  assumes "llvm64_doc L"
  shows "storeMem8 L None ea (ucast v) fr = isa_store 1 ea (uint v) fr" "storeMem16 L None ea (ucast v) fr = isa_store 2 ea (uint v) fr"
    "storeMem32 L None ea w fr = isa_store 4 ea (uint w) fr" "storeMem32 L None ea (ucast v) fr = isa_store 4 ea (uint v) fr"
    "storeMem64 L None ea v fr = isa_store 8 ea (uint v) fr"
proof -
  have low: "byte_of k (ucast v :: u16) = byte_of k v" if "k < 2" for k
    using that unfolding byte_of_def by (intro bit_word_eqI) (auto simp: bit_simps)
  have low32: "byte_of k (ucast v :: u32) = byte_of k v" if "k < 4" for k
    using that unfolding byte_of_def by (intro bit_word_eqI) (auto simp: bit_simps)
  show "storeMem8 L None ea (ucast v) fr = isa_store 1 ea (uint v) fr"
    unfolding storeMem8_def by (rule stored_by [OF assms]) simp
  show "storeMem16 L None ea (ucast v) fr = isa_store 2 ea (uint v) fr"
    unfolding storeMem16_def
    by (rule stored_by [OF assms], simp only: byte_of_int [symmetric])
      (auto simp: less_Suc_eq numeral_2_eq_2 llvm64_old [OF assms] low)
  show w: "storeMem32 L None ea w fr = isa_store 4 ea (uint w) fr" for w
    unfolding storeMem32_def
    by (rule stored_by [OF assms], simp only: byte_of_int [symmetric])
      (auto simp: less_Suc_eq eval_nat_numeral llvm64_old [OF assms] byte_of_le_Suc)
  show "storeMem32 L None ea (ucast v) fr = isa_store 4 ea (uint v) fr"
    unfolding storeMem32_def
    by (rule stored_by [OF assms], simp only: byte_of_int [symmetric])
      (auto simp: less_Suc_eq eval_nat_numeral llvm64_old [OF assms] byte_of_le_Suc low32)
  show "storeMem64 L None ea v fr = isa_store 8 ea (uint v) fr"
    unfolding storeMem64_def
    by (rule stored_by [OF assms], simp only: byte_of_int [symmetric])
      (simp add: llvm64_casts [OF assms] llvm_bswap64 [OF assms] byte_of_le64)
qed

subsection \<open>The floating-point file\<close>

lemma pair: "unat (r AND NOT 1) = 2 * (unat r div 2)" "r AND 1 = 0 \<longleftrightarrow> even (unat r)" for r :: u32
proof -
  have "r AND NOT (mask k) = push_bit k (drop_bit k r)" for k by (rule bit_word_eqI) (auto simp: bit_simps)
  from this [of 1] have "r AND NOT 1 = push_bit 1 (drop_bit 1 r)" by (simp only: One_nat_def mask_Suc_0)
  moreover have "unat (push_bit 1 (drop_bit 1 r)) = 2 * (unat r div 2)"
  proof -
    have "unat r < 2 ^ 32" using unsigned_less [of r, where ?'a = nat] by simp
    then have "unat (drop_bit 1 r) * 2 < 2 ^ 32" unfolding unat_shr power_one_right by linarith
    then have "unat (drop_bit 1 r) * unat (2 :: u32) < 2 ^ LENGTH(32)" by simp
    then have "unat (drop_bit 1 r * 2) = unat (drop_bit 1 r) * unat (2 :: u32)" by (simp only: unat_mult_lem)
    then show ?thesis by (simp only: push_bit_eq_mult power_one_right unat_shr) simp
  qed
  ultimately show "unat (r AND NOT 1) = 2 * (unat r div 2)" by simp
  show "r AND 1 = 0 \<longleftrightarrow> even (unat r)" using bit_unsigned_iff [of r 0, where ?'a = nat] by (simp add: and_one_eq bit_0 flip: even_iff_mod_2_eq_zero)
qed

lemma single_read: "uint (load_cell32 (fprHalfPtr r) fr) = get_single r fr"
proof -
  let ?v = "s_cpr1 (st fr) (2 * (unat r div 2))"
  have "uint ?v < 2 ^ 64" using unsigned_less [of ?v, where ?'a = int] by simp
  then have "0 \<le> uint ?v div 2 ^ 32" "uint ?v div 2 ^ 32 < 2 ^ 32" by (simp_all add: pos_imp_zdiv_nonneg_iff)
  then have "uint (ucast (drop_bit 32 ?v) :: u32) = uint ?v div 2 ^ 32"
    by (simp add: unsigned_ucast_eq uint_shr take_bit_int_eq_self_iff)
  moreover have "uint (ucast ?v :: u32) = uint ?v mod 2 ^ 32" by (simp add: unsigned_ucast_eq take_bit_eq_mod)
  ultimately show ?thesis
    by (cases "even (unat r)") (simp_all only: fprHalfPtr_def get_single_def Let_def pair if_True if_False simp_thms load_cell32.simps load_cell64.simps)
qed

lemma joined: "(v AND push_bit 32 (mask 32)) OR ucast w = word_of_int (uint v div 2 ^ 32 * 2 ^ 32 + uint w mod 2 ^ 32)"
  "(v AND mask 32) OR push_bit 32 (ucast w) = word_of_int (uint w mod 2 ^ 32 * 2 ^ 32 + uint v mod 2 ^ 32)" for v :: u64 and w :: u32
proof -
  have bw: "bit w n \<Longrightarrow> n < 32" for n using bit_imp_le_length [of w n] by simp
  have w: "uint w mod 2 ^ 32 = uint w" using unsigned_less [of w, where ?'a = int] by simp
  have d: "drop_bit 32 v = word_of_int (uint v div 2 ^ 32)" by (simp only: uint_shr [symmetric] of_int_uint ucast_id)
  have "(v AND push_bit 32 (mask 32)) OR ucast w = push_bit 32 (drop_bit 32 v) + ucast w"
    by (subst disjunctive_add_eq_or) (auto intro!: bit_word_eqI simp: bit_simps dest!: bw)
  then show "(v AND push_bit 32 (mask 32)) OR ucast w = word_of_int (uint v div 2 ^ 32 * 2 ^ 32 + uint w mod 2 ^ 32)"
    unfolding w using d by (simp add: push_bit_eq_mult)
  have "uint (take_bit 32 v) = uint v mod 2 ^ 32" by (simp only: unsigned_take_bit_eq take_bit_eq_mod [where ?'a = int])
  then have t: "take_bit 32 v = word_of_int (uint v mod 2 ^ 32)" by (metis of_int_uint ucast_id)
  have "(v AND mask 32) OR push_bit 32 (ucast w) = push_bit 32 (ucast w) + take_bit 32 v"
    by (subst disjunctive_add_eq_or) (auto intro!: bit_word_eqI simp: bit_simps dest!: bw)
  then show "(v AND mask 32) OR push_bit 32 (ucast w) = word_of_int (uint w mod 2 ^ 32 * 2 ^ 32 + uint v mod 2 ^ 32)"
    unfolding w using t by (simp add: push_bit_eq_mult)
qed

lemma single_write: "store_cell32 (fprHalfPtr r) w fr = put_single r (uint w) fr" "put_single r (uint (ucast v :: u32)) fr = put_single r (uint v) fr" for v :: u64
proof -
  show "store_cell32 (fprHalfPtr r) w fr = put_single r (uint w) fr"
    by (cases "even (unat r)") (simp_all only: fprHalfPtr_def put_single_def Let_def pair joined if_True if_False simp_thms
      store_cell32.simps store_cell64.simps load_cell64.simps)
  show "put_single r (uint (ucast v :: u32)) fr = put_single r (uint v) fr"
    by (simp add: put_single_def Let_def unsigned_ucast_eq take_bit_eq_mod)
qed


subsection \<open>The emitted code does the instruction\<close>

lemma committed_put: "r_setGPR L None r v fr = isa_put r v fr"
  by (simp add: r_setGPR_def isa_put_def)

lemma shift_amounts: "unat (x AND 31) < 32" "unat (ucast v AND (31 :: u32)) = unat v mod 32" for x :: u32 and v :: u64
proof -
  show "unat (x AND 31) < 32" by simp
  have "unat (ucast v AND (31 :: u32)) = unat (ucast v :: u32) mod 32" unfolding and_31_eq by (simp add: unat_take_bit)
  also have "\<dots> = unat v mod 32" by (simp add: unsigned_ucast_eq take_bit_eq_mod mod_mod_cancel)
  finally show "unat (ucast v AND (31 :: u32)) = unat v mod 32" .
qed

lemma emitted_product:
  assumes "llvm64_doc L"
  shows "emit_mult L None rs rt fr = (let p = s32 (r_getGPR rs fr) * s32 (r_getGPR rt fr) in put_hilo (res32 (p div 2 ^ 32)) (res32 p) fr)"
    "emit_multu L None rs rt fr = (let p = n32 (r_getGPR rs fr) * n32 (r_getGPR rt fr) in put_hilo (res32 (p div 2 ^ 32)) (res32 p) fr)"
  by (simp_all only: emit_mult_def emit_multu_def put_product_def Let_def llvm64_casts [OF assms] llvm64_old [OF assms] product)
    (simp_all only: storeGuarded64_def option.case store_cell64.simps res32_low, simp_all add: llvm64_old [OF assms] put_hilo_def
      upper_signed upper_unsigned del: of_int_mult)

lemma emitted_div:
  assumes "llvm64_doc L"
  shows "emit_div L None True rs rt fr = (let a = r_getGPR rs fr; b = r_getGPR rt fr
      in if s32 b = 0 then fr else put_hilo (res32 (s32 a smod s32 b)) (res32 (s32 a sdiv s32 b)) fr)"
    "emit_div L None False rs rt fr = (let a = r_getGPR rs fr; b = r_getGPR rt fr; d = (if n32 b = 0 then 1 else n32 b)
      in if b = 0 then fr else put_hilo (res32 (n32 a mod d)) (res32 (n32 a div d)) fr)"
proof -
  let ?a = "r_getGPR rs fr" and ?b = "r_getGPR rt fr"
  note laws = llvm64_casts [OF assms] llvm64_old [OF assms] storeGuarded64_def Let_def
  have keep: "fr\<lparr>st := (st fr)\<lparr>s_lo := s_lo (st fr), s_hi := s_hi (st fr)\<rparr>\<rparr> = fr" by simp
  have s: "s32 ?b = 0 \<longleftrightarrow> ucast ?b = (0 :: u32)" using word_eq_iff_signed [of "ucast ?b :: u32" 0, where ?'a = int] by (simp add: s32_def)
  have n: "n32 ?b = 0 \<longleftrightarrow> ucast ?b = (0 :: u32)"
    using word_eq_iff_unsigned [of "ucast ?b :: u32" 0, where ?'a = int] by (simp add: n32_uint)
  have big: "cmp64 L NE u 0 = (u \<noteq> 0)" for u by (simp add: llvm64_old [OF assms])
  show "emit_div L None True rs rt fr = (let a = ?a; b = ?b
      in if s32 b = 0 then fr else put_hilo (res32 (s32 a smod s32 b)) (res32 (s32 a sdiv s32 b)) fr)"
  proof (cases "ucast ?b = (0 :: u32)")
    case True
    then show ?thesis by (simp add: emit_div_def laws s)
  next
    case False
    note d = divided(1,2) [OF assms False, of ?a]
    show ?thesis using False by (simp add: emit_div_def laws s put_hilo_def d)
  qed
  show "emit_div L None False rs rt fr = (let a = ?a; b = ?b; d = (if n32 b = 0 then 1 else n32 b)
      in if b = 0 then fr else put_hilo (res32 (n32 a mod d)) (res32 (n32 a div d)) fr)"
  proof (cases "ucast ?b = (0 :: u32)")
    case True
    have "scast (udiv32 L (ucast ?a) 1) = res32 (n32 ?a)" "scast (urem32 L (ucast ?a) 1) = res32 0"
      using divided(3,4) [OF assms, of 1 ?a] by (simp_all add: n32_def)
    then show ?thesis using True by (simp add: emit_div_def laws n put_hilo_def)
  next
    case False
    then have "?b \<noteq> 0" by auto
    note d = divided(3,4) [OF assms False, of ?a]
    then show ?thesis using False \<open>?b \<noteq> 0\<close> by (simp add: emit_div_def laws n put_hilo_def)
  qed
qed


lemma special_right:
  assumes "llvm64_doc L"
  shows "emit_special L None insn fr = isa_special insn fr"
  by (simp add: emit_special_def isa_special_def Let_def llvm64_casts [OF assms] llvm64_old [OF assms] llvm64_more [OF assms] committed_put
    shift_amounts res32_ops storeGuarded64_def put_hilo_def word_sless_alt word_less_def
    emitted_product [OF assms, unfolded Let_def put_hilo_def] emitted_div [OF assms, unfolded Let_def put_hilo_def] cong: if_cong)

lemma imm16: "(ucast (insn AND 0xffff) :: u16) = ucast insn" for insn :: u32
proof -
  have low: "insn AND 0xffff = take_bit 16 insn" by (simp add: take_bit_eq_mask mask_eq_exp_minus_1)
  show ?thesis unfolding low by (rule bit_word_eqI) (simp add: bit_simps)
qed


lemma immediates:
  fixes x :: u16 and v :: u64 and i :: u32
  shows "scast (ucast v + ucast (scast x :: u64) :: u32) = res32 (s32 v + sint x)" "(v <s scast x) = (sint v < sint x)"
    "(v < scast x) = (uint v < sint x mod 2 ^ 64)" "scast (push_bit 16 i) = res32 (uint i * 2 ^ 16)" "(scast x :: u64) = word_of_int (sint x)"
proof -
  show eq: "(scast x :: u64) = word_of_int (sint x)" by simp
  show "scast (ucast v + ucast (scast x :: u64) :: u32) = res32 (s32 v + sint x)"
    unfolding eq cast_of_int by (simp add: res32_def s32_def)
  have "sint (scast x :: u64) = sint x" by (rule sint_up_scast) (simp add: is_up)
  then show "(v <s scast x) = (sint v < sint x)" by (simp add: word_sless_alt)
  have "uint (scast x :: u64) = sint x mod 2 ^ 64" unfolding eq by (simp only: unsigned_of_int take_bit_eq_mod) simp
  then show "(v < scast x) = (uint v < sint x mod 2 ^ 64)" by (simp add: word_less_def)
  show "scast (push_bit 16 i) = res32 (uint i * 2 ^ 16)" by (simp add: res32_def push_bit_eq_mult)
qed

lemma double_cell: "load_cell64 (fprDblPtr r) fr = s_cpr1 (st fr) (2 * (unat r div 2))"
  "store_cell64 (fprDblPtr r) v fr = fr\<lparr>st := (st fr)\<lparr>s_cpr1 := (s_cpr1 (st fr))(2 * (unat r div 2) := v)\<rparr>\<rparr>"
  by (simp_all only: fprDblPtr_def load_cell64.simps store_cell64.simps pair)

lemma single_value: "scast (load_cell32 (fprHalfPtr r) fr) = res32 (get_single r fr)"
  by (simp only: res32_int(2) single_read)

text \<open>
  C13: The code emitted for an integer instruction, a load or store, or a move to or from the
  floating-point file does what MIPS III says it does.
\<close>

theorem emitted_code_is_mips:
  assumes "llvm64_doc L" and "isa insn fr = Some fr'"
  shows "emitOne L None insn fr = Some fr'"
proof -
  let ?op = "drop_bit 26 insn"
  note laws = llvm64_casts [OF assms(1)] llvm64_old [OF assms(1)] llvm64_more [OF assms(1)]
  have ea: "r_effAddr L insn fr = r_getGPR (drop_bit 21 insn AND 31) fr + word_of_int (sint (ucast insn :: u16))"
    by (simp only: r_effAddr_def laws imm16 immediates(5))
  have low: "isa_store 4 e (uint (ucast v :: u32)) f = isa_store 4 e (uint v) f" for e and v :: u64 and f :: "'x fnframe"
    using stored(3) [OF assms(1), of e "ucast v" f] stored(4) [OF assms(1), of e v f] by simp
  have lui: "scast (push_bit 16 (insn AND 0xffff)) = res32 (uint (insn AND 0xffff) * 2 ^ 16)" by (rule immediates(4))
  consider "?op = 0" | "?op = 0x11" | "?op \<noteq> 0" "?op \<noteq> 0x11" by blast
  then show ?thesis
  proof cases
    case 1
    then show ?thesis using assms(2) by (simp add: emitOne_def isa_def Let_def special_right [OF assms(1)])
  next
    case 2
    then show ?thesis
      using assms(2)
      by (auto simp: emitOne_def isa_def Let_def emitCop1_def laws committed_put single_value storeGuarded32_def single_write split: if_splits)
  next
    case 3
    then show ?thesis
      using assms(2)
      by (auto simp: emitOne_def isa_def Let_def ea laws committed_put imm16 immediates(1-4) loaded [OF assms(1)] stored [OF assms(1)]
        storeGuarded32_def storeGuarded64_def double_cell single_write single_read uint_load [OF assms(1)] low
        lui [simplified] split: if_splits)
  qed
qed


theorem emitted_code_is_mips_witness:
  "\<exists>fr'. emitOne llvm64_ref None 0x00221821 some_frame = Some fr' \<and> slot fr' 3 = 14"
proof -
  have "isa 0x00221821 some_frame = Some (isa_put 3 14 some_frame)"
    by (simp add: isa_def isa_special_def Let_def some_frame_def r_getGPR_def s32_def res32_def)
  from emitted_code_is_mips [OF llvm64_ref_doc this] show ?thesis by (simp add: isa_put_def)
qed

end
